(* ===== verification/Domain.thy ===== *)
theory Domain
  imports Prelude
begin

text \<open>
  The entities of \<open>internal/domain\<close>: the job, its status, and the errors the layers hand to each
  other. A Go error is a tree: a sentinel (\<open>errors.New\<close>, compared by identity), an opaque error of
  a library with its text, the size error of \<open>http.MaxBytesReader\<close>, or an error built by
  \<open>fmt.Errorf\<close> whose format wraps other errors with \<open>%w\<close>. \<open>errors_is\<close> is \<open>errors.Is\<close>: a depth-first
  search of that tree.
\<close>

section \<open>Errors\<close>

datatype sentinel =
    ErrNotFound | ErrInvalidInput | ErrUnsupportedMedia | ErrPayloadTooLarge | ErrNoPayload
  | ErrTooManyUploads | ErrUnauthorized | ErrDuplicateKey | ErrPermanent
  | Canceled \<comment> \<open>context.Canceled\<close>
  | DeadlineExceeded \<comment> \<open>context.DeadlineExceeded\<close>
  | EOF \<comment> \<open>io.EOF\<close>
  | ErrUnexpectedEOF \<comment> \<open>io.ErrUnexpectedEOF\<close>

fun sentinel_text :: "sentinel \<Rightarrow> string" where
  "sentinel_text ErrNotFound = ''not found''"
| "sentinel_text ErrInvalidInput = ''invalid input''"
| "sentinel_text ErrUnsupportedMedia = ''unsupported media type''"
| "sentinel_text ErrPayloadTooLarge = ''payload too large''"
| "sentinel_text ErrNoPayload = ''text or file required''"
| "sentinel_text ErrTooManyUploads = ''upload capacity exhausted''"
| "sentinel_text ErrUnauthorized = ''unauthorized''"
| "sentinel_text ErrDuplicateKey = ''duplicate idempotency key''"
| "sentinel_text ErrPermanent = ''permanent failure''"
| "sentinel_text Canceled = ''context canceled''"
| "sentinel_text DeadlineExceeded = ''context deadline exceeded''"
| "sentinel_text EOF = ''EOF''"
| "sentinel_text ErrUnexpectedEOF = ''unexpected EOF''"

datatype goerr =
    Sentinel sentinel
  | Opaque string
  | MaxBytesError int
  | Wrapped string "goerr list" \<comment> \<open>the formatted text and the errors it wraps\<close>

fun err_text :: "goerr \<Rightarrow> string" where
  "err_text (Sentinel s) = sentinel_text s"
| "err_text (Opaque m) = m"
| "err_text (MaxBytesError _) = ''http: request body too large''"
| "err_text (Wrapped m _) = m"

fun errors_is :: "goerr \<Rightarrow> sentinel \<Rightarrow> bool" where
  "errors_is (Sentinel s) t = (s = t)"
| "errors_is (Opaque _) _ = False"
| "errors_is (MaxBytesError _) _ = False"
| "errors_is (Wrapped _ es) t = list_ex (\<lambda>e. errors_is e t) es"

text \<open>\<open>errors.As(err, &maxErr)\<close> for \<open>*http.MaxBytesError\<close>: the first one in the tree.\<close>

fun as_max_bytes :: "goerr \<Rightarrow> int option" where
  "as_max_bytes (MaxBytesError n) = Some n"
| "as_max_bytes (Wrapped _ es) =
     (case filter (\<lambda>r. r \<noteq> None) (map as_max_bytes es) of [] \<Rightarrow> None | r # _ \<Rightarrow> r)"
| "as_max_bytes _ = None"

text \<open>\<open>fmt.Errorf("prefix: %w", e)\<close> and \<open>fmt.Errorf("%w: text", sentinel)\<close>.\<close>

definition wrap :: "string \<Rightarrow> goerr \<Rightarrow> goerr" where
  "wrap pre e = Wrapped (pre @ '': '' @ err_text e) [e]"

definition werr :: "sentinel \<Rightarrow> string \<Rightarrow> goerr" where
  "werr s msg = Wrapped (sentinel_text s @ '': '' @ msg) [Sentinel s]"

text \<open>\<open>fmt.Errorf("pre (%w): %w", a, b)\<close>, which wraps both.\<close>

definition wrap2 :: "string \<Rightarrow> goerr \<Rightarrow> goerr \<Rightarrow> goerr" where
  "wrap2 pre a b = Wrapped (pre @ '' ('' @ err_text a @ ''): '' @ err_text b) [a, b]"

lemma errors_is_wrap [simp, err_simps]: "errors_is (wrap pre e) t = errors_is e t"
  by (simp add: wrap_def)

lemma errors_is_werr [simp, err_simps]: "errors_is (werr s m) t = (s = t)"
  by (simp add: werr_def)

lemma errors_is_wrap2 [simp, err_simps]:
  "errors_is (wrap2 pre a b) t = (errors_is a t \<or> errors_is b t)"
  by (simp add: wrap2_def)

section \<open>Jobs\<close>

datatype status = StatusPending | StatusProcessing | StatusCompleted | StatusFailed

fun status_text :: "status \<Rightarrow> string" where
  "status_text StatusPending = ''pending''"
| "status_text StatusProcessing = ''processing''"
| "status_text StatusCompleted = ''completed''"
| "status_text StatusFailed = ''failed''"

lemma status_text_inj: "status_text a = status_text b \<longleftrightarrow> a = b"
  by (cases a; cases b) auto

text \<open>
  The struct \<open>Job\<close>, which is also a row of table \<open>jobs\<close>: \<open>jobColumns\<close> and \<open>scanJob\<close> map the columns
  to the fields one to one. Nil pointers are \<open>None\<close>.
\<close>

record job =
  ID :: string
  Status :: status
  Text :: string
  ObjectKey :: string
  ContentType :: string
  FileName :: string
  SizeBytes :: int
  ResultSummary :: string
  ErrorMessage :: string
  Attempts :: int
  TraceContext :: string
  IdempotencyKey :: string
  LockedBy :: string
  LeaseUntil :: "time option"
  NextAttemptAt :: "time option"
  CreatedAt :: time
  UpdatedAt :: time
  CompletedAt :: "time option"

text \<open>A \<open>&domain.Job{ID, Status, TraceContext}\<close> composite literal: every other field is zero.\<close>

definition zero_job :: job where
  "zero_job = \<lparr>ID = '''', Status = StatusPending, Text = '''', ObjectKey = '''', ContentType = '''',
     FileName = '''', SizeBytes = 0, ResultSummary = '''', ErrorMessage = '''', Attempts = 0,
     TraceContext = '''', IdempotencyKey = '''', LockedBy = '''', LeaseUntil = None,
     NextAttemptAt = None, CreatedAt = 0, UpdatedAt = 0, CompletedAt = None\<rparr>"

section \<open>Ports\<close>

record ProcessInput =
  PI_JobID :: string
  PI_Text :: string
  PI_ContentType :: string
  PI_SizeBytes :: int
  PI_DownloadURL :: string
  PI_TraceContext :: string

record ProcessResult =
  Summary :: string
  ProcessedAt :: time

end
