(* ===== verification/JobRepo.thy ===== *)
theory JobRepo
  imports Domain
begin

text \<open>
  \<open>internal/storage/postgres/jobs.go\<close> over the schema of \<open>migrations/\<close>: the table \<open>jobs\<close> as the
  list of its rows, one function per SQL statement (\<open>sql_*\<close>), and one per method of \<open>JobRepo\<close>.

  Time. A statement sees the server's clock (\<open>NOW()\<close>, \<open>db_now\<close>); the Go code that computes a lease
  or a creation time reads its own (\<open>time.Now().UTC()\<close>, \<open>app_now\<close>). Both are in nanoseconds;
  the rounding of \<open>timestamptz\<close> and of \<open>make_interval(secs => double)\<close> to microseconds is left out,
  and \<open>Duration.Seconds()\<close> together with \<open>make_interval(secs => ...)\<close> is the identity on durations.

  Faults. Every call to the server takes the next entry of a script: the statement runs and its
  result comes back (\<open>Reply\<close>), it never runs (\<open>NotSent\<close>), or it runs and commits but the caller sees an
  error (\<open>ReplyLost\<close>: a connection that dies, or a deadline that passes, after the commit).
\<close>

section \<open>The table and the server\<close>

datatype fault = Reply | NotSent goerr | ReplyLost goerr

record pg =
  rows :: "job list"
  db_now :: time
  app_now :: time
  faults :: "fault list"

definition next_fault :: "pg \<Rightarrow> fault" where
  "next_fault p = (case faults p of [] \<Rightarrow> Reply | f # _ \<Rightarrow> f)"

definition pop_fault :: "pg \<Rightarrow> pg" where
  "pop_fault p = p\<lparr>faults := tl (faults p)\<rparr>"

text \<open>
  One round trip. \<open>pre\<close> is the text the method wraps around an error of the driver; \<open>post\<close> the one
  for an error that arrives with or after the rows.
\<close>

definition round_trip ::
  "string \<Rightarrow> string \<Rightarrow> (job list \<Rightarrow> (goerr + 'a) \<times> job list) \<Rightarrow> pg \<Rightarrow> (goerr + 'a) \<times> pg" where
  "round_trip pre post stmt p =
     (let (r, rs) = stmt (rows p); q = pop_fault p
      in case next_fault p of
           Reply \<Rightarrow> (r, q\<lparr>rows := rs\<rparr>)
         | NotSent e \<Rightarrow> (Inl (wrap pre e), q)
         | ReplyLost e \<Rightarrow> (Inl (wrap post e), q\<lparr>rows := rs\<rparr>))"

section \<open>The statements\<close>

subsection \<open>INSERT\<close>

text \<open>
  The unique indexes of the table: the primary key, and the partial index on non-empty
  idempotency keys. Both raise SQLSTATE 23505.
\<close>

definition unique_violation :: "job \<Rightarrow> job list \<Rightarrow> bool" where
  "unique_violation j rs \<longleftrightarrow>
     list_ex (\<lambda>r. ID r = ID j \<or> (IdempotencyKey j \<noteq> '''' \<and> IdempotencyKey r = IdempotencyKey j)) rs"

definition sql_insert :: "job \<Rightarrow> job list \<Rightarrow> (goerr + unit) \<times> job list" where
  "sql_insert j rs =
     (if unique_violation j rs then (Inl (Sentinel ErrDuplicateKey), rs) else (Inr (), rs @ [j]))"

subsection \<open>The claim\<close>

definition due :: "time \<Rightarrow> job \<Rightarrow> bool" where
  "due now j \<longleftrightarrow> Status j = StatusPending \<and>
     (case NextAttemptAt j of None \<Rightarrow> True | Some t \<Rightarrow> t \<le> now)"

text \<open>
  The inner \<open>SELECT ... ORDER BY created_at FOR UPDATE SKIP LOCKED LIMIT $3\<close>. Rows another
  transaction holds (\<open>locked\<close>) are passed over. Rows created at the same instant come in table
  order here; the server leaves their order open.
\<close>

definition claim_select :: "(string \<Rightarrow> bool) \<Rightarrow> time \<Rightarrow> int \<Rightarrow> job list \<Rightarrow> job list" where
  "claim_select locked now limit rs =
     take (nat limit) (sort_key CreatedAt (filter (\<lambda>j. due now j \<and> \<not> locked (ID j)) rs))"

definition claim_row :: "time \<Rightarrow> string \<Rightarrow> time \<Rightarrow> job \<Rightarrow> job" where
  [row_defs]: "claim_row lease_until worker now j =
     j\<lparr>Status := StatusProcessing, Attempts := Attempts j + 1, LeaseUntil := Some lease_until,
       LockedBy := worker, NextAttemptAt := None, UpdatedAt := now\<rparr>"

text \<open>
  The outer \<open>UPDATE ... WHERE id IN (...) RETURNING\<close>. A negative \<open>LIMIT\<close> is an error of the server.
\<close>

definition sql_claim ::
  "(string \<Rightarrow> bool) \<Rightarrow> time \<Rightarrow> string \<Rightarrow> time \<Rightarrow> int \<Rightarrow> job list \<Rightarrow> (goerr + job list) \<times> job list" where
  "sql_claim locked lease_until worker now limit rs =
     (if limit < 0 then (Inl (wrap ''claim jobs'' (Opaque ''LIMIT must not be negative'')), rs)
      else let ids = map ID (claim_select locked now limit rs);
               hit = (\<lambda>j. List.member ids (ID j));
               upd = claim_row lease_until worker now
           in (Inr (map upd (filter hit rs)), update_where hit upd rs))"

subsection \<open>Updates of one processing row\<close>

definition owned :: "string \<Rightarrow> job \<Rightarrow> bool" where
  "owned i j \<longleftrightarrow> ID j = i \<and> Status j = StatusProcessing"

definition extend_row :: "time \<Rightarrow> time \<Rightarrow> job \<Rightarrow> job" where
  [row_defs]: "extend_row lease_until now j = j\<lparr>LeaseUntil := Some lease_until, UpdatedAt := now\<rparr>"

definition complete_row :: "string \<Rightarrow> time \<Rightarrow> job \<Rightarrow> job" where
  [row_defs]: "complete_row summary now j =
     j\<lparr>Status := StatusCompleted, ResultSummary := summary, ErrorMessage := '''', LeaseUntil := None,
       LockedBy := '''', CompletedAt := Some now, UpdatedAt := now\<rparr>"

definition fail_row :: "string \<Rightarrow> time \<Rightarrow> job \<Rightarrow> job" where
  [row_defs]: "fail_row message now j =
     j\<lparr>Status := StatusFailed, ErrorMessage := message, LeaseUntil := None, LockedBy := '''',
       NextAttemptAt := None, CompletedAt := Some now, UpdatedAt := now\<rparr>"

text \<open>\<open>LEAST(base * POWER(2, GREATEST(attempts - 1, 0)), max)\<close>\<close>

definition backoff :: "duration \<Rightarrow> duration \<Rightarrow> int \<Rightarrow> duration" where
  "backoff base mx attempts = min (base * 2 ^ nat (max (attempts - 1) 0)) mx"

definition retry_row ::
  "string \<Rightarrow> int \<Rightarrow> duration \<Rightarrow> duration \<Rightarrow> time \<Rightarrow> job \<Rightarrow> job" where
  [row_defs]: "retry_row message maxAttempts base mx now j =
     (let exhausted = Attempts j \<ge> maxAttempts
      in j\<lparr>Status := (if exhausted then StatusFailed else StatusPending),
           ErrorMessage := message, LeaseUntil := None, LockedBy := '''',
           NextAttemptAt := (if exhausted then None else Some (now + backoff base mx (Attempts j))),
           CompletedAt := (if exhausted then Some now else None), UpdatedAt := now\<rparr>)"

text \<open>An \<open>UPDATE\<close> of one row whose row count 0 the method reports as \<open>ErrNotFound\<close>.\<close>

definition update_one ::
  "(job \<Rightarrow> bool) \<Rightarrow> (job \<Rightarrow> job) \<Rightarrow> job list \<Rightarrow> (goerr + unit) \<times> job list" where
  "update_one p f rs =
     (if affected p rs = 0 then Inl (Sentinel ErrNotFound) else Inr (), update_where p f rs)"

text \<open>The retry returns the new status of the row it hit, \<open>RETURNING status\<close>.\<close>

definition sql_retry ::
  "string \<Rightarrow> string \<Rightarrow> int \<Rightarrow> duration \<Rightarrow> duration \<Rightarrow> time \<Rightarrow> job list \<Rightarrow> (goerr + bool) \<times> job list" where
  "sql_retry i message maxAttempts base mx now rs =
     (let upd = retry_row message maxAttempts base mx now
      in (case find (owned i) rs of
            None \<Rightarrow> Inl (Sentinel ErrNotFound)
          | Some j \<Rightarrow> Inr (Status (upd j) = StatusPending),
          update_where (owned i) upd rs))"

subsection \<open>The reaper's update\<close>

definition expired :: "time \<Rightarrow> job \<Rightarrow> bool" where
  "expired now j \<longleftrightarrow> Status j = StatusProcessing \<and>
     (case LeaseUntil j of None \<Rightarrow> False | Some t \<Rightarrow> t < now)"

definition reap_row :: "time \<Rightarrow> job \<Rightarrow> job" where
  [row_defs]: "reap_row now j =
     j\<lparr>Status := StatusPending, LeaseUntil := None, LockedBy := '''',
       ErrorMessage := ''lease expired, requeued'', UpdatedAt := now\<rparr>"

definition sql_reap :: "time \<Rightarrow> job list \<Rightarrow> (goerr + nat) \<times> job list" where
  "sql_reap now rs = (Inr (affected (expired now) rs), update_where (expired now) (reap_row now) rs)"

section \<open>The methods of JobRepo\<close>

text \<open>
  \<open>Create\<close> also fills the job it is given: the id if it has none (\<open>uuid.NewString\<close>, the argument
  \<open>fresh\<close>) and both timestamps. A status is always set in the model (there is no empty one). The
  job is returned because the caller holds a pointer to it.
\<close>

definition Create :: "string \<Rightarrow> job \<Rightarrow> pg \<Rightarrow> (goerr option \<times> job) \<times> pg" where
  "Create fresh job p =
     (let j1 = (if ID job = '''' then job\<lparr>ID := fresh\<rparr> else job);
          j2 = j1\<lparr>CreatedAt := app_now p, UpdatedAt := app_now p\<rparr>
      in case round_trip ''insert job'' ''insert job'' (sql_insert j2) p of
           (Inl e, q) \<Rightarrow> ((Some e, j2), q)
         | (Inr _, q) \<Rightarrow> ((None, j2), q))"

text \<open>\<open>SELECT ... WHERE cond\<close> of one row; \<open>pgx.ErrNoRows\<close> becomes \<open>ErrNotFound\<close>.\<close>

definition read_row :: "string \<Rightarrow> (job \<Rightarrow> bool) \<Rightarrow> pg \<Rightarrow> (goerr + job) \<times> pg" where
  "read_row pre cond p =
     round_trip pre pre
       (\<lambda>rs. (case find cond rs of None \<Rightarrow> Inl (Sentinel ErrNotFound) | Some j \<Rightarrow> Inr j, rs)) p"

definition GetByIdempotencyKey :: "string \<Rightarrow> pg \<Rightarrow> (goerr + job) \<times> pg" where
  "GetByIdempotencyKey key p =
     (if key = '''' then (Inl (Sentinel ErrNotFound), p)
      else read_row ''get job by idempotency key'' (\<lambda>j. IdempotencyKey j = key) p)"

text \<open>
  \<open>uuid_ok\<close> is whether \<open>uuid.Parse\<close> (package google/uuid) accepts the text; \<open>pg_uuid\<close> is the
  server's own reading of it as a value of type \<open>uuid\<close>, in canonical form, or \<open>None\<close> for text that
  it rejects with a type error.
\<close>

definition Get ::
  "(string \<Rightarrow> bool) \<Rightarrow> (string \<Rightarrow> string option) \<Rightarrow> string \<Rightarrow> pg \<Rightarrow> (goerr + job) \<times> pg" where
  "Get uuid_ok pg_uuid i p =
     (if \<not> uuid_ok i then (Inl (Sentinel ErrNotFound), p)
      else case pg_uuid i of
             None \<Rightarrow> (Inl (wrap ''get job'' (Opaque ''invalid input syntax for type uuid'')), pop_fault p)
           | Some u \<Rightarrow> read_row ''get job'' (\<lambda>j. ID j = u) p)"

definition ClaimBatch ::
  "(string \<Rightarrow> bool) \<Rightarrow> string \<Rightarrow> duration \<Rightarrow> int \<Rightarrow> pg \<Rightarrow> (goerr + job list) \<times> pg" where
  "ClaimBatch locked workerID lease limit p =
     round_trip ''claim jobs'' ''claim rows''
       (sql_claim locked (app_now p + lease) workerID (db_now p) limit) p"

definition exec_one ::
  "string \<Rightarrow> (job \<Rightarrow> bool) \<Rightarrow> (job \<Rightarrow> job) \<Rightarrow> pg \<Rightarrow> goerr option \<times> pg" where
  "exec_one pre cond upd p =
     (case round_trip pre pre (update_one cond upd) p of
        (Inl e, q) \<Rightarrow> (Some e, q)
      | (Inr _, q) \<Rightarrow> (None, q))"

definition ExtendLease :: "string \<Rightarrow> duration \<Rightarrow> pg \<Rightarrow> goerr option \<times> pg" where
  "ExtendLease i lease p =
     exec_one ''extend lease'' (owned i) (extend_row (app_now p + lease) (db_now p)) p"

definition Complete :: "string \<Rightarrow> string \<Rightarrow> pg \<Rightarrow> goerr option \<times> pg" where
  "Complete i summary p =
     exec_one ''complete job'' (owned i) (complete_row summary (db_now p)) p"

definition Fail :: "string \<Rightarrow> string \<Rightarrow> pg \<Rightarrow> goerr option \<times> pg" where
  "Fail i message p =
     exec_one ''fail job'' (owned i) (fail_row message (db_now p)) p"

definition Retry ::
  "string \<Rightarrow> string \<Rightarrow> int \<Rightarrow> duration \<Rightarrow> duration \<Rightarrow> pg \<Rightarrow> (goerr + bool) \<times> pg" where
  "Retry i message maxAttempts base mx p =
     round_trip ''retry job'' ''retry job'' (sql_retry i message maxAttempts base mx (db_now p)) p"

definition ReapExpired :: "pg \<Rightarrow> (goerr + nat) \<times> pg" where
  "ReapExpired p = round_trip ''reap expired'' ''reap expired'' (sql_reap (db_now p)) p"

definition CountByStatus :: "status \<Rightarrow> pg \<Rightarrow> (goerr + nat) \<times> pg" where
  "CountByStatus st p =
     round_trip ''count by status'' ''count by status''
       (\<lambda>rs. (Inr (affected (\<lambda>j. Status j = st) rs), rs)) p"

text \<open>\<open>Ping\<close> takes a round trip that reads nothing.\<close>

definition Ping :: "pg \<Rightarrow> goerr option \<times> pg" where
  "Ping p = (case next_fault p of
               Reply \<Rightarrow> (None, pop_fault p)
             | NotSent e \<Rightarrow> (Some e, pop_fault p)
             | ReplyLost e \<Rightarrow> (Some e, pop_fault p))"

end
