(* ===== verification/Lifecycle.thy ===== *)
theory Lifecycle
  imports JobRepo
begin

text \<open>
  The table over time. \<open>table_op\<close> lists the statements that change it, with arbitrary arguments
  (any worker, any clock reading, any job id: nothing here assumes that callers behave), and
  \<open>reachable\<close> the tables they can build from the empty one. The lemmas give the well-formedness
  of rows, the life cycle of a job, and the counting of attempts.
\<close>

section \<open>Statements as operations, and runs\<close>

datatype table_op =
    OpInsert job
  | OpClaim "string list" time string time int \<comment> \<open>locked ids, lease, worker, now, limit\<close>
  | OpExtend string time time
  | OpComplete string string time
  | OpRetry string string int duration duration time
  | OpFail string string time
  | OpReap time

fun apply_op :: "table_op \<Rightarrow> job list \<Rightarrow> job list" where
  "apply_op (OpInsert j) rs = snd (sql_insert j rs)"
| "apply_op (OpClaim locked lu w now limit) rs = snd (sql_claim (List.member locked) lu w now limit rs)"
| "apply_op (OpExtend i lu now) rs = snd (update_one (owned i) (extend_row lu now) rs)"
| "apply_op (OpComplete i summary now) rs = snd (update_one (owned i) (complete_row summary now) rs)"
| "apply_op (OpRetry i msg n base mx now) rs = snd (sql_retry i msg n base mx now rs)"
| "apply_op (OpFail i msg now) rs = snd (update_one (owned i) (fail_row msg now) rs)"
| "apply_op (OpReap now) rs = snd (sql_reap now rs)"

text \<open>What \<open>NewDraft\<close> and the draft's setters can put into a job that is inserted.\<close>

definition new_row :: "job \<Rightarrow> bool" where
  "new_row j \<longleftrightarrow> Status j = StatusPending \<and> Attempts j = 0 \<and> LockedBy j = '''' \<and>
     LeaseUntil j = None \<and> NextAttemptAt j = None \<and> CompletedAt j = None \<and>
     ResultSummary j = '''' \<and> ErrorMessage j = ''''"

fun op_ok :: "table_op \<Rightarrow> bool" where
  "op_ok (OpInsert j) = new_row j"
| "op_ok _ = True"

inductive reachable :: "job list \<Rightarrow> bool" where
  empty: "reachable []"
| step: "reachable rs \<Longrightarrow> op_ok op \<Longrightarrow> reachable (apply_op op rs)"

definition run_ops :: "table_op list \<Rightarrow> job list \<Rightarrow> job list" where
  "run_ops ops rs = fold apply_op ops rs"

lemma reachable_run: "reachable rs \<Longrightarrow> list_all op_ok ops \<Longrightarrow> reachable (run_ops ops rs)"
  by (induction ops arbitrary: rs) (auto simp: run_ops_def intro: reachable.step)

section \<open>Every statement but INSERT updates rows in place, by a row transition\<close>

inductive row_step :: "job \<Rightarrow> job \<Rightarrow> bool" where
  claimed: "due now j \<Longrightarrow> row_step j (claim_row lu w now j)"
| extended: "Status j = StatusProcessing \<Longrightarrow> row_step j (extend_row lu now j)"
| completed: "Status j = StatusProcessing \<Longrightarrow> row_step j (complete_row summary now j)"
| retried: "Status j = StatusProcessing \<Longrightarrow> row_step j (retry_row msg n base mx now j)"
| failed: "Status j = StatusProcessing \<Longrightarrow> row_step j (fail_row msg now j)"
| reaped: "expired now j \<Longrightarrow> row_step j (reap_row now j)"

lemma set_claim_select:
  "j \<in> set (claim_select locked now limit rs) \<Longrightarrow> j \<in> set rs \<and> due now j \<and> \<not> locked (ID j)"
  by (auto simp: claim_select_def dest: in_set_takeD)

lemma snd_sql_claim:
  "snd (sql_claim locked lu w now limit rs) =
     (if limit < 0 then rs
      else update_where (\<lambda>j. ID j \<in> ID ` set (claim_select locked now limit rs))
             (claim_row lu w now) rs)"
  by (simp add: sql_claim_def Let_def)

lemma claim_hits_due:
  assumes "distinct (map ID rs)" and "j \<in> set rs"
    and "ID j \<in> ID ` set (claim_select locked now limit rs)"
  shows "due now j \<and> \<not> locked (ID j) \<and> j \<in> set (claim_select locked now limit rs)"
proof -
  from assms(3) obtain k where k: "k \<in> set (claim_select locked now limit rs)" "ID k = ID j"
    by auto
  then have "k = j"
    using assms(1,2) set_claim_select by (metis distinct_map_eq)
  with k show ?thesis using set_claim_select by blast
qed

text \<open>The shape of every operation: an insertion at the end, or an update in place.\<close>

lemma apply_op_cases:
  assumes "distinct (map ID rs)"
  obtains (insert) j where "op = OpInsert j" and "\<not> unique_violation j rs"
      and "apply_op op rs = rs @ [j]"
  | (update) p f where "apply_op op rs = update_where p f rs"
      and "\<And>j. j \<in> set rs \<Longrightarrow> p j \<Longrightarrow> row_step j (f j)"
proof (cases op)
  case (OpInsert j)
  then show ?thesis
    using insert update [of "\<lambda>_. False" id]
    by (cases "unique_violation j rs") (auto simp: sql_insert_def update_where_def)
next
  case (OpClaim locked lu w now limit)
  show ?thesis
  proof (cases "limit < 0")
    case True
    with OpClaim show ?thesis
      using update [of "\<lambda>_. False" id] by (simp add: snd_sql_claim update_where_def)
  next
    case False
    with OpClaim show ?thesis
      using update claim_hits_due [OF assms] by (simp add: snd_sql_claim row_step.claimed)
  qed
qed ((rule update, (simp add: update_one_def sql_retry_def sql_reap_def Let_def; fail),
      simp add: owned_def row_step.intros)+)

section \<open>Row invariant\<close>

definition row_ok :: "job \<Rightarrow> bool" where
  "row_ok j \<longleftrightarrow> 0 \<le> Attempts j \<and>
     (case Status j of
        StatusPending \<Rightarrow> LeaseUntil j = None \<and> LockedBy j = '''' \<and> CompletedAt j = None
      | StatusProcessing \<Rightarrow> LeaseUntil j \<noteq> None \<and> NextAttemptAt j = None \<and>
          CompletedAt j = None \<and> 1 \<le> Attempts j
      | StatusCompleted \<Rightarrow> LeaseUntil j = None \<and> LockedBy j = '''' \<and> NextAttemptAt j = None \<and>
          CompletedAt j \<noteq> None \<and> ErrorMessage j = '''' \<and> 1 \<le> Attempts j
      | StatusFailed \<Rightarrow> LeaseUntil j = None \<and> LockedBy j = '''' \<and> NextAttemptAt j = None \<and>
          CompletedAt j \<noteq> None \<and> 1 \<le> Attempts j)"

lemma row_step_row_ok: "row_step j k \<Longrightarrow> row_ok j \<Longrightarrow> row_ok k"
  by (induction rule: row_step.induct)
     (auto simp: row_ok_def row_defs due_def expired_def Let_def split: status.splits)

lemma new_row_ok: "new_row j \<Longrightarrow> row_ok j"
  by (simp add: new_row_def row_ok_def)

text \<open>What no statement changes in a row once it exists.\<close>

definition same_payload :: "job \<Rightarrow> job \<Rightarrow> bool" where
  "same_payload j k \<longleftrightarrow> ID k = ID j \<and> Text k = Text j \<and> ObjectKey k = ObjectKey j \<and>
     ContentType k = ContentType j \<and> FileName k = FileName j \<and> SizeBytes k = SizeBytes j \<and>
     TraceContext k = TraceContext j \<and> IdempotencyKey k = IdempotencyKey j \<and>
     CreatedAt k = CreatedAt j"

lemma same_payload_refl [simp]: "same_payload j j"
  by (simp add: same_payload_def)

lemma same_payload_trans: "same_payload i j \<Longrightarrow> same_payload j k \<Longrightarrow> same_payload i k"
  by (simp add: same_payload_def)

lemma row_step_payload: "row_step j k \<Longrightarrow> same_payload j k"
  by (induction rule: row_step.induct) (simp_all add: same_payload_def row_defs Let_def)

text \<open>The edges of the life cycle.\<close>

fun edge :: "status \<Rightarrow> status \<Rightarrow> bool" where
  "edge StatusPending t = (t = StatusProcessing)"
| "edge StatusProcessing t = True"
| "edge _ _ = False"

lemma row_step_edge: "row_step j k \<Longrightarrow> edge (Status j) (Status k)"
  by (induction rule: row_step.induct) (auto simp: row_defs due_def expired_def Let_def)

lemma row_step_attempts:
  "row_step j k \<Longrightarrow> Attempts k = Attempts j + (if Status j = StatusPending then 1 else 0)"
  by (induction rule: row_step.induct) (auto simp: row_defs due_def expired_def Let_def)

section \<open>Table invariant\<close>

definition table_ok :: "job list \<Rightarrow> bool" where
  "table_ok rs \<longleftrightarrow> distinct (map ID rs) \<and>
     distinct (filter (\<lambda>k. k \<noteq> '''') (map IdempotencyKey rs)) \<and> list_all row_ok rs"

lemma table_ok_distinct: "table_ok rs \<Longrightarrow> distinct (map ID rs)"
  by (simp add: table_ok_def)

lemma table_ok_insert:
  assumes "table_ok rs" and "new_row j" and "\<not> unique_violation j rs"
  shows "table_ok (rs @ [j])"
  using assms
  by (auto simp: table_ok_def unique_violation_def new_row_ok list_ex_iff list_all_iff)

lemma table_ok_update:
  assumes "table_ok rs" and "\<And>j. j \<in> set rs \<Longrightarrow> p j \<Longrightarrow> row_step j (f j)"
  shows "table_ok (update_where p f rs)"
proof -
  have pay: "same_payload j (f j)" if "j \<in> set rs" "p j" for j
    using assms(2) that row_step_payload by blast
  have "map ID (update_where p f rs) = map ID rs"
    "map IdempotencyKey (update_where p f rs) = map IdempotencyKey rs"
    using pay by (auto simp: update_where_def same_payload_def)
  moreover have "list_all row_ok (update_where p f rs)"
    using assms row_step_row_ok by (fastforce simp: table_ok_def list_all_iff in_update_where)
  ultimately show ?thesis using assms(1) by (simp add: table_ok_def)
qed

lemma apply_op_table_ok:
  assumes "table_ok rs" and "op_ok op"
  shows "table_ok (apply_op op rs)"
  using table_ok_distinct [OF assms(1)]
proof (cases rule: apply_op_cases [of rs op])
  case (insert j)
  with assms table_ok_insert show ?thesis by simp
next
  case (update p f)
  with assms table_ok_update show ?thesis by simp
qed

lemma reachable_table_ok: "reachable rs \<Longrightarrow> table_ok rs"
  by (induction rule: reachable.induct) (auto simp: table_ok_def [of "[]"] intro: apply_op_table_ok)

section \<open>A job through one statement and through a run\<close>

lemma apply_op_row:
  assumes "distinct (map ID rs)" and "j \<in> set rs"
  shows "\<exists>k \<in> set (apply_op op rs). ID k = ID j \<and> (k = j \<or> row_step j k)"
  using assms(1)
proof (cases rule: apply_op_cases [of rs op])
  case (insert i)
  with assms(2) show ?thesis by auto
next
  case (update p f)
  let ?k = "if p j then f j else j"
  have "ID ?k = ID j \<and> (?k = j \<or> row_step j ?k)"
    using update(2) [OF assms(2)] row_step_payload by (auto simp: same_payload_def)
  moreover have "?k \<in> set (apply_op op rs)"
    using update(1) assms(2) by (simp add: update_where_mem)
  ultimately show ?thesis by blast
qed

lemma row_step_not_terminal:
  "row_step j k \<Longrightarrow> Status j = StatusPending \<or> Status j = StatusProcessing"
  using row_step_edge [of j k] by (cases "Status j") auto

lemma apply_op_terminal:
  assumes "distinct (map ID rs)" and "j \<in> set rs"
    and "Status j = StatusCompleted \<or> Status j = StatusFailed"
  shows "j \<in> set (apply_op op rs)"
  using apply_op_row [OF assms(1,2), of op] row_step_not_terminal assms(3) by fastforce

lemma run_ops_table_ok:
  "table_ok rs \<Longrightarrow> list_all op_ok ops \<Longrightarrow> table_ok (run_ops ops rs)"
  by (induction ops arbitrary: rs) (auto simp: run_ops_def intro: apply_op_table_ok)

lemma run_ops_terminal:
  assumes "table_ok rs" and "list_all op_ok ops" and "j \<in> set rs"
    and "Status j = StatusCompleted \<or> Status j = StatusFailed"
  shows "j \<in> set (run_ops ops rs)"
  using assms
proof (induction ops arbitrary: rs)
  case Nil
  then show ?case by (simp add: run_ops_def)
next
  case (Cons op ops)
  have "table_ok (apply_op op rs)" "j \<in> set (apply_op op rs)"
    using Cons.prems apply_op_table_ok apply_op_terminal table_ok_distinct by auto
  then show ?case using Cons by (simp add: run_ops_def)
qed

section \<open>Counting attempts\<close>

text \<open>
  The attempts a row can have when every retry uses the limit \<open>n\<close> and no lease is reaped. The row of
  a job the reaper never touched obeys it; \<open>reap\<close> is the only statement that can break it.
\<close>

definition attempts_ok :: "int \<Rightarrow> job \<Rightarrow> bool" where
  "attempts_ok n j \<longleftrightarrow> Attempts j \<le> n \<and> (Status j = StatusPending \<longrightarrow> Attempts j < n)"

fun op_limit :: "int \<Rightarrow> table_op \<Rightarrow> bool" where
  "op_limit n (OpRetry _ _ m _ _ _) = (m = n)"
| "op_limit n (OpReap _) = False"
| "op_limit n _ = True"

lemma attempts_ok_update:
  assumes "list_all (attempts_ok n) rs"
    and "\<And>j. j \<in> set rs \<Longrightarrow> p j \<Longrightarrow> attempts_ok n j \<Longrightarrow> attempts_ok n (f j)"
  shows "list_all (attempts_ok n) (update_where p f rs)"
  using assms by (fastforce simp: list_all_iff in_update_where)

lemma apply_op_attempts_ok:
  assumes "1 \<le> n" and "distinct (map ID rs)" and "op_ok op" and "op_limit n op"
    and "list_all (attempts_ok n) rs"
  shows "list_all (attempts_ok n) (apply_op op rs)"
proof (cases op)
  case (OpInsert j)
  then show ?thesis using assms
    by (auto simp: sql_insert_def new_row_def attempts_ok_def)
next
  case (OpClaim locked lu w now limit)
  have "attempts_ok n (claim_row lu w now j)"
    if "j \<in> set rs" "ID j \<in> ID ` set (claim_select (List.member locked) now limit rs)"
      "attempts_ok n j" for j
    using claim_hits_due [OF assms(2) that(1,2)] that(3)
    by (auto simp: due_def attempts_ok_def row_defs)
  then show ?thesis using assms(5) OpClaim by (auto simp: snd_sql_claim intro: attempts_ok_update)
qed (use assms in \<open>auto simp: update_one_def sql_retry_def Let_def owned_def row_defs attempts_ok_def
       intro!: attempts_ok_update\<close>)

lemma run_ops_attempts_ok:
  assumes "1 \<le> n" and "table_ok rs" and "list_all op_ok ops" and "list_all (op_limit n) ops"
    and "list_all (attempts_ok n) rs"
  shows "list_all (attempts_ok n) (run_ops ops rs)"
  using assms
proof (induction ops arbitrary: rs)
  case Nil
  then show ?case by (simp add: run_ops_def)
next
  case (Cons op ops)
  then have "list_all (attempts_ok n) (apply_op op rs)" "table_ok (apply_op op rs)"
    by (auto intro: apply_op_attempts_ok apply_op_table_ok simp: table_ok_distinct)
  with Cons show ?case by (simp add: run_ops_def)
qed

text \<open>A worker that claims the only job and dies, and the reaper after it, \<open>k\<close> times over.\<close>

fun crash_loop :: "nat \<Rightarrow> table_op list" where
  "crash_loop 0 = []"
| "crash_loop (Suc k) = crash_loop k @ [OpClaim [] 1 ''w'' 0 1, OpReap 2]"

lemma claim_single:
  assumes "due now j" and "\<not> locked (ID j)" and "0 < limit"
  shows "claim_select locked now limit [j] = [j]"
  using assms by (auto simp: claim_select_def take_Cons' nat_eq_iff)

lemma crash_step:
  assumes "Status j = StatusPending" and "NextAttemptAt j = None"
  shows "run_ops [OpClaim [] 1 ''w'' 0 1, OpReap 2] [j] =
    [j\<lparr>Attempts := Attempts j + 1, LeaseUntil := None, LockedBy := '''', NextAttemptAt := None,
       ErrorMessage := ''lease expired, requeued'', UpdatedAt := 2\<rparr>]"
  using assms
  by (simp add: run_ops_def snd_sql_claim claim_single due_def update_where_def sql_reap_def
        expired_def row_defs)

lemma crash_loop_attempts:
  assumes "Status j = StatusPending" and "NextAttemptAt j = None"
  shows "\<exists>k. run_ops (crash_loop n) [j] = [k] \<and> Status k = StatusPending \<and> NextAttemptAt k = None \<and>
    Attempts k = Attempts j + int n"
proof (induction n)
  case 0
  then show ?case using assms by (simp add: run_ops_def)
next
  case (Suc n)
  then obtain k where k: "run_ops (crash_loop n) [j] = [k]" "Status k = StatusPending"
    "NextAttemptAt k = None" "Attempts k = Attempts j + int n" by blast
  have "run_ops (crash_loop (Suc n)) [j] = run_ops [OpClaim [] 1 ''w'' 0 1, OpReap 2] [k]"
    using k(1) by (simp add: run_ops_def)
  with crash_step [OF k(2,3)] k show ?case by simp
qed

end
