(* ===== verification/Claims.thy ===== *)
theory Claims
  imports Lifecycle
begin

text \<open>
  The claim in detail: which rows one statement takes (\<open>ORDER BY created_at LIMIT n\<close>), and what
  \<open>FOR UPDATE SKIP LOCKED\<close> gives when several replicas claim at once. For the second the statement
  is split in two: \<open>begin_claim\<close> picks and locks rows, \<open>commit_claim\<close> writes them and releases the
  locks, and other transactions run in between. The server evaluates the conditions of the inner
  SELECT on the current version of a row it locks, so picking and locking one row is one step.
\<close>

section \<open>Which rows a claim takes\<close>

lemma length_claim_select:
  "length (claim_select locked now limit rs) =
     min (nat limit) (affected (\<lambda>j. due now j \<and> \<not> locked (ID j)) rs)"
  by (simp add: claim_select_def affected_def min.commute)

lemma claim_select_oldest:
  assumes "k \<in> set (claim_select locked now limit rs)"
    and "j \<in> set rs" "due now j" "\<not> locked (ID j)" "j \<notin> set (claim_select locked now limit rs)"
  shows "CreatedAt k \<le> CreatedAt j"
proof -
  let ?s = "sort_key CreatedAt (filter (\<lambda>j. due now j \<and> \<not> locked (ID j)) rs)"
  have "sorted (map CreatedAt (take (nat limit) ?s @ drop (nat limit) ?s))" by simp
  then have le: "\<forall>x \<in> set (take (nat limit) ?s). \<forall>y \<in> set (drop (nat limit) ?s).
      CreatedAt x \<le> CreatedAt y"
    by (simp only: map_append sorted_append) auto
  have "j \<in> set (take (nat limit) ?s @ drop (nat limit) ?s)" using assms(2-4) by simp
  then have "j \<in> set (drop (nat limit) ?s)"
    using assms(5) by (simp only: set_append) (simp add: claim_select_def)
  with le assms(1) show ?thesis by (simp add: claim_select_def)
qed

lemma distinct_claim_select:
  "distinct (map ID rs) \<Longrightarrow> distinct (map ID (claim_select locked now limit rs))"
proof -
  assume d: "distinct (map ID rs)"
  let ?f = "filter (\<lambda>j. due now j \<and> \<not> locked (ID j)) rs"
  have "distinct (map ID ?f)" using d by (rule distinct_map_filter)
  then have "distinct (map ID (sort_key CreatedAt ?f))"
    unfolding distinct_map distinct_sort set_sort .
  then have "distinct (take (nat limit) (map ID (sort_key CreatedAt ?f)))"
    by (rule distinct_take)
  then show ?thesis unfolding claim_select_def take_map .
qed

text \<open>The rows a successful claim returns are the selected ones, updated.\<close>

lemma sql_claim_result:
  assumes "distinct (map ID rs)" and "0 \<le> limit"
  obtains js where "fst (sql_claim locked lu w now limit rs) = Inr js"
    and "set js = claim_row lu w now ` set (claim_select locked now limit rs)"
    and "length js = length (claim_select locked now limit rs)"
proof -
  let ?sel = "claim_select locked now limit rs"
  let ?hits = "filter (\<lambda>j. ID j \<in> ID ` set ?sel) rs"
  let ?js = "map (claim_row lu w now) ?hits"
  have eq: "set ?hits = set ?sel"
  proof (intro equalityI subsetI)
    fix j assume "j \<in> set ?hits"
    then show "j \<in> set ?sel" using claim_hits_due [OF assms(1)] by simp
  next
    fix j assume "j \<in> set ?sel"
    then show "j \<in> set ?hits" using set_claim_select by fastforce
  qed
  have "distinct ?hits" "distinct ?sel"
    using assms(1) distinct_claim_select [OF assms(1)] by (auto simp: distinct_map)
  with eq have "length ?hits = length ?sel" by (metis distinct_card)
  with eq assms(2) show ?thesis
    by (intro that [of ?js]) (simp_all add: sql_claim_def Let_def)
qed

section \<open>Concurrent claims\<close>

record txn =
  t_worker :: string
  t_lease :: time
  t_now :: time
  t_ids :: "string list"

record claim_sys =
  c_table :: "job list"
  inflight :: "txn list"

definition locked_in :: "claim_sys \<Rightarrow> string \<Rightarrow> bool" where
  "locked_in s i \<longleftrightarrow> list_ex (\<lambda>t. List.member (t_ids t) i) (inflight s)"

definition begin_claim :: "string \<Rightarrow> time \<Rightarrow> time \<Rightarrow> int \<Rightarrow> claim_sys \<Rightarrow> claim_sys" where
  "begin_claim w lu now limit s =
     s\<lparr>inflight := inflight s @
        [\<lparr>t_worker = w, t_lease = lu, t_now = now,
          t_ids = map ID (claim_select (locked_in s) now limit (c_table s))\<rparr>]\<rparr>"

definition txn_rows :: "txn \<Rightarrow> job list \<Rightarrow> job list" where
  "txn_rows t rs = filter (\<lambda>j. List.member (t_ids t) (ID j)) rs"

definition commit_claim :: "nat \<Rightarrow> claim_sys \<Rightarrow> job list \<times> claim_sys" where
  "commit_claim n s =
     (let t = inflight s ! n; upd = claim_row (t_lease t) (t_worker t) (t_now t)
      in (map upd (txn_rows t (c_table s)),
          s\<lparr>c_table := update_where (\<lambda>j. List.member (t_ids t) (ID j)) upd (c_table s),
            inflight := take n (inflight s) @ drop (Suc n) (inflight s)\<rparr>))"

definition rollback_claim :: "nat \<Rightarrow> claim_sys \<Rightarrow> claim_sys" where
  "rollback_claim n s = s\<lparr>inflight := take n (inflight s) @ drop (Suc n) (inflight s)\<rparr>"

fun is_claim :: "table_op \<Rightarrow> bool" where
  "is_claim (OpClaim _ _ _ _ _) = True"
| "is_claim _ = False"

inductive claim_step :: "claim_sys \<Rightarrow> claim_sys \<Rightarrow> bool" where
  begins: "claim_step s (begin_claim w lu now limit s)"
| commits: "n < length (inflight s) \<Longrightarrow> claim_step s (snd (commit_claim n s))"
| rolls_back: "n < length (inflight s) \<Longrightarrow> claim_step s (rollback_claim n s)"
| other: "op_ok op \<Longrightarrow> \<not> is_claim op \<Longrightarrow> claim_step s (s\<lparr>c_table := apply_op op (c_table s)\<rparr>)"

inductive claim_reachable :: "claim_sys \<Rightarrow> bool" where
  start: "reachable rs \<Longrightarrow> claim_reachable \<lparr>c_table = rs, inflight = []\<rparr>"
| step: "claim_reachable s \<Longrightarrow> claim_step s t \<Longrightarrow> claim_reachable t"

text \<open>
  The invariant: the locked ids are the ids of pending rows, and no id is locked twice, within one
  transaction or by two.
\<close>

definition pending_ids :: "job list \<Rightarrow> string set" where
  "pending_ids rs = ID ` {j \<in> set rs. Status j = StatusPending}"

definition all_locked :: "claim_sys \<Rightarrow> string list" where
  "all_locked s = concat (map t_ids (inflight s))"

definition claim_inv :: "claim_sys \<Rightarrow> bool" where
  "claim_inv s \<longleftrightarrow> table_ok (c_table s) \<and> distinct (all_locked s) \<and>
     set (all_locked s) \<subseteq> pending_ids (c_table s)"

lemma locked_in_iff: "locked_in s i \<longleftrightarrow> i \<in> set (all_locked s)"
  by (auto simp: locked_in_def all_locked_def list_ex_iff)

lemma all_locked_split:
  assumes "n < length (inflight s)"
  shows "all_locked s = concat (map t_ids (take n (inflight s))) @ t_ids (inflight s ! n) @
    concat (map t_ids (drop (Suc n) (inflight s)))"
proof -
  have "inflight s = take n (inflight s) @ inflight s ! n # drop (Suc n) (inflight s)"
    using assms by (rule id_take_nth_drop)
  then have "all_locked s =
      concat (map t_ids (take n (inflight s) @ inflight s ! n # drop (Suc n) (inflight s)))"
    unfolding all_locked_def by (rule arg_cong)
  then show ?thesis by simp
qed

lemma claim_inv_split:
  assumes "claim_inv s" and "n < length (inflight s)"
  defines "rest \<equiv> concat (map t_ids (take n (inflight s) @ drop (Suc n) (inflight s)))"
  shows "distinct rest" and "set rest \<subseteq> pending_ids (c_table s)"
    and "set rest \<inter> set (t_ids (inflight s ! n)) = {}"
  using assms(1) unfolding claim_inv_def all_locked_split [OF assms(2)] rest_def by auto

lemma pending_kept:
  assumes "\<not> is_claim op" and "j \<in> set rs" and "Status j = StatusPending"
  shows "j \<in> set (apply_op op rs)"
  using assms
  by (cases op)
     (auto simp: sql_insert_def update_one_def sql_retry_def sql_reap_def Let_def in_update_where
        owned_def expired_def intro!: bexI [of _ j])

lemma begin_claim_inv:
  assumes "claim_inv s"
  shows "claim_inv (begin_claim w lu now limit s)"
proof -
  let ?ids = "map ID (claim_select (locked_in s) now limit (c_table s))"
  have "distinct ?ids"
    using assms distinct_claim_select by (simp add: claim_inv_def table_ok_def)
  moreover have "set ?ids \<subseteq> pending_ids (c_table s)" and "set ?ids \<inter> set (all_locked s) = {}"
    using set_claim_select by (fastforce simp: pending_ids_def due_def locked_in_iff)+
  moreover have "all_locked (begin_claim w lu now limit s) = all_locked s @ ?ids"
    by (simp add: all_locked_def begin_claim_def)
  ultimately show ?thesis
    using assms by (auto simp: claim_inv_def begin_claim_def)
qed

lemma commit_claim_rows:
  assumes "claim_inv s" and "n < length (inflight s)"
    and "j \<in> set (c_table s)" and "ID j \<in> set (t_ids (inflight s ! n))"
  shows "Status j = StatusPending"
proof -
  have "ID j \<in> pending_ids (c_table s)"
    using assms all_locked_split [OF assms(2)] by (auto simp: claim_inv_def)
  then obtain k where "k \<in> set (c_table s)" "ID k = ID j" "Status k = StatusPending"
    by (auto simp: pending_ids_def)
  moreover have "distinct (map ID (c_table s))" using assms(1) by (simp add: claim_inv_def table_ok_def)
  ultimately show ?thesis using assms(3) by (metis distinct_map_eq)
qed

text \<open>Committing makes a row transition: the row was due when it was locked, and is still pending.\<close>

lemma claim_row_ok:
  "Status j = StatusPending \<Longrightarrow> row_ok j \<Longrightarrow> row_ok (claim_row lu w now j)"
  by (simp add: row_ok_def row_defs)

lemma commit_claim_inv:
  assumes inv: "claim_inv s" and n: "n < length (inflight s)"
  shows "claim_inv (snd (commit_claim n s))"
proof -
  let ?t = "inflight s ! n"
  let ?hit = "\<lambda>j. ID j \<in> set (t_ids ?t)"
  let ?upd = "claim_row (t_lease ?t) (t_worker ?t) (t_now ?t)"
  let ?rs = "update_where ?hit ?upd (c_table s)"
  have ids: "map ID ?rs = map ID (c_table s)"
    "map IdempotencyKey ?rs = map IdempotencyKey (c_table s)"
    by (auto intro!: map_update_where simp: row_defs)
  have "list_all row_ok ?rs"
    using inv commit_claim_rows [OF inv n] claim_row_ok
    by (fastforce simp: claim_inv_def table_ok_def list_all_iff in_update_where)
  with ids inv have tab: "table_ok ?rs" by (simp add: claim_inv_def table_ok_def)
  have "pending_ids (c_table s) - set (t_ids ?t) \<subseteq> pending_ids ?rs"
    by (auto simp: pending_ids_def in_update_where intro!: image_eqI bexI)
  with claim_inv_split(2,3) [OF inv n] have
    "set (concat (map t_ids (take n (inflight s) @ drop (Suc n) (inflight s)))) \<subseteq> pending_ids ?rs"
    by blast
  with tab claim_inv_split(1) [OF inv n] show ?thesis
    by (simp add: claim_inv_def commit_claim_def all_locked_def Let_def)
qed

lemma claim_step_inv: "claim_step s t \<Longrightarrow> claim_inv s \<Longrightarrow> claim_inv t"
proof (induction rule: claim_step.induct)
  case (begins s w lu now limit)
  then show ?case by (rule begin_claim_inv)
next
  case (commits n s)
  then show ?case by (rule commit_claim_inv [rotated])
next
  case (rolls_back n s)
  then show ?case using claim_inv_split [OF rolls_back(2,1)]
    by (simp add: claim_inv_def rollback_claim_def all_locked_def)
next
  case (other op s)
  have "pending_ids (c_table s) \<subseteq> pending_ids (apply_op op (c_table s))"
    using pending_kept [OF other(2)] by (auto simp: pending_ids_def)
  with other show ?case
    by (auto simp: claim_inv_def all_locked_def intro: apply_op_table_ok)
qed

lemma claim_reachable_inv: "claim_reachable s \<Longrightarrow> claim_inv s"
proof (induction rule: claim_reachable.induct)
  case (start rs)
  then show ?case using reachable_table_ok by (simp add: claim_inv_def all_locked_def)
next
  case (step s t)
  then show ?case by (blast intro: claim_step_inv)
qed

text \<open>Committed at once, the two halves are the one statement \<open>sql_claim\<close>.\<close>

lemma claim_two_phase:
  assumes "0 \<le> limit"
  shows "let s' = begin_claim w lu now limit s; (js, t) = commit_claim (length (inflight s)) s'
         in sql_claim (locked_in s) lu w now limit (c_table s) = (Inr js, c_table t) \<and>
            inflight t = inflight s"
  using assms
  by (simp add: begin_claim_def commit_claim_def sql_claim_def txn_rows_def Let_def nth_append)

end
