(* ===== verification/JobRepoSpec.thy ===== *)
theory JobRepoSpec
  imports Claims
begin

text \<open>
  What \<open>JobRepo\<close> promises. First the abstract queue, a map from job ids to phases with a count of
  attempts, and the proof that every statement of the table implements one operation of it. Then
  the methods one by one, on every branch, and the properties of the queue as a whole.
\<close>

section \<open>Looking rows up\<close>

definition row_of :: "job list \<Rightarrow> string \<Rightarrow> job option" where
  "row_of rs i = find (\<lambda>j. ID j = i) rs"

lemma row_of_SomeD: "row_of rs i = Some j \<Longrightarrow> j \<in> set rs \<and> ID j = i"
  by (auto simp: row_of_def dest: find_Some_in)

lemma row_of_None: "row_of rs i = None \<longleftrightarrow> i \<notin> ID ` set rs"
  by (auto simp: row_of_def find_None_all)

lemma row_of_mem: "distinct (map ID rs) \<Longrightarrow> j \<in> set rs \<Longrightarrow> row_of rs (ID j) = Some j"
  unfolding row_of_def by (rule find_unique)

lemma row_of_update_where:
  assumes "\<And>j. p j \<Longrightarrow> ID (f j) = ID j"
  shows "row_of (update_where p f rs) i = map_option (\<lambda>j. if p j then f j else j) (row_of rs i)"
  unfolding row_of_def update_where_def using assms by (intro find_map_same) auto

lemma row_of_append: "row_of (rs @ [j]) i =
    (case row_of rs i of Some k \<Rightarrow> Some k | None \<Rightarrow> if ID j = i then Some j else None)"
  by (induction rs) (auto simp: row_of_def)

lemma row_id_kept [simp]:
  "ID (claim_row lu w now j) = ID j" "ID (extend_row lu now j) = ID j"
  "ID (complete_row s now j) = ID j" "ID (fail_row m now j) = ID j"
  "ID (retry_row m n b x now j) = ID j" "ID (reap_row now j) = ID j"
  by (simp_all add: row_defs Let_def)

lemma affected_owned:
  "affected (owned i) rs = 0 \<longleftrightarrow> \<not> (\<exists>j \<in> set rs. owned i j)"
  by auto

lemma owned_row_of:
  assumes "distinct (map ID rs)"
  shows "(\<exists>j \<in> set rs. owned i j) \<longleftrightarrow> (\<exists>j. row_of rs i = Some j \<and> Status j = StatusProcessing)"
  using row_of_mem [OF assms] by (auto simp: owned_def dest: row_of_SomeD)

lemma find_owned:
  assumes "distinct (map ID rs)"
  shows "find (owned i) rs =
    (case row_of rs i of None \<Rightarrow> None
     | Some j \<Rightarrow> if Status j = StatusProcessing then Some j else None)"
proof (cases "find (owned i) rs")
  case None
  then show ?thesis
    by (auto simp: find_None_all owned_def dest: row_of_SomeD split: option.splits)
next
  case (Some k)
  then have "k \<in> set rs" "owned i k" by (auto dest: find_Some_in)
  with Some row_of_mem [OF assms] show ?thesis by (auto simp: owned_def)
qed

section \<open>The abstract queue\<close>

datatype phase = Queued int | Running int | Done | Dead

type_synonym queue_spec = "string \<Rightarrow> phase option"

definition phase_of :: "job \<Rightarrow> phase" where
  "phase_of j = (case Status j of
     StatusPending \<Rightarrow> Queued (Attempts j)
   | StatusProcessing \<Rightarrow> Running (Attempts j)
   | StatusCompleted \<Rightarrow> Done
   | StatusFailed \<Rightarrow> Dead)"

definition abs_table :: "job list \<Rightarrow> queue_spec" where
  "abs_table rs i = map_option phase_of (row_of rs i)"

definition spec_submit :: "string \<Rightarrow> queue_spec \<Rightarrow> queue_spec" where
  "spec_submit i q = q(i \<mapsto> Queued 0)"

definition spec_claim :: "string set \<Rightarrow> queue_spec \<Rightarrow> queue_spec" where
  "spec_claim S q = (\<lambda>i. case q i of
     Some (Queued n) \<Rightarrow> if i \<in> S then Some (Running (n + 1)) else Some (Queued n)
   | x \<Rightarrow> x)"

definition spec_finish :: "phase \<Rightarrow> string \<Rightarrow> queue_spec \<Rightarrow> queue_spec" where
  "spec_finish ph i q = (case q i of Some (Running n) \<Rightarrow> q(i \<mapsto> ph) | _ \<Rightarrow> q)"

definition spec_retry :: "int \<Rightarrow> string \<Rightarrow> queue_spec \<Rightarrow> queue_spec" where
  "spec_retry maxAttempts i q = (case q i of
     Some (Running n) \<Rightarrow> q(i \<mapsto> (if n \<ge> maxAttempts then Dead else Queued n))
   | _ \<Rightarrow> q)"

definition spec_requeue :: "string set \<Rightarrow> queue_spec \<Rightarrow> queue_spec" where
  "spec_requeue S q = (\<lambda>i. case q i of
     Some (Running n) \<Rightarrow> if i \<in> S then Some (Queued n) else Some (Running n)
   | x \<Rightarrow> x)"

text \<open>The operation of the abstract queue that a statement stands for.\<close>

fun spec_op :: "table_op \<Rightarrow> job list \<Rightarrow> queue_spec \<Rightarrow> queue_spec" where
  "spec_op (OpInsert j) rs q = (if unique_violation j rs then q else spec_submit (ID j) q)"
| "spec_op (OpClaim locked lu w now limit) rs q =
     spec_claim (if limit < 0 then {} else ID ` set (claim_select (List.member locked) now limit rs)) q"
| "spec_op (OpExtend i lu now) rs q = q"
| "spec_op (OpComplete i summary now) rs q = spec_finish Done i q"
| "spec_op (OpRetry i msg n base mx now) rs q = spec_retry n i q"
| "spec_op (OpFail i msg now) rs q = spec_finish Dead i q"
| "spec_op (OpReap now) rs q = spec_requeue (ID ` set (filter (expired now) rs)) q"

lemma mem_ID_image:
  assumes "distinct (map ID rs)" and "row_of rs i = Some j" and "S \<subseteq> set rs"
  shows "i \<in> ID ` S \<longleftrightarrow> j \<in> S"
  using assms row_of_SomeD [OF assms(2)] distinct_map_eq [OF assms(1)] by blast

lemma refines_insert:
  assumes "op_ok (OpInsert j)"
  shows "abs_table (apply_op (OpInsert j) rs) = spec_op (OpInsert j) rs (abs_table rs)"
proof (cases "unique_violation j rs")
  case True
  then show ?thesis by (simp add: sql_insert_def)
next
  case False
  then have "row_of rs (ID j) = None"
    by (auto simp: row_of_None unique_violation_def list_ex_iff)
  with False assms show ?thesis
    by (auto simp: sql_insert_def abs_table_def row_of_append spec_submit_def new_row_def phase_of_def fun_eq_iff
        split: option.splits)
qed

lemma refines_claim:
  assumes d: "distinct (map ID rs)"
  shows "abs_table (apply_op (OpClaim locked lu w now limit) rs) =
    spec_op (OpClaim locked lu w now limit) rs (abs_table rs)"
proof (cases "limit < 0")
  case True
  then show ?thesis by (simp add: snd_sql_claim spec_claim_def fun_eq_iff split: option.splits phase.splits)
next
  case False
  let ?S = "set (claim_select (List.member locked) now limit rs)"
  have sub: "?S \<subseteq> set rs" and due: "\<And>j. j \<in> ?S \<Longrightarrow> Status j = StatusPending"
    using set_claim_select by (auto simp: due_def)
  show ?thesis
  proof
    fix i
    show "abs_table (apply_op (OpClaim locked lu w now limit) rs) i =
      spec_op (OpClaim locked lu w now limit) rs (abs_table rs) i"
    proof (cases "row_of rs i")
      case None
      then show ?thesis using False
        by (simp add: snd_sql_claim abs_table_def row_of_update_where spec_claim_def)
    next
      case (Some j)
      with mem_ID_image [OF d Some sub] due row_of_SomeD [OF Some] False show ?thesis
        by (auto simp: snd_sql_claim abs_table_def row_of_update_where spec_claim_def phase_of_def row_defs
            split: status.splits)
    qed
  qed
qed

lemma abs_owned:
  assumes "\<And>j. ID (f j) = ID j"
  shows "abs_table (update_where (owned i) f rs) =
    (case row_of rs i of
       Some j \<Rightarrow> if Status j = StatusProcessing then (abs_table rs)(i \<mapsto> phase_of (f j))
                 else abs_table rs
     | None \<Rightarrow> abs_table rs)"
proof -
  have eq: "abs_table (update_where (owned i) f rs) x =
      map_option (\<lambda>j. phase_of (if owned i j then f j else j)) (row_of rs x)" for x
    using assms by (simp add: abs_table_def row_of_update_where owned_def option.map_comp comp_def)
  have other: "abs_table (update_where (owned i) f rs) x = abs_table rs x" if "x \<noteq> i" for x
    using that unfolding eq
    by (cases "row_of rs x") (auto simp: abs_table_def owned_def dest: row_of_SomeD)
  show ?thesis
  proof (cases "row_of rs i")
    case None
    then have "abs_table (update_where (owned i) f rs) i = abs_table rs i"
      unfolding eq by (simp add: abs_table_def)
    with other have "abs_table (update_where (owned i) f rs) x = abs_table rs x" for x
      by (cases "x = i") auto
    with None show ?thesis by (simp add: fun_eq_iff)
  next
    case (Some j)
    with row_of_SomeD [OF Some] have "abs_table (update_where (owned i) f rs) i =
        Some (phase_of (if Status j = StatusProcessing then f j else j))"
      unfolding eq by (simp add: owned_def)
    moreover have "abs_table rs i = Some (phase_of j)" using Some by (simp add: abs_table_def)
    ultimately have "abs_table (update_where (owned i) f rs) x =
        (if x = i \<and> Status j = StatusProcessing then Some (phase_of (f j)) else abs_table rs x)" for x
      using other by (cases "x = i") auto
    with Some show ?thesis by (simp add: fun_eq_iff)
  qed
qed

lemma refines_reap:
  assumes d: "distinct (map ID rs)"
  shows "abs_table (apply_op (OpReap now) rs) = spec_op (OpReap now) rs (abs_table rs)"
proof
  fix i
  have sub: "set (filter (expired now) rs) \<subseteq> set rs" by auto
  show "abs_table (apply_op (OpReap now) rs) i = spec_op (OpReap now) rs (abs_table rs) i"
  proof (cases "row_of rs i")
    case None
    then show ?thesis
      by (simp add: sql_reap_def abs_table_def row_of_update_where spec_requeue_def)
  next
    case (Some j)
    with mem_ID_image [OF d Some sub] row_of_SomeD [OF Some] show ?thesis
      by (auto simp: sql_reap_def abs_table_def row_of_update_where spec_requeue_def phase_of_def row_defs
          expired_def split: status.splits)
  qed
qed

lemma abs_table_running:
  "row_of rs i = Some j \<Longrightarrow> abs_table rs i = Some (phase_of j)"
  "row_of rs i = None \<Longrightarrow> abs_table rs i = None"
  by (simp_all add: abs_table_def)

lemma refines_all:
  assumes "distinct (map ID rs)" and "op_ok op"
  shows "abs_table (apply_op op rs) = spec_op op rs (abs_table rs)"
proof (cases op)
  case (OpInsert j)
  with assms refines_insert show ?thesis by simp
next
  case (OpClaim locked lu w now limit)
  with assms refines_claim show ?thesis by simp
next
  case (OpReap now)
  with assms refines_reap show ?thesis by simp
qed (auto simp: update_one_def sql_retry_def Let_def abs_owned spec_finish_def spec_retry_def
       abs_table_running phase_of_def row_defs fun_upd_idem split: option.splits status.splits)

section \<open>Single statements through the methods\<close>

lemma round_trip_Reply:
  "next_fault p = Reply \<Longrightarrow>
    round_trip pre post stmt p = (fst (stmt (rows p)), (pop_fault p)\<lparr>rows := snd (stmt (rows p))\<rparr>)"
  by (simp add: round_trip_def Let_def split_beta)

lemma pop_fault_sel [simp]:
  "rows (pop_fault p) = rows p" "db_now (pop_fault p) = db_now p" "app_now (pop_fault p) = app_now p"
  by (simp_all add: pop_fault_def)

text \<open>Whatever the server does, a method leaves the table alone or runs its statement once.\<close>

lemma round_trip_rows:
  "rows (snd (round_trip pre post stmt p)) = rows p \<or>
   rows (snd (round_trip pre post stmt p)) = snd (stmt (rows p))"
  by (auto simp: round_trip_def Let_def split_beta split: fault.splits)

lemma row_of_owned_update:
  assumes "row_of rs i = Some j" and "Status j = StatusProcessing" and "\<And>j. ID (f j) = ID j"
  shows "row_of (update_where (owned i) f rs) i = Some (f j)"
    and "i' \<noteq> i \<Longrightarrow> row_of (update_where (owned i) f rs) i' = row_of rs i'"
proof -
  have eq: "row_of (update_where (owned i) f rs) x =
      map_option (\<lambda>j. if owned i j then f j else j) (row_of rs x)" for x
    using assms(3) by (intro row_of_update_where)
  show "row_of (update_where (owned i) f rs) i = Some (f j)"
    unfolding eq using assms(1,2) row_of_SomeD [OF assms(1)] by (simp add: owned_def)
  show "row_of (update_where (owned i) f rs) i' = row_of rs i'" if "i' \<noteq> i"
    unfolding eq using that
    by (cases "row_of rs i'") (auto simp: owned_def dest: row_of_SomeD)
qed

lemma not_owned_unchanged:
  assumes "\<nexists>j. row_of rs i = Some j \<and> Status j = StatusProcessing" and "distinct (map ID rs)"
  shows "update_where (owned i) f rs = rs" and "affected (owned i) rs = 0"
    and "find (owned i) rs = None"
proof -
  have "\<forall>j \<in> set rs. \<not> owned i j" using assms owned_row_of by blast
  then show "update_where (owned i) f rs = rs" "affected (owned i) rs = 0"
    "find (owned i) rs = None"
    by (auto intro: update_where_none simp: find_None_all)
qed

lemma exec_one_Reply:
  assumes "next_fault p = Reply"
  shows "exec_one pre c f p =
    (if affected c (rows p) = 0 then Some (Sentinel ErrNotFound) else None,
     (pop_fault p)\<lparr>rows := update_where c f (rows p)\<rparr>)"
  using assms by (simp add: exec_one_def round_trip_Reply update_one_def)

lemma affected_owned_Some:
  "row_of rs i = Some j \<Longrightarrow> Status j = StatusProcessing \<Longrightarrow> affected (owned i) rs \<noteq> 0"
  by (auto simp: owned_def dest: row_of_SomeD)

section \<open>Backoff\<close>

lemma backoff_first: "backoff base mx 1 = min base mx"
  by (simp add: backoff_def)

lemma backoff_step:
  assumes "0 \<le> base" and "0 \<le> mx" and "1 \<le> n"
  shows "backoff base mx (n + 1) = min (2 * backoff base mx n) mx"
proof -
  define e where "e = nat (n - 1)"
  have "nat (max (n + 1 - 1) 0) = Suc e" "nat (max (n - 1) 0) = e"
    using assms(3) by (auto simp: e_def)
  then have "backoff base mx (n + 1) = min (2 * (base * 2 ^ e)) mx"
    "backoff base mx n = min (base * 2 ^ e) mx"
    unfolding backoff_def by (simp_all only: power_Suc mult.left_commute)
  moreover have "0 \<le> base * 2 ^ e" using assms(1) by simp
  ultimately show ?thesis using assms(2) by (simp add: min_def)
qed

lemma backoff_range:
  assumes "0 \<le> base" and "base \<le> mx"
  shows "base \<le> backoff base mx n" and "backoff base mx n \<le> mx"
proof -
  have "base * 1 \<le> base * 2 ^ nat (max (n - 1) 0)"
    using assms(1) by (intro mult_left_mono) auto
  then show "base \<le> backoff base mx n" "backoff base mx n \<le> mx"
    using assms by (auto simp: backoff_def)
qed

lemma backoff_mono:
  assumes "0 \<le> base" and "m \<le> n"
  shows "backoff base mx m \<le> backoff base mx n"
proof -
  have "nat (max (m - 1) 0) \<le> nat (max (n - 1) 0)" using assms(2) by simp
  then have "base * 2 ^ nat (max (m - 1) 0) \<le> base * 2 ^ nat (max (n - 1) 0)"
    using assms(1) by (intro mult_left_mono power_increasing) auto
  then show ?thesis by (auto simp: backoff_def)
qed

section \<open>Properties of the repository\<close>

text \<open>
  C4. The table implements the abstract queue: on every table the service can build, each statement
  of \<open>JobRepo\<close> (insert, claim, lease renewal, completion, retry, failure, reaping, with any
  arguments) changes the abstract state exactly as the corresponding queue operation does.
\<close>
theorem queue_refinement:
  assumes "reachable rs" and "op_ok op"
  shows "abs_table (apply_op op rs) = spec_op op rs (abs_table rs)"
  using assms reachable_table_ok refines_all table_ok_distinct by blast

definition sample_job :: "string \<Rightarrow> time \<Rightarrow> job" where
  "sample_job i t = zero_job\<lparr>ID := i, Text := ''hello'', CreatedAt := t, UpdatedAt := t\<rparr>"

lemma sample_new_row: "new_row (sample_job i t)"
  by (simp add: sample_job_def zero_job_def new_row_def)

lemma sample_reachable: "reachable [sample_job ''a'' 1]"
  using reachable.step [OF reachable.empty, of "OpInsert (sample_job ''a'' 1)"] sample_new_row
  by (simp add: sql_insert_def unique_violation_def)

theorem queue_refinement_witness:
  "abs_table (apply_op (OpClaim [] 9 ''w'' 5 1) [sample_job ''a'' 1]) ''a'' = Some (Running 1)"
proof -
  have "claim_select (List.member []) 5 1 [sample_job ''a'' 1] = [sample_job ''a'' 1]"
    by (rule claim_single) (simp_all add: due_def sample_job_def zero_job_def)
  then have "spec_op (OpClaim [] 9 ''w'' 5 1) [sample_job ''a'' 1] (abs_table [sample_job ''a'' 1]) ''a'' =
      Some (Running 1)"
    by (simp add: spec_claim_def abs_table_def row_of_def phase_of_def sample_job_def zero_job_def)
  then show ?thesis
    by (subst queue_refinement [OF sample_reachable]) simp_all
qed

text \<open>
  C14. In every table a run of statements builds from the empty one, ids are unique, non-empty
  idempotency keys are unique, and each row is well formed: a pending row has no owner and no lease,
  a processing row has a lease and at least one attempt, a terminal row has a completion time, no
  owner, no lease and no scheduled attempt, and a completed row no error message.
\<close>
theorem table_wellformed:
  assumes "list_all op_ok ops"
  shows "table_ok (run_ops ops [])"
  using assms run_ops_table_ok [of "[]"] by (simp add: table_ok_def)

theorem table_wellformed_witness:
  "table_ok (run_ops [OpInsert (sample_job ''a'' 1), OpClaim [] 9 ''w'' 5 1, OpComplete ''a'' ''ok'' 6] [])"
  by (rule table_wellformed) (simp add: sample_new_row)

text \<open>
  C13. The life cycle of one job under one statement: its row survives, there is exactly one row with
  its id, the payload and the creation time never change, the status follows the edges pending to
  processing and processing to any status, and attempts are counted by the claim and by nothing else.
\<close>
theorem job_life_cycle:
  assumes "reachable rs" and "op_ok op" and "j \<in> set rs"
  shows "\<exists>k. row_of (apply_op op rs) (ID j) = Some k \<and> same_payload j k \<and>
    (k = j \<or> (edge (Status j) (Status k) \<and>
       Attempts k = Attempts j + (if Status j = StatusPending then 1 else 0)))"
proof -
  have ok: "table_ok rs" "table_ok (apply_op op rs)"
    using assms reachable_table_ok apply_op_table_ok by blast+
  obtain k where k: "k \<in> set (apply_op op rs)" "ID k = ID j" "k = j \<or> row_step j k"
    using apply_op_row [OF table_ok_distinct [OF ok(1)] assms(3)] by blast
  have "row_of (apply_op op rs) (ID j) = Some k"
    using row_of_mem [OF table_ok_distinct [OF ok(2)] k(1)] k(2) by simp
  with k(3) show ?thesis
    using row_step_payload [of j k] row_step_edge [of j k] row_step_attempts [of j k] by auto
qed

theorem job_life_cycle_witness:
  "\<exists>k. row_of (apply_op (OpReap 9) [sample_job ''a'' 1]) (ID (sample_job ''a'' 1)) = Some k \<and>
    same_payload (sample_job ''a'' 1) k"
  using job_life_cycle [OF sample_reachable, of "OpReap 9" "sample_job ''a'' 1"] by auto

text \<open>
  Terminal states are final: once a job is completed or failed, its row is the same in every
  later table, whatever late workers, retries, reapers and claims do.
\<close>
theorem terminal_jobs_final:
  assumes "reachable rs" and "list_all op_ok ops" and "j \<in> set rs"
    and "Status j = StatusCompleted \<or> Status j = StatusFailed"
  shows "row_of (run_ops ops rs) (ID j) = Some j"
proof -
  have ok: "table_ok rs" using assms(1) by (rule reachable_table_ok)
  then have "j \<in> set (run_ops ops rs)" using assms(2-4) by (rule run_ops_terminal)
  moreover have "distinct (map ID (run_ops ops rs))"
    using run_ops_table_ok [OF ok assms(2)] by (rule table_ok_distinct)
  ultimately show ?thesis by (intro row_of_mem)
qed

definition done_table :: "job list" where
  "done_table = run_ops [OpInsert (sample_job ''a'' 1), OpClaim [] 9 ''w'' 5 1, OpComplete ''a'' ''ok'' 6] []"

lemma done_reachable: "reachable done_table"
  unfolding done_table_def by (rule reachable_run) (auto simp: sample_new_row intro: reachable.empty)

lemma done_table_eq:
  "done_table = [complete_row ''ok'' 6 (claim_row 9 ''w'' 5 (sample_job ''a'' 1))]"
proof -
  have "claim_select (List.member []) 5 1 [sample_job ''a'' 1] = [sample_job ''a'' 1]"
    by (rule claim_single) (simp_all add: due_def sample_job_def zero_job_def)
  then show ?thesis
    by (simp add: done_table_def run_ops_def sql_insert_def unique_violation_def snd_sql_claim
        update_one_def update_where_def owned_def row_defs sample_job_def)
qed

theorem terminal_jobs_final_witness:
  "row_of (run_ops [OpFail ''a'' ''late'' 7, OpReap 99] done_table) ''a'' =
    Some (complete_row ''ok'' 6 (claim_row 9 ''w'' 5 (sample_job ''a'' 1)))"
  using terminal_jobs_final [OF done_reachable, of "[OpFail ''a'' ''late'' 7, OpReap 99]"
      "complete_row ''ok'' 6 (claim_row 9 ''w'' 5 (sample_job ''a'' 1))"]
  by (simp add: done_table_eq) (simp add: row_defs sample_job_def)

lemma row_of_claimed:
  assumes "distinct (map ID rs)" and "0 \<le> limit" and "j \<in> set rs"
  shows "row_of (snd (sql_claim locked lu w now limit rs)) (ID j) =
    Some (if j \<in> set (claim_select locked now limit rs) then claim_row lu w now j else j)"
proof -
  have "ID j \<in> ID ` set (claim_select locked now limit rs) \<longleftrightarrow>
      j \<in> set (claim_select locked now limit rs)"
    using claim_hits_due [OF assms(1,3)] by blast
  with assms(2) show ?thesis
    by (auto simp: snd_sql_claim row_of_update_where row_of_mem [OF assms(1,3)])
qed

text \<open>
  C29. A claim that reaches the server returns as many jobs as there are due, unlocked rows, up to the
  limit; each is a due row, now processing under this worker with a lease, one more attempt and no
  scheduled time; no unclaimed due row is older than a claimed one; and rows not returned are
  untouched.
\<close>
theorem claim_takes_oldest_due:
  assumes ok: "table_ok (rows p)" and rep: "next_fault p = Reply" and lim: "0 \<le> limit"
  shows "\<exists>js q. ClaimBatch locked w lease limit p = (Inr js, q) \<and>
    length js = min (nat limit) (affected (\<lambda>j. due (db_now p) j \<and> \<not> locked (ID j)) (rows p)) \<and>
    (\<forall>k \<in> set js. \<exists>j \<in> set (rows p). due (db_now p) j \<and> \<not> locked (ID j) \<and>
       k = claim_row (app_now p + lease) w (db_now p) j \<and> row_of (rows q) (ID j) = Some k \<and>
       (\<forall>i \<in> set (rows p). due (db_now p) i \<and> \<not> locked (ID i) \<and>
          row_of (rows q) (ID i) = Some i \<longrightarrow> CreatedAt j \<le> CreatedAt i)) \<and>
    (\<forall>i \<in> set (rows p). (\<forall>k \<in> set js. ID k \<noteq> ID i) \<longrightarrow> row_of (rows q) (ID i) = Some i)"
proof -
  let ?lu = "app_now p + lease" and ?now = "db_now p"
  let ?sel = "claim_select locked ?now limit (rows p)"
  let ?q = "(pop_fault p)\<lparr>rows := snd (sql_claim locked ?lu w ?now limit (rows p))\<rparr>"
  have d: "distinct (map ID (rows p))" using ok by (rule table_ok_distinct)
  obtain js where js: "fst (sql_claim locked ?lu w ?now limit (rows p)) = Inr js"
    "set js = claim_row ?lu w ?now ` set ?sel" "length js = length ?sel"
    using sql_claim_result [OF d lim] by blast
  have "ClaimBatch locked w lease limit p = (Inr js, ?q)"
    by (simp add: ClaimBatch_def round_trip_Reply [OF rep] js(1))
  moreover have row: "row_of (rows ?q) (ID j) = Some (if j \<in> set ?sel then claim_row ?lu w ?now j else j)"
    if "j \<in> set (rows p)" for j
    using row_of_claimed [OF d lim that] by simp
  moreover have "\<exists>j \<in> set (rows p). due ?now j \<and> \<not> locked (ID j) \<and> k = claim_row ?lu w ?now j \<and>
      row_of (rows ?q) (ID j) = Some k \<and>
      (\<forall>i \<in> set (rows p). due ?now i \<and> \<not> locked (ID i) \<and> row_of (rows ?q) (ID i) = Some i \<longrightarrow>
         CreatedAt j \<le> CreatedAt i)" if "k \<in> set js" for k
  proof -
    from that js(2) obtain j where j: "j \<in> set ?sel" "k = claim_row ?lu w ?now j" by auto
    have old: "CreatedAt j \<le> CreatedAt i" if "i \<in> set (rows p)" "due ?now i" "\<not> locked (ID i)"
      "row_of (rows ?q) (ID i) = Some i" for i
    proof (rule claim_select_oldest [OF j(1) that(1-3)])
      have "claim_row ?lu w ?now i \<noteq> i" using that(2) by (auto simp: row_defs due_def dest: arg_cong [of _ _ Status])
      then show "i \<notin> set ?sel" using row [OF that(1)] that(4) by (auto split: if_splits)
    qed
    with j set_claim_select [OF j(1)] row [of j] show ?thesis by auto
  qed
  moreover have "row_of (rows ?q) (ID i) = Some i"
    if "i \<in> set (rows p)" "\<forall>k \<in> set js. ID k \<noteq> ID i" for i
    using row [OF that(1)] that(2) js(2) by auto
  ultimately show ?thesis
    using js(3) length_claim_select by auto
qed

definition sample_pg :: "job list \<Rightarrow> pg" where
  "sample_pg rs = \<lparr>rows = rs, db_now = 5, app_now = 5, faults = []\<rparr>"

lemma sample_pg_sel [simp]:
  "rows (sample_pg rs) = rs" "db_now (sample_pg rs) = 5" "app_now (sample_pg rs) = 5"
  "next_fault (sample_pg rs) = Reply" "pop_fault (sample_pg rs) = sample_pg rs"
  by (simp_all add: sample_pg_def next_fault_def pop_fault_def)

theorem claim_takes_oldest_due_witness:
  "\<exists>js q. ClaimBatch (\<lambda>_. False) ''w'' 10 3 (sample_pg [sample_job ''a'' 1]) = (Inr js, q) \<and> length js = 1"
proof -
  have "table_ok [sample_job ''a'' 1]" using sample_reachable by (rule reachable_table_ok)
  then show ?thesis
    using claim_takes_oldest_due [of "sample_pg [sample_job ''a'' 1]" 3 "\<lambda>_. False" "''w''" 10]
    by (auto simp: affected_def due_def sample_job_def zero_job_def)
qed

text \<open>
  C7. Competing replicas partition the queue. However claims of several transactions interleave with
  each other and with every other statement, no two open claims hold the same job; and when one of
  them commits, every row it returns was still pending, becomes processing under its worker with one
  more attempt, and is held by no other open claim.
\<close>
theorem concurrent_claims_disjoint:
  assumes "claim_reachable s" and "n < length (inflight s)" and "m < length (inflight s)" and "n \<noteq> m"
  shows "set (t_ids (inflight s ! n)) \<inter> set (t_ids (inflight s ! m)) = {} \<and>
    (\<forall>k \<in> set (fst (commit_claim n s)). \<exists>j \<in> set (c_table s).
      Status j = StatusPending \<and> Status k = StatusProcessing \<and> ID k = ID j \<and>
      LockedBy k = t_worker (inflight s ! n) \<and> Attempts k = Attempts j + 1 \<and>
      ID k \<notin> set (t_ids (inflight s ! m)))"
proof -
  have inv: "claim_inv s" using assms(1) by (rule claim_reachable_inv)
  have "inflight s ! m \<in> set (take n (inflight s) @ drop (Suc n) (inflight s))"
  proof (cases "m < n")
    case True
    then show ?thesis using assms(2,3) by (auto simp: in_set_conv_nth intro!: exI [of _ m])
  next
    case False
    then have "drop (Suc n) (inflight s) ! (m - Suc n) = inflight s ! m"
      "m - Suc n < length (drop (Suc n) (inflight s))" using assms(3,4) by auto
    then show ?thesis by (metis Un_iff nth_mem set_append)
  qed
  then have "set (t_ids (inflight s ! m)) \<subseteq>
      set (concat (map t_ids (take n (inflight s) @ drop (Suc n) (inflight s))))" by auto
  then have dis: "set (t_ids (inflight s ! n)) \<inter> set (t_ids (inflight s ! m)) = {}"
    using claim_inv_split(3) [OF inv assms(2)] by blast
  moreover have "\<forall>k \<in> set (fst (commit_claim n s)). \<exists>j \<in> set (c_table s).
      Status j = StatusPending \<and> Status k = StatusProcessing \<and> ID k = ID j \<and>
      LockedBy k = t_worker (inflight s ! n) \<and> Attempts k = Attempts j + 1 \<and>
      ID k \<notin> set (t_ids (inflight s ! m))"
    using commit_claim_rows [OF inv assms(2)] dis
    by (force simp: commit_claim_def txn_rows_def Let_def row_defs)
  ultimately show ?thesis ..
qed

definition two_claims :: claim_sys where
  "two_claims = begin_claim ''w2'' 20 6 1 (begin_claim ''w1'' 20 6 1
     \<lparr>c_table = run_ops [OpInsert (sample_job ''a'' 1), OpInsert (sample_job ''b'' 2)] [], inflight = []\<rparr>)"

lemma two_claims_ids: "map t_ids (inflight two_claims) = [[''a''], [''b'']]"
  by (simp add: two_claims_def begin_claim_def claim_select_def run_ops_def sql_insert_def
      unique_violation_def due_def locked_in_def sample_job_def zero_job_def)

theorem concurrent_claims_disjoint_witness:
  "set (t_ids (inflight two_claims ! 0)) \<inter> set (t_ids (inflight two_claims ! 1)) = {} \<and>
   t_ids (inflight two_claims ! 0) = [''a''] \<and> t_ids (inflight two_claims ! 1) = [''b'']"
proof -
  have "reachable (run_ops [OpInsert (sample_job ''a'' 1), OpInsert (sample_job ''b'' 2)] [])"
    by (rule reachable_run) (auto simp: sample_new_row intro: reachable.empty)
  then have r: "claim_reachable two_claims"
    unfolding two_claims_def
    by (blast intro: claim_reachable.start claim_reachable.step claim_step.begins)
  have len: "length (inflight two_claims) = 2"
    using arg_cong [OF two_claims_ids, of length] by simp
  have nth: "t_ids (inflight two_claims ! i) = [[''a''], [''b'']] ! i" if "i < 2" for i
    using arg_cong [OF two_claims_ids, of "\<lambda>xs. xs ! i"] len that by simp
  show ?thesis
    using concurrent_claims_disjoint [OF r, of 0 1] len nth [of 0] nth [of 1] by simp
qed

text \<open>
  C16. Retry of a running job, on both branches, in one statement: below the attempt limit the job is
  pending again, not due before the backoff has passed, and Retry returns true; at the limit it is
  failed, completed now, and Retry returns false. Either way the owner and the lease are cleared, the
  cause is recorded, and no other row changes.
\<close>
theorem retry_outcome:
  assumes "next_fault p = Reply" and "row_of (rows p) i = Some j" and "Status j = StatusProcessing"
    and "table_ok (rows p)"
  shows "\<exists>k q. Retry i msg maxAttempts base mx p = (Inr (Attempts j < maxAttempts), q) \<and>
    row_of (rows q) i = Some k \<and> same_payload j k \<and> Attempts k = Attempts j \<and>
    ErrorMessage k = msg \<and> LeaseUntil k = None \<and> LockedBy k = '''' \<and>
    (if Attempts j < maxAttempts
     then Status k = StatusPending \<and> CompletedAt k = None \<and>
       (\<forall>t. due t k \<longleftrightarrow> db_now p + backoff base mx (Attempts j) \<le> t)
     else Status k = StatusFailed \<and> CompletedAt k = Some (db_now p) \<and> NextAttemptAt k = None) \<and>
    (\<forall>i'. i' \<noteq> i \<longrightarrow> row_of (rows q) i' = row_of (rows p) i')"
proof -
  let ?f = "retry_row msg maxAttempts base mx (db_now p)"
  let ?q = "(pop_fault p)\<lparr>rows := update_where (owned i) ?f (rows p)\<rparr>"
  have "find (owned i) (rows p) = Some j"
    using find_owned [OF table_ok_distinct [OF assms(4)]] assms(2,3) by simp
  then have "Retry i msg maxAttempts base mx p = (Inr (Attempts j < maxAttempts), ?q)"
    by (simp add: Retry_def round_trip_Reply [OF assms(1)] sql_retry_def row_defs Let_def not_le)
  moreover have "row_of (rows ?q) i = Some (?f j)"
    using row_of_owned_update(1) [OF assms(2,3)] by simp
  moreover have "\<forall>i'. i' \<noteq> i \<longrightarrow> row_of (rows ?q) i' = row_of (rows p) i'"
    using row_of_owned_update(2) [OF assms(2,3)] by simp
  moreover have "row_step j (?f j)" using assms(3) by (rule row_step.retried)
  ultimately show ?thesis
    by (intro exI [of _ "?f j"] exI [of _ ?q])
       (auto simp: row_step_payload, auto simp: row_defs due_def Let_def)
qed

definition running_table :: "job list" where
  "running_table = [claim_row 9 ''w'' 5 (sample_job ''a'' 1)]"

lemma running_table_eq: "running_table = apply_op (OpClaim [] 9 ''w'' 5 1) [sample_job ''a'' 1]"
proof -
  have "claim_select (List.member []) 5 1 [sample_job ''a'' 1] = [sample_job ''a'' 1]"
    by (rule claim_single) (simp_all add: due_def sample_job_def zero_job_def)
  then show ?thesis by (simp add: running_table_def snd_sql_claim update_where_def)
qed

lemma running_reachable: "reachable running_table"
  unfolding running_table_eq by (rule reachable.step [OF sample_reachable]) simp

lemma running_row:
  "row_of running_table ''a'' = Some (claim_row 9 ''w'' 5 (sample_job ''a'' 1))"
  "Status (claim_row 9 ''w'' 5 (sample_job ''a'' 1)) = StatusProcessing"
  "Attempts (claim_row 9 ''w'' 5 (sample_job ''a'' 1)) = 1"
  by (simp_all add: running_table_def row_of_def row_defs sample_job_def zero_job_def)

theorem retry_outcome_witness:
  "\<exists>k q. Retry ''a'' ''boom'' 3 10 60 (sample_pg running_table) = (Inr True, q) \<and>
    row_of (rows q) ''a'' = Some k \<and> Status k = StatusPending \<and> (due 15 k \<and> \<not> due 14 k)"
  using retry_outcome [of "sample_pg running_table" "''a''" _ "''boom''" 3 10 60]
    running_row reachable_table_ok [OF running_reachable]
  by (force simp: backoff_first)

text \<open>
  The backoff of a retry: with a configuration that validates (base at most the cap), it starts at
  the base, doubles with each attempt until it reaches the cap, never decreases, and always lies
  between the base and the cap.
\<close>
theorem backoff_schedule:
  assumes "0 \<le> base" and "base \<le> mx" and "1 \<le> n"
  shows "backoff base mx 1 = base \<and> backoff base mx (n + 1) = min (2 * backoff base mx n) mx \<and>
    backoff base mx n \<le> backoff base mx (n + 1) \<and>
    base \<le> backoff base mx n \<and> backoff base mx n \<le> mx"
  using assms backoff_step [of base mx n] backoff_range [OF assms(1,2), of n]
    backoff_mono [OF assms(1), of n "n + 1" mx]
  by (simp add: backoff_first)

theorem backoff_schedule_witness: "backoff 5 600 (3 + 1) = min (2 * backoff 5 600 3) 600 \<and> backoff 5 600 3 = 20"
  using backoff_schedule [of 5 600 3] by (simp add: backoff_def)

text \<open>
  Without lease expiry the attempt limit bounds every job: in any run whose retries use the limit
  and that never reaps, no row has more attempts than the limit, and a pending row has fewer.
\<close>
theorem attempts_bounded_without_reaper:
  assumes "1 \<le> n" and "list_all op_ok ops" and "list_all (op_limit n) ops"
  shows "\<forall>j \<in> set (run_ops ops []). Attempts j \<le> n \<and> (Status j = StatusPending \<longrightarrow> Attempts j < n)"
proof -
  have "table_ok []" by (simp add: table_ok_def)
  from run_ops_attempts_ok [OF assms(1) this assms(2,3)] show ?thesis
    by (auto simp: list_all_iff attempts_ok_def)
qed

theorem attempts_bounded_without_reaper_witness:
  "list_all (\<lambda>j. Attempts j \<le> 2) (run_ops [OpInsert (sample_job ''a'' 1), OpClaim [] 9 ''w'' 5 1,
       OpRetry ''a'' ''x'' 2 10 60 6, OpClaim [] 99 ''w'' 50 1] [])"
  using attempts_bounded_without_reaper [of 2 "[OpInsert (sample_job ''a'' 1), OpClaim [] 9 ''w'' 5 1,
       OpRetry ''a'' ''x'' 2 10 60 6, OpClaim [] 99 ''w'' 50 1]"]
  by (simp add: sample_new_row list_all_iff)

text \<open>
  The reaper does not look at the attempt limit. A job whose worker always dies is claimed and
  requeued for ever: after \<open>n\<close> rounds of claim and reaping it is pending again, due at once, with \<open>n\<close>
  attempts, for every \<open>n\<close> and so beyond any \<open>MAX_ATTEMPTS\<close>.
\<close>
theorem reaped_job_attempts_unbounded:
  "\<exists>k. reachable (run_ops (crash_loop n) [sample_job ''a'' 1]) \<and>
     run_ops (crash_loop n) [sample_job ''a'' 1] = [k] \<and> due now k \<and> Attempts k = int n"
proof -
  have "list_all op_ok (crash_loop n)" by (induction n) auto
  then have "reachable (run_ops (crash_loop n) [sample_job ''a'' 1])"
    by (rule reachable_run [OF sample_reachable])
  moreover obtain k where "run_ops (crash_loop n) [sample_job ''a'' 1] = [k]"
    "Status k = StatusPending" "NextAttemptAt k = None" "Attempts k = int n"
    using crash_loop_attempts [of "sample_job ''a'' 1" n]
    by (auto simp: sample_job_def zero_job_def)
  ultimately show ?thesis by (auto simp: due_def)
qed

text \<open>
  Only a running job can be completed, failed, retried or have its lease renewed: on any other
  id these four calls return \<open>ErrNotFound\<close> and the table stays as it is.
\<close>
theorem writes_need_processing_row:
  assumes "next_fault p = Reply" and "table_ok (rows p)"
    and "\<nexists>j. row_of (rows p) i = Some j \<and> Status j = StatusProcessing"
  shows "Complete i summary p = (Some (Sentinel ErrNotFound), pop_fault p) \<and>
    Fail i msg p = (Some (Sentinel ErrNotFound), pop_fault p) \<and>
    ExtendLease i lease p = (Some (Sentinel ErrNotFound), pop_fault p) \<and>
    Retry i msg n base mx p = (Inl (Sentinel ErrNotFound), pop_fault p)"
proof -
  have same: "(pop_fault p)\<lparr>rows := rows p\<rparr> = pop_fault p" by (simp add: pop_fault_def)
  note none = not_owned_unchanged [OF assms(3) table_ok_distinct [OF assms(2)]]
  show ?thesis
    by (simp add: Complete_def Fail_def ExtendLease_def Retry_def exec_one_Reply [OF assms(1)]
        round_trip_Reply [OF assms(1)] sql_retry_def Let_def none same del: affected_zero)
qed

theorem writes_need_processing_row_witness:
  "Complete ''a'' ''ok'' (sample_pg [sample_job ''a'' 1]) =
    (Some (Sentinel ErrNotFound), sample_pg [sample_job ''a'' 1])"
  using writes_need_processing_row [of "sample_pg [sample_job ''a'' 1]" "''a''" "''ok''"]
    reachable_table_ok [OF sample_reachable]
  by (simp add: row_of_def sample_job_def zero_job_def)

text \<open>
  C15. One job per idempotency key. \<open>Create\<close> reports a duplicate exactly when the id or the non-empty
  key is taken, and then changes nothing; otherwise it stores the job. Looking the key up then finds
  the one row that has it, so of two submissions with one key the second always resolves to the first.
\<close>
theorem one_job_per_key:
  assumes "table_ok (rows p)" and "next_fault p = Reply" and "ID job \<noteq> ''''" and "new_row job"
    and "IdempotencyKey job = key" and "key \<noteq> ''''" and "ID job \<notin> ID ` set (rows p)"
  shows "let r = Create fresh job p in case find (\<lambda>j. IdempotencyKey j = key) (rows p) of
      None \<Rightarrow> fst (fst r) = None \<and> rows (snd r) = rows p @ [snd (fst r)] \<and> table_ok (rows (snd r))
    | Some old \<Rightarrow> fst (fst r) = Some (Sentinel ErrDuplicateKey) \<and> snd r = pop_fault p \<and>
        (next_fault (snd r) = Reply \<longrightarrow> fst (GetByIdempotencyKey key (snd r)) = Inr old) \<and>
        (\<forall>j \<in> set (rows p). IdempotencyKey j = key \<longrightarrow> j = old)"
proof -
  let ?j = "job\<lparr>CreatedAt := app_now p, UpdatedAt := app_now p\<rparr>"
  have same: "(pop_fault p)\<lparr>rows := rows p\<rparr> = pop_fault p" by (simp add: pop_fault_def)
  have uv: "unique_violation ?j (rows p) \<longleftrightarrow> find (\<lambda>j. IdempotencyKey j = key) (rows p) \<noteq> None"
  proof -
    have "\<forall>r \<in> set (rows p). ID r \<noteq> ID job" using assms(7) by (metis image_eqI)
    then show ?thesis using assms(5,6) by (auto simp: unique_violation_def list_ex_iff find_None_all)
  qed
  have new: "new_row ?j" using assms(4) by (simp add: new_row_def)
  show ?thesis
  proof (cases "find (\<lambda>j. IdempotencyKey j = key) (rows p)")
    case None
    with uv have "\<not> unique_violation ?j (rows p)" by simp
    with None assms(1-3) table_ok_insert [OF assms(1) new] show ?thesis
      by (simp add: Let_def Create_def round_trip_Reply sql_insert_def Let_def)
  next
    case (Some old)
    have "\<forall>j \<in> set (rows p). IdempotencyKey j = key \<longrightarrow> j = old"
    proof (intro ballI impI)
      fix j assume j: "j \<in> set (rows p)" "IdempotencyKey j = key"
      have "distinct (map IdempotencyKey (filter (\<lambda>j. IdempotencyKey j \<noteq> '''') (rows p)))"
        using assms(1) by (simp add: table_ok_def filter_map comp_def)
      then show "j = old"
        using distinct_map_eq [of IdempotencyKey _ j old] j find_Some_in [OF Some] assms(6) by auto
    qed
    with Some uv assms(2,3,6) same show ?thesis
      by (auto simp: Create_def round_trip_Reply sql_insert_def Let_def GetByIdempotencyKey_def
          read_row_def)
  qed
qed

theorem one_job_per_key_witness:
  "fst (fst (Create ''u'' ((sample_job ''b'' 0)\<lparr>IdempotencyKey := ''k''\<rparr>)
      (sample_pg [(sample_job ''a'' 1)\<lparr>IdempotencyKey := ''k''\<rparr>]))) = Some (Sentinel ErrDuplicateKey)"
  using one_job_per_key [of "sample_pg [(sample_job ''a'' 1)\<lparr>IdempotencyKey := ''k''\<rparr>]"
      "(sample_job ''b'' 0)\<lparr>IdempotencyKey := ''k''\<rparr>" "''k''" "''u''"]
  by (simp add: table_ok_def row_ok_def sample_job_def zero_job_def new_row_def Let_def)

text \<open>
  Ownership is not checked on writes. After a lease expired and another worker claimed the job, a
  late failure report of the first worker still hits the row: the job is failed with the first
  worker's message while the second is processing it, and the second's completion is refused.
\<close>
theorem stale_worker_fails_new_owner:
  "\<exists>rs j. reachable rs \<and> row_of rs ''a'' = Some j \<and> Status j = StatusProcessing \<and>
     LockedBy j = ''w2'' \<and> Attempts j = 2 \<and>
     (\<exists>q k. Fail ''a'' ''report of w1'' (sample_pg rs) = (None, q) \<and>
        row_of (rows q) ''a'' = Some k \<and> Status k = StatusFailed \<and> ErrorMessage k = ''report of w1'' \<and>
        fst (Complete ''a'' ''summary of w2'' q) = Some (Sentinel ErrNotFound))"
proof -
  let ?j0 = "sample_job ''a'' 1"
  let ?j1 = "claim_row 2 ''w1'' 1 ?j0"
  let ?j2 = "reap_row 3 ?j1"
  let ?j3 = "claim_row 9 ''w2'' 4 ?j2"
  let ?rs = "run_ops [OpClaim [] 2 ''w1'' 1 1, OpReap 3, OpClaim [] 9 ''w2'' 4 1] [?j0]"
  have sel: "claim_select (List.member []) 1 1 [?j0] = [?j0]"
    "claim_select (List.member []) 4 1 [?j2] = [?j2]"
    by (rule claim_single; simp add: due_def row_defs sample_job_def zero_job_def)+
  have rs: "?rs = [?j3]"
    using sel by (simp add: run_ops_def snd_sql_claim sql_reap_def update_where_def expired_def)
       (simp add: row_defs)
  have st: "Status ?j3 = StatusProcessing" "LockedBy ?j3 = ''w2''" "Attempts ?j3 = 2" "ID ?j3 = ''a''"
    by (simp_all add: row_defs sample_job_def zero_job_def)
  let ?q = "(sample_pg [?j3])\<lparr>rows := [fail_row ''report of w1'' 5 ?j3]\<rparr>"
  have "Fail ''a'' ''report of w1'' (sample_pg [?j3]) = (None, ?q)"
    using st by (simp add: Fail_def exec_one_Reply update_where_def owned_def)
  moreover have "fst (Complete ''a'' ''summary of w2'' ?q) = Some (Sentinel ErrNotFound)"
    by (simp add: Complete_def exec_one_Reply next_fault_def sample_pg_def owned_def)
       (simp add: row_defs)
  moreover have "reachable ?rs"
    by (rule reachable_run [OF sample_reachable]) simp
  ultimately show ?thesis
    using st rs
    by (intro exI [of _ ?rs] exI [of _ ?j3]) (simp add: row_of_def, simp add: row_defs)
qed

end
