(* ===== verification/GoStrings.thy ===== *)
theory GoStrings
  imports Prelude
begin

text \<open>
  The parts of Go's standard library the source calls on strings: packages \<open>strings\<close>, \<open>strconv\<close>,
  \<open>path\<close>, and \<open>time.ParseDuration\<close>. A Go string is its bytes, so \<open>length\<close> is \<open>len\<close>.
\<close>

section \<open>Prefixes and suffixes\<close>

definition has_prefix :: "string \<Rightarrow> string \<Rightarrow> bool" where
  "has_prefix p s \<longleftrightarrow> take (length p) s = p"

definition has_suffix :: "string \<Rightarrow> string \<Rightarrow> bool" where
  "has_suffix p s \<longleftrightarrow> has_prefix (rev p) (rev s)"

lemma has_prefix_Nil [simp]: "has_prefix [] s"
  by (simp add: has_prefix_def)

lemma has_prefix_Cons [simp]:
  "has_prefix (c # p) [] = False" "has_prefix (c # p) (d # s) = (c = d \<and> has_prefix p s)"
  by (auto simp: has_prefix_def)

lemma has_prefix_iff: "has_prefix p s \<longleftrightarrow> (\<exists>t. s = p @ t)"
  by (metis append_eq_conv_conj append_take_drop_id has_prefix_def)

lemma has_suffix_iff: "has_suffix p s \<longleftrightarrow> (\<exists>t. s = t @ p)"
  by (metis has_prefix_iff has_suffix_def rev_append rev_rev_ident)

section \<open>TrimSpace\<close>

text \<open>
  The encodings of the runes \<open>unicode.IsSpace\<close> accepts. A suffix of the bytes is one of these
  exactly when the last rune of the string is.
\<close>

definition space_runes :: "string list" where
  "space_runes =
     [[CHR 0x09], [CHR 0x0A], [CHR 0x0B], [CHR 0x0C], [CHR 0x0D], [CHR 0x20],
      [CHR 0xC2, CHR 0x85], [CHR 0xC2, CHR 0xA0], [CHR 0xE1, CHR 0x9A, CHR 0x80],
      [CHR 0xE2, CHR 0x80, CHR 0x80], [CHR 0xE2, CHR 0x80, CHR 0x81], [CHR 0xE2, CHR 0x80, CHR 0x82],
      [CHR 0xE2, CHR 0x80, CHR 0x83], [CHR 0xE2, CHR 0x80, CHR 0x84], [CHR 0xE2, CHR 0x80, CHR 0x85],
      [CHR 0xE2, CHR 0x80, CHR 0x86], [CHR 0xE2, CHR 0x80, CHR 0x87], [CHR 0xE2, CHR 0x80, CHR 0x88],
      [CHR 0xE2, CHR 0x80, CHR 0x89], [CHR 0xE2, CHR 0x80, CHR 0x8A], [CHR 0xE2, CHR 0x80, CHR 0xA8],
      [CHR 0xE2, CHR 0x80, CHR 0xA9], [CHR 0xE2, CHR 0x80, CHR 0xAF], [CHR 0xE2, CHR 0x81, CHR 0x9F],
      [CHR 0xE3, CHR 0x80, CHR 0x80]]"

lemma space_runes_nonempty: "r \<in> set space_runes \<Longrightarrow> r \<noteq> []"
  by (auto simp: space_runes_def)

text \<open>Strip runes of a list from the front, as long as one of them is there.\<close>

function strip_front :: "string list \<Rightarrow> string \<Rightarrow> string" where
  "strip_front rs s =
     (case find (\<lambda>r. r \<noteq> [] \<and> has_prefix r s) rs of
        None \<Rightarrow> s
      | Some r \<Rightarrow> strip_front rs (drop (length r) s))"
  by pat_completeness auto
termination
  by (relation "measure (\<lambda>(rs, s). length s)")
     (auto simp: has_prefix_iff dest!: find_Some_in)

declare strip_front.simps [simp del]

definition trim_left :: "string \<Rightarrow> string" where
  "trim_left s = strip_front space_runes s"

definition trim_right :: "string \<Rightarrow> string" where
  "trim_right s = rev (strip_front (map rev space_runes) (rev s))"

definition trim_space :: "string \<Rightarrow> string" where
  "trim_space s = trim_right (trim_left s)"

lemma strip_front_stops: "r \<in> set rs \<Longrightarrow> r \<noteq> [] \<Longrightarrow> \<not> has_prefix r (strip_front rs s)"
proof (induction rs s rule: strip_front.induct)
  case (1 rs s)
  then show ?case
    by (subst strip_front.simps) (auto split: option.splits simp: find_None_all)
qed

lemma strip_front_suffix: "\<exists>t. s = t @ strip_front rs s"
proof (induction rs s rule: strip_front.induct)
  case (1 rs s)
  show ?case
  proof (cases "find (\<lambda>r. r \<noteq> [] \<and> has_prefix r s) rs")
    case None
    then show ?thesis by (subst strip_front.simps) simp
  next
    case (Some r)
    then obtain t where "drop (length r) s = t @ strip_front rs (drop (length r) s)"
      using "1.IH" by blast
    then have "s = (take (length r) s @ t) @ strip_front rs (drop (length r) s)"
      by (metis append_assoc append_take_drop_id)
    moreover have "strip_front rs s = strip_front rs (drop (length r) s)"
      using Some by (subst strip_front.simps) simp
    ultimately show ?thesis by metis
  qed
qed

lemma strip_front_id: "\<forall>r \<in> set rs. r = [] \<or> \<not> has_prefix r s \<Longrightarrow> strip_front rs s = s"
  by (subst strip_front.simps) (auto split: option.splits dest: find_Some_in)

lemma trim_right_prefix: "\<exists>t. s = trim_right s @ t"
proof -
  obtain t where "rev s = t @ strip_front (map rev space_runes) (rev s)"
    using strip_front_suffix by blast
  then show ?thesis unfolding trim_right_def by (metis rev_append rev_rev_ident)
qed

lemma trim_space_no_leading: "r \<in> set space_runes \<Longrightarrow> \<not> has_prefix r (trim_space s)"
  using trim_right_prefix [of "trim_left s"] strip_front_stops [of r space_runes s]
    space_runes_nonempty [of r]
  by (auto simp: trim_space_def trim_left_def has_prefix_iff)

lemma trim_space_no_trailing: "r \<in> set space_runes \<Longrightarrow> \<not> has_suffix r (trim_space s)"
  using strip_front_stops [of "rev r" "map rev space_runes" "rev (trim_left s)"] space_runes_nonempty [of r]
  by (simp add: trim_space_def trim_right_def has_suffix_def)

text \<open>A string with no space rune at either end is left alone; so trimming twice is trimming once.\<close>

lemma trim_space_id:
  assumes "\<forall>r \<in> set space_runes. \<not> has_prefix r s" and "\<forall>r \<in> set space_runes. \<not> has_suffix r s"
  shows "trim_space s = s"
proof -
  have "trim_left s = s" unfolding trim_left_def using assms(1) by (intro strip_front_id) auto
  moreover have "strip_front (map rev space_runes) (rev s) = rev s"
    using assms(2) by (intro strip_front_id) (auto simp: has_suffix_def)
  ultimately show ?thesis by (simp add: trim_space_def trim_right_def)
qed

lemma trim_space_idem: "trim_space (trim_space s) = trim_space s"
  by (rule trim_space_id) (auto simp: trim_space_no_leading trim_space_no_trailing)

lemma trim_space_Nil [simp]: "trim_space '''' = ''''"
  by (rule trim_space_id) (auto simp: space_runes_def has_suffix_def)

section \<open>Case, splitting, cutting\<close>

definition ascii_lower :: "char \<Rightarrow> char" where
  "ascii_lower c = (let n = of_char c :: nat in if 65 \<le> n \<and> n \<le> 90 then char_of (n + 32) else c)"

definition is_ascii :: "string \<Rightarrow> bool" where
  "is_ascii s \<longleftrightarrow> list_all (\<lambda>c. (of_char c :: nat) < 128) s"

text \<open>
  \<open>strings.ToLower\<close>: on ASCII the letters change one by one; other text goes through the Unicode
  case tables, which are the argument \<open>uni\<close>.
\<close>

definition to_lower :: "(string \<Rightarrow> string) \<Rightarrow> string \<Rightarrow> string" where
  "to_lower uni s = (if is_ascii s then map ascii_lower s else uni s)"

text \<open>\<open>strings.Split(s, sep)\<close> for a one-byte separator, and \<open>strings.Cut\<close>.\<close>

fun split_on :: "char \<Rightarrow> string \<Rightarrow> string list" where
  "split_on d [] = [[]]"
| "split_on d (c # s) =
     (if c = d then [] # split_on d s
      else case split_on d s of [] \<Rightarrow> [[c]] | w # ws \<Rightarrow> (c # w) # ws)"

fun cut_at :: "char \<Rightarrow> string \<Rightarrow> (string \<times> string) option" where
  "cut_at d [] = None"
| "cut_at d (c # s) =
     (if c = d then Some ([], s)
      else case cut_at d s of None \<Rightarrow> None | Some (a, b) \<Rightarrow> Some (c # a, b))"

lemma split_on_nonempty: "split_on d s \<noteq> []"
  by (induction s) (auto split: list.splits)

lemma split_on_no_sep: "d \<notin> set s \<Longrightarrow> split_on d s = [s]"
  by (induction s) auto

lemma split_on_append: "d \<notin> set a \<Longrightarrow> split_on d (a @ d # b) = a # split_on d b"
  by (induction a) auto

lemma cut_at_append: "d \<notin> set a \<Longrightarrow> cut_at d (a @ d # b) = Some (a, b)"
  by (induction a) auto

section \<open>Numbers\<close>

definition digit_val :: "char \<Rightarrow> nat option" where
  "digit_val c = (let n = of_char c :: nat in if 48 \<le> n \<and> n \<le> 57 then Some (n - 48) else None)"

definition is_digit :: "char \<Rightarrow> bool" where
  "is_digit c \<longleftrightarrow> digit_val c \<noteq> None"

fun digits_val :: "nat \<Rightarrow> string \<Rightarrow> nat option" where
  "digits_val acc [] = Some acc"
| "digits_val acc (c # s) =
     (case digit_val c of None \<Rightarrow> None | Some d \<Rightarrow> digits_val (10 * acc + d) s)"

text \<open>\<open>strconv.ParseInt(s, 10, 64)\<close>, and \<open>strconv.Atoi\<close> where \<open>int\<close> has 64 bits: no error or \<open>None\<close>.\<close>

definition parse_int :: "string \<Rightarrow> int option" where
  "parse_int s =
     (let neg = has_prefix ''-'' s; u = (if neg \<or> has_prefix ''+'' s then tl s else s)
      in if u = [] then None
         else case digits_val 0 u of
                None \<Rightarrow> None
              | Some n \<Rightarrow>
                  (if neg then if n \<le> 2 ^ 63 then Some (- int n) else None
                   else if n < 2 ^ 63 then Some (int n) else None))"

definition parse_bool :: "string \<Rightarrow> bool option" where
  "parse_bool s =
     (if List.member [''1'', ''t'', ''T'', ''TRUE'', ''true'', ''True''] s then Some True
      else if List.member [''0'', ''f'', ''F'', ''FALSE'', ''false'', ''False''] s then Some False
      else None)"

lemma parse_int_range: "parse_int s = Some n \<Longrightarrow> - (2 ^ 63) \<le> n \<and> n < 2 ^ 63"
  by (auto simp: parse_int_def Let_def split: if_splits option.splits)

text \<open>\<open>strconv.Itoa\<close> and \<open>%d\<close>.\<close>

fun nat_digits :: "nat \<Rightarrow> string" where
  "nat_digits n =
     (if n < 10 then [char_of (48 + n)] else nat_digits (n div 10) @ [char_of (48 + n mod 10)])"

declare nat_digits.simps [simp del]

definition itoa :: "int \<Rightarrow> string" where
  "itoa n = (if n < 0 then CHR ''-'' # nat_digits (nat (- n)) else nat_digits (nat n))"

lemma digit_val_char_of: "d < 10 \<Longrightarrow> digit_val (char_of (48 + d)) = Some d"
  by (simp add: digit_val_def Let_def)

lemma digits_val_append:
  "digits_val a (s @ t) = (case digits_val a s of None \<Rightarrow> None | Some b \<Rightarrow> digits_val b t)"
  by (induction s arbitrary: a) (auto split: option.splits)

lemma digits_val_nat_digits: "digits_val 0 (nat_digits n) = Some n"
proof (induction n rule: nat_digits.induct)
  case (1 n)
  show ?case
  proof (cases "n < 10")
    case True
    then show ?thesis by (subst nat_digits.simps) (simp add: digit_val_char_of)
  next
    case False
    with 1 show ?thesis
      by (subst nat_digits.simps) (simp add: digits_val_append digit_val_char_of)
  qed
qed

lemma nat_digits_head: "\<exists>c s. nat_digits n = c # s \<and> is_digit c"
proof (induction n rule: nat_digits.induct)
  case (1 n)
  then show ?case
    by (cases "n < 10") (subst nat_digits.simps, fastforce simp: is_digit_def digit_val_char_of)+
qed

lemma parse_int_itoa:
  assumes "- (2 ^ 63) \<le> n" and "n < 2 ^ 63"
  shows "parse_int (itoa n) = Some n"
proof (cases "n < 0")
  case True
  with assms nat_digits_head [of "nat (- n)"] show ?thesis
    by (auto simp: itoa_def parse_int_def Let_def digits_val_nat_digits nat_le_iff)
next
  case False
  obtain c s where cs: "nat_digits (nat n) = c # s" "is_digit c" using nat_digits_head by blast
  then have "c \<noteq> CHR ''-''" "c \<noteq> CHR ''+''" by (auto simp: is_digit_def digit_val_def)
  with cs False assms digits_val_nat_digits [of "nat n"] show ?thesis
    by (auto simp: itoa_def parse_int_def Let_def nat_less_iff)
qed

end
