(* ===== verification/Config.thy ===== *)
theory Config
  imports GoStrings
begin

text \<open>
  \<open>internal/config/config.go\<close>: the configuration record, its defaults and derivations (\<open>Load\<close>), the
  validation, and the peak-memory estimate. The environment is a function from names to values with
  the empty string for an unset name, as \<open>os.Getenv\<close> has it; \<open>host\<close> is what \<open>os.Hostname\<close> returns
  (\<open>None\<close> for an error) and \<open>uni\<close> the Unicode part of \<open>strings.ToLower\<close>.
\<close>

section \<open>time.ParseDuration\<close>

text \<open>
  The unit table in nanoseconds. The two spellings of the micro sign are U+00B5 and U+03BC.
\<close>

definition unit_map :: "string \<Rightarrow> nat option" where
  "unit_map = map_of
     [(''ns'', 1), (''us'', 1000), ([CHR 0xC2, CHR 0xB5, CHR ''s''], 1000),
      ([CHR 0xCE, CHR 0xBC, CHR ''s''], 1000), (''ms'', 1000000), (''s'', 1000000000),
      (''m'', 60000000000), (''h'', 3600000000000)]"

text \<open>
  One number and its unit: integer digits, an optional fraction, then the letters up to the next
  digit or dot. The fraction contributes \<open>f * unit / scale\<close> rounded down; Go computes that quotient
  in floating point, which can differ in the last nanosecond.
\<close>

definition digit_or_dot :: "char \<Rightarrow> bool" where
  "digit_or_dot c \<longleftrightarrow> c = CHR ''.'' \<or> is_digit c"

definition duration_item :: "string \<Rightarrow> (nat \<times> string) option" where
  "duration_item s =
     (let ds = takeWhile is_digit s; r1 = dropWhile is_digit s;
          dot = has_prefix ''.'' r1;
          fs = (if dot then takeWhile is_digit (tl r1) else []);
          r2 = (if dot then dropWhile is_digit (tl r1) else r1);
          u = takeWhile (\<lambda>c. \<not> digit_or_dot c) r2; r3 = dropWhile (\<lambda>c. \<not> digit_or_dot c) r2
      in if ds = [] \<and> fs = [] then None
         else case (digits_val 0 ds, digits_val 0 fs, unit_map u) of
                (Some v, Some f, Some unit) \<Rightarrow>
                  (let total = v * unit + f * unit div 10 ^ length fs
                   in if v > 2 ^ 63 div unit \<or> total > 2 ^ 63 then None else Some (total, r3))
              | _ \<Rightarrow> None)"

lemma duration_item_shorter: "duration_item s = Some (n, r) \<Longrightarrow> length r < length s"
proof -
  assume a: "duration_item s = Some (n, r)"
  let ?r1 = "dropWhile is_digit s"
  let ?dot = "has_prefix ''.'' ?r1"
  let ?r2 = "if ?dot then dropWhile is_digit (tl ?r1) else ?r1"
  have "unit_map [] = None" by (simp add: unit_map_def)
  with a have r: "r = dropWhile (\<lambda>c. \<not> digit_or_dot c) ?r2"
    and ne: "takeWhile is_digit s \<noteq> [] \<or> (?dot \<and> takeWhile is_digit (tl ?r1) \<noteq> [])"
    by (auto simp: duration_item_def Let_def split: if_splits option.splits)
  have le: "length (dropWhile P xs) \<le> length xs" for P and xs :: string
    by (simp add: length_dropWhile_le)
  have "length r \<le> length ?r2" using r le by simp
  moreover have "length ?r2 \<le> length ?r1" using le [of is_digit "tl ?r1"] by auto
  moreover have "length ?r1 \<le> length s" by (rule le)
  moreover have "length ?r1 < length s \<or> length ?r2 < length ?r1"
  proof (cases "takeWhile is_digit s = []")
    case True
    with ne have "?dot" by blast
    then have "?r1 \<noteq> []" by (cases ?r1) auto
    then have "length (tl ?r1) < length ?r1" by simp
    with le [of is_digit "tl ?r1"] \<open>?dot\<close> show ?thesis by simp
  next
    case False
    have "length (takeWhile is_digit s) + length ?r1 = length s"
      by (metis length_append takeWhile_dropWhile_id)
    with False show ?thesis by (cases "takeWhile is_digit s") auto
  qed
  ultimately show ?thesis by linarith
qed

function duration_items :: "nat \<Rightarrow> string \<Rightarrow> nat option" where
  "duration_items d s =
     (if s = [] then Some d
      else case duration_item s of
             None \<Rightarrow> None
           | Some (n, r) \<Rightarrow> (if d + n > 2 ^ 63 then None else duration_items (d + n) r))"
  by pat_completeness auto
termination
  by (relation "measure (\<lambda>(d, s). length s)") (auto dest: duration_item_shorter)

declare duration_items.simps [simp del]

definition parse_duration :: "string \<Rightarrow> duration option" where
  "parse_duration s =
     (let neg = has_prefix ''-'' s; u = (if neg \<or> has_prefix ''+'' s then tl s else s)
      in if u = ''0'' then Some 0
         else if u = [] then None
         else case duration_items 0 u of
                None \<Rightarrow> None
              | Some d \<Rightarrow> (if neg then Some (- int d)
                          else if d > 2 ^ 63 - 1 then None else Some (int d)))"

section \<open>Reading the environment\<close>

type_synonym environ = "string \<Rightarrow> string"

definition getenv :: "environ \<Rightarrow> string \<Rightarrow> string \<Rightarrow> string" where
  "getenv env key def = (if env key \<noteq> '''' then env key else def)"

definition getenv_with :: "(string \<Rightarrow> 'a option) \<Rightarrow> environ \<Rightarrow> string \<Rightarrow> 'a \<Rightarrow> 'a" where
  "getenv_with parse env key def =
     (if env key = '''' then def else case parse (env key) of None \<Rightarrow> def | Some v \<Rightarrow> v)"

definition getenvBool :: "environ \<Rightarrow> string \<Rightarrow> bool \<Rightarrow> bool" where
  "getenvBool = getenv_with parse_bool"

definition getenvInt :: "environ \<Rightarrow> string \<Rightarrow> int \<Rightarrow> int" where
  "getenvInt = getenv_with parse_int"

definition getenvInt64 :: "environ \<Rightarrow> string \<Rightarrow> int \<Rightarrow> int" where
  "getenvInt64 = getenv_with parse_int"

definition getenvInt32 :: "environ \<Rightarrow> string \<Rightarrow> int \<Rightarrow> int" where
  "getenvInt32 env key def =
     (let n = getenvInt64 env key def in if n < 1 \<or> n > 2 ^ 31 - 1 then def else n)"

definition getenvDuration :: "environ \<Rightarrow> string \<Rightarrow> duration \<Rightarrow> duration" where
  "getenvDuration = getenv_with parse_duration"

definition hostnameOr :: "string option \<Rightarrow> string \<Rightarrow> string" where
  "hostnameOr host def = (case host of None \<Rightarrow> def | Some h \<Rightarrow> if h = '''' then def else h)"

definition splitList :: "string \<Rightarrow> string list" where
  "splitList v = filter (\<lambda>p. p \<noteq> '''') (map trim_space (split_on (CHR '','') v))"

section \<open>The record\<close>

record config =
  AppMode :: string
  HTTPAddr :: string
  DatabaseURL :: string
  DBMaxConns :: int
  S3Endpoint :: string
  S3Region :: string
  S3Bucket :: string
  S3AccessKey :: string
  S3SecretKey :: string
  S3UsePathStyle :: bool
  S3PresignEndpoint :: string
  S3PresignTTL :: duration
  S3MultipartThreshold :: int
  S3PartSize :: int
  S3PartConcurrency :: int
  MockProcessorURL :: string
  MockTimeout :: duration
  MockMaxRetries :: int
  WorkerID :: string
  WorkerPollInterval :: duration
  WorkerLease :: duration
  WorkerConcurrency :: int
  WorkerClaimBatch :: int
  ReaperInterval :: duration
  MaxAttempts :: int
  RetryBackoffBase :: duration
  RetryBackoffMax :: duration
  MaxTextBytes :: int
  MaxDocBytes :: int
  MaxImageBytes :: int
  MaxVideoBytes :: int
  MaxConcurrentUploads :: int
  APIKeys :: "string list"
  OTelEndpoint :: string
  OTelInsecure :: bool
  ServiceName :: string
  LogLevel :: string
  ShutdownTimeout :: duration
  DrainDelay :: duration
  MigrateOnly :: bool

definition ModeAPI :: string where "ModeAPI = ''api''"
definition ModeWorker :: string where "ModeWorker = ''worker''"
definition ModeAll :: string where "ModeAll = ''all''"

definition RunsAPI :: "config \<Rightarrow> bool" where
  "RunsAPI c \<longleftrightarrow> AppMode c = ModeAPI \<or> AppMode c = ModeAll"

definition RunsWorker :: "config \<Rightarrow> bool" where
  "RunsWorker c \<longleftrightarrow> AppMode c = ModeWorker \<or> AppMode c = ModeAll"

text \<open>Both products are computed in \<open>int64\<close>.\<close>

definition PeakUploadBytes :: "config \<Rightarrow> int" where
  "PeakUploadBytes c =
     (let perUpload = i64 (S3PartSize c * i64 (1 + i64 (2 * S3PartConcurrency c)))
      in i64 (perUpload * MaxConcurrentUploads c))"

section \<open>Validation\<close>

text \<open>
  Each check of \<open>Validate\<close> with its message, in order; the first that fails is the error. Messages
  are given without the offending values two of them print. \<open>2 * WorkerPollInterval\<close> is an \<open>int64\<close>
  product.
\<close>

definition validate_checks :: "config \<Rightarrow> (bool \<times> string) list" where
  "validate_checks c =
     [(\<not> (AppMode c = ModeAPI \<or> AppMode c = ModeWorker \<or> AppMode c = ModeAll),
         ''APP_MODE must be api|worker|all''),
      (DatabaseURL c = '''', ''DATABASE_URL is required''),
      (S3Bucket c = '''', ''S3_BUCKET is required''),
      (RunsWorker c \<and> MockProcessorURL c = '''', ''MOCK_PROCESSOR_URL is required for worker mode''),
      (WorkerConcurrency c < 1, ''WORKER_CONCURRENCY must be >= 1''),
      (WorkerClaimBatch c < 1, ''WORKER_CLAIM_BATCH must be >= 1''),
      (MaxAttempts c < 1, ''MAX_ATTEMPTS must be >= 1''),
      (MaxConcurrentUploads c < 1, ''MAX_CONCURRENT_UPLOADS must be >= 1''),
      (S3PartConcurrency c < 1, ''S3_PART_CONCURRENCY must be >= 1''),
      (S3PartSize c < 5 * 2 ^ 20, ''S3_PART_SIZE must be >= 5MiB (S3 requirement for non-last parts)''),
      (S3MultipartThreshold c < S3PartSize c, ''S3_MULTIPART_THRESHOLD must be >= S3_PART_SIZE''),
      (DBMaxConns c < 1, ''DB_MAX_CONNS must be >= 1''),
      (WorkerLease c \<le> i64 (2 * WorkerPollInterval c), ''WORKER_LEASE must exceed 2x WORKER_POLL_INTERVAL''),
      (RetryBackoffMax c < RetryBackoffBase c, ''RETRY_BACKOFF_MAX must be >= RETRY_BACKOFF_BASE'')]"

definition Validate :: "config \<Rightarrow> string option" where
  "Validate c = map_option snd (find fst (validate_checks c))"

section \<open>Load\<close>

definition second :: int where "second = 1000000000"

definition env_config :: "(string \<Rightarrow> string) \<Rightarrow> string option \<Rightarrow> environ \<Rightarrow> config" where
  "env_config uni host env =
     \<lparr>AppMode = to_lower uni (trim_space (getenv env ''APP_MODE'' ModeAll)),
      HTTPAddr = getenv env ''HTTP_ADDR'' '':8080'',
      DatabaseURL = env ''DATABASE_URL'',
      DBMaxConns = getenvInt32 env ''DB_MAX_CONNS'' 20,
      S3Endpoint = getenv env ''S3_ENDPOINT'' ''http://localhost:9000'',
      S3Region = getenv env ''S3_REGION'' ''us-east-1'',
      S3Bucket = getenv env ''S3_BUCKET'' ''payloads'',
      S3AccessKey = getenv env ''S3_ACCESS_KEY'' ''minioadmin'',
      S3SecretKey = getenv env ''S3_SECRET_KEY'' ''minioadmin'',
      S3UsePathStyle = getenvBool env ''S3_USE_PATH_STYLE'' True,
      S3PresignEndpoint = getenv env ''S3_PRESIGN_ENDPOINT'' '''',
      S3PresignTTL = getenvDuration env ''S3_PRESIGN_TTL'' (900 * second),
      S3MultipartThreshold = getenvInt64 env ''S3_MULTIPART_THRESHOLD'' (16 * 2 ^ 20),
      S3PartSize = getenvInt64 env ''S3_PART_SIZE'' (8 * 2 ^ 20),
      S3PartConcurrency = getenvInt env ''S3_PART_CONCURRENCY'' 4,
      MockProcessorURL = getenv env ''MOCK_PROCESSOR_URL'' ''http://localhost:8090'',
      MockTimeout = getenvDuration env ''MOCK_TIMEOUT'' (30 * second),
      MockMaxRetries = getenvInt env ''MOCK_MAX_RETRIES'' 3,
      WorkerID = getenv env ''WORKER_ID'' (hostnameOr host ''worker''),
      WorkerPollInterval = getenvDuration env ''WORKER_POLL_INTERVAL'' (1 * second),
      WorkerLease = getenvDuration env ''WORKER_LEASE'' (120 * second),
      WorkerConcurrency = getenvInt env ''WORKER_CONCURRENCY'' 4,
      WorkerClaimBatch = getenvInt env ''WORKER_CLAIM_BATCH'' 0,
      ReaperInterval = getenvDuration env ''REAPER_INTERVAL'' (15 * second),
      MaxAttempts = getenvInt env ''MAX_ATTEMPTS'' 5,
      RetryBackoffBase = getenvDuration env ''RETRY_BACKOFF_BASE'' (5 * second),
      RetryBackoffMax = getenvDuration env ''RETRY_BACKOFF_MAX'' (600 * second),
      MaxTextBytes = getenvInt64 env ''MAX_TEXT_BYTES'' (2 ^ 20),
      MaxDocBytes = getenvInt64 env ''MAX_DOC_BYTES'' (20 * 2 ^ 20),
      MaxImageBytes = getenvInt64 env ''MAX_IMAGE_BYTES'' (10 * 2 ^ 20),
      MaxVideoBytes = getenvInt64 env ''MAX_VIDEO_BYTES'' (200 * 2 ^ 20),
      MaxConcurrentUploads = getenvInt env ''MAX_CONCURRENT_UPLOADS'' 16,
      APIKeys = splitList (env ''API_KEYS''),
      OTelEndpoint = getenv env ''OTEL_EXPORTER_OTLP_ENDPOINT'' '''',
      OTelInsecure = getenvBool env ''OTEL_EXPORTER_OTLP_INSECURE'' True,
      ServiceName = getenv env ''SERVICE_NAME'' ''payload-service'',
      LogLevel = to_lower uni (getenv env ''LOG_LEVEL'' ''info''),
      ShutdownTimeout = getenvDuration env ''SHUTDOWN_TIMEOUT'' (25 * second),
      DrainDelay = getenvDuration env ''DRAIN_DELAY'' (3 * second),
      MigrateOnly = getenvBool env ''MIGRATE_ONLY'' False\<rparr>"

definition derive_config :: "config \<Rightarrow> config" where
  "derive_config c0 =
     (let c1 = (if S3PresignEndpoint c0 = '''' then c0\<lparr>S3PresignEndpoint := S3Endpoint c0\<rparr> else c0)
      in if WorkerClaimBatch c1 \<le> 0 then c1\<lparr>WorkerClaimBatch := WorkerConcurrency c1\<rparr> else c1)"

definition Load :: "(string \<Rightarrow> string) \<Rightarrow> string option \<Rightarrow> environ \<Rightarrow> string + config" where
  "Load uni host env =
     (let cfg = derive_config (env_config uni host env)
      in case Validate cfg of Some e \<Rightarrow> Inl e | None \<Rightarrow> Inr cfg)"

section \<open>Properties\<close>

lemma Validate_None:
  "Validate c = None \<longleftrightarrow> (\<forall>p \<in> set (validate_checks c). \<not> fst p)"
  by (simp add: Validate_def find_None_all)

text \<open>What a configuration that passes validation guarantees; \<open>valid_config\<close> is used by the workers.\<close>

definition valid_config :: "config \<Rightarrow> bool" where
  "valid_config c \<longleftrightarrow> AppMode c \<in> {ModeAPI, ModeWorker, ModeAll} \<and> DatabaseURL c \<noteq> '''' \<and>
     S3Bucket c \<noteq> '''' \<and> (RunsWorker c \<longrightarrow> MockProcessorURL c \<noteq> '''') \<and>
     1 \<le> WorkerConcurrency c \<and> 1 \<le> WorkerClaimBatch c \<and> 1 \<le> MaxAttempts c \<and>
     1 \<le> MaxConcurrentUploads c \<and> 1 \<le> S3PartConcurrency c \<and> 5 * 2 ^ 20 \<le> S3PartSize c \<and>
     S3PartSize c \<le> S3MultipartThreshold c \<and> 1 \<le> DBMaxConns c \<and>
     i64 (2 * WorkerPollInterval c) < WorkerLease c \<and> RetryBackoffBase c \<le> RetryBackoffMax c"

lemma Validate_valid: "Validate c = None \<longleftrightarrow> valid_config c"
  unfolding Validate_None validate_checks_def valid_config_def
  by (auto simp: not_less not_le)

lemma splitList_keys: "k \<in> set (splitList v) \<Longrightarrow> k \<noteq> '''' \<and> trim_space k = k"
  by (auto simp: splitList_def trim_space_idem)

lemma getenvInt32_range: "1 \<le> d \<Longrightarrow> d < 2 ^ 31 \<Longrightarrow> 1 \<le> getenvInt32 env k d \<and> getenvInt32 env k d < 2 ^ 31"
  by (auto simp: getenvInt32_def Let_def)

text \<open>
  A configuration that \<open>Load\<close> returns is valid: every constraint of \<open>Validate\<close> holds, the claim
  batch is at least one even when it was left to be derived, the presign endpoint falls back to the
  storage endpoint, the connection count fits \<open>int32\<close>, and no API key is blank or padded.
\<close>
theorem load_returns_valid:
  assumes "Load uni host env = Inr c"
  shows "valid_config c \<and> DBMaxConns c < 2 ^ 31 \<and>
    (env ''S3_PRESIGN_ENDPOINT'' = '''' \<longrightarrow> S3PresignEndpoint c = S3Endpoint c) \<and>
    (\<forall>k \<in> set (APIKeys c). k \<noteq> '''' \<and> trim_space k = k)"
proof -
  have c: "c = derive_config (env_config uni host env)" and v: "Validate c = None"
    using assms by (auto simp: Load_def Let_def split: option.splits)
  have "DBMaxConns c = getenvInt32 env ''DB_MAX_CONNS'' 20" "APIKeys c = splitList (env ''API_KEYS'')"
    by (simp_all add: c derive_config_def env_config_def Let_def)
  moreover have "env ''S3_PRESIGN_ENDPOINT'' = '''' \<longrightarrow> S3PresignEndpoint c = S3Endpoint c"
    by (simp add: c derive_config_def env_config_def getenv_def Let_def)
  ultimately show ?thesis
    using v Validate_valid getenvInt32_range [of 20 env "''DB_MAX_CONNS''"] splitList_keys by auto
qed

text \<open>The environment of the quick start: only \<open>DATABASE_URL\<close> is set.\<close>

definition bare_env :: environ where
  "bare_env = (\<lambda>_. '''')(''DATABASE_URL'' := ''postgres://db'')"

lemma trim_all: "trim_space ''all'' = ''all''"
  by (rule trim_space_id) (auto simp: space_runes_def has_suffix_def)

lemma lower_all: "to_lower uni ''all'' = ''all''"
  by (simp add: to_lower_def is_ascii_def ascii_lower_def Let_def)

lemma bare_load:
  "Load uni host bare_env = Inr (derive_config (env_config uni host bare_env))"
  "S3PartSize (derive_config (env_config uni host bare_env)) = 8 * 2 ^ 20"
  "S3PartConcurrency (derive_config (env_config uni host bare_env)) = 4"
  "MaxConcurrentUploads (derive_config (env_config uni host bare_env)) = 16"
proof -
  let ?c = "derive_config (env_config uni host bare_env)"
  have "valid_config ?c"
    by (simp add: valid_config_def derive_config_def env_config_def bare_env_def getenv_def
        getenv_with_def getenvInt_def getenvInt64_def getenvInt32_def getenvDuration_def getenvBool_def
        ModeAll_def ModeAPI_def ModeWorker_def trim_all lower_all second_def i64_id Let_def)
  then show "Load uni host bare_env = Inr ?c"
    by (simp add: Load_def Let_def Validate_valid [THEN iffD2])
  show "S3PartSize ?c = 8 * 2 ^ 20" "S3PartConcurrency ?c = 4" "MaxConcurrentUploads ?c = 16"
    by (simp_all add: derive_config_def env_config_def bare_env_def
        getenv_with_def getenvInt_def getenvInt64_def Let_def)
qed

theorem load_returns_valid_witness:
  "\<exists>c. Load id None bare_env = Inr c \<and> valid_config c \<and> S3PresignEndpoint c = S3Endpoint c"
  using load_returns_valid [OF bare_load(1)] bare_load(1) by (auto simp: bare_env_def)

text \<open>
  The peak upload memory that is reported at startup is the documented product, part size times
  (1 + 2 * concurrency) times uploads, whenever that product fits 64 bits; no intermediate product
  wraps then. (With the defaults: 8 MiB parts, 9 buffers, 16 uploads.)
\<close>
theorem peak_upload_bytes_exact:
  assumes "1 \<le> S3PartSize c" and "1 \<le> S3PartConcurrency c" and "1 \<le> MaxConcurrentUploads c"
    and "S3PartSize c * (1 + 2 * S3PartConcurrency c) * MaxConcurrentUploads c < 2 ^ 63"
  shows "PeakUploadBytes c = S3PartSize c * (1 + 2 * S3PartConcurrency c) * MaxConcurrentUploads c"
proof -
  let ?s = "S3PartSize c" and ?k = "1 + 2 * S3PartConcurrency c" and ?m = "MaxConcurrentUploads c"
  have pos: "1 \<le> ?s * ?k" using assms(1,2) by (smt (verit) mult_le_cancel_right1)
  have sk: "?s * ?k \<le> ?s * ?k * ?m" using pos assms(3) by (simp add: mult_le_cancel_left1)
  have k: "?k \<le> ?s * ?k" using assms(1,2) by (simp add: mult_le_cancel_right1)
  have "i64 (2 * S3PartConcurrency c) = 2 * S3PartConcurrency c" "i64 ?k = ?k"
    "i64 (?s * ?k) = ?s * ?k" "i64 (?s * ?k * ?m) = ?s * ?k * ?m"
    by (rule i64_id; use assms pos sk k in linarith)+
  then show ?thesis by (simp only: PeakUploadBytes_def Let_def)
qed

theorem peak_upload_bytes_exact_witness:
  "PeakUploadBytes (derive_config (env_config id None bare_env)) = 1207959552"
  by (subst peak_upload_bytes_exact) (simp_all add: bare_load)

end
