(* ===== verification/Reader.thy ===== *)
theory Reader
  imports Domain GoStrings
begin

text \<open>
  Byte streams. \<open>reader\<close> has one constructor per implementation of \<open>io.Reader\<close> that an upload passes
  through: the body of a multipart part (\<open>Stream\<close>, whose reads follow a script of chunks, each
  perhaps with the error that comes with its last byte, which then stays, and \<open>io.EOF\<close> after the
  script),
  \<open>io.MultiReader(bytes.NewReader(sniffed), r)\<close> (\<open>Replay\<close>), and the \<open>cappedReader\<close> of
  \<open>internal/api/http/mime.go\<close> (\<open>Capped\<close>: underlying reader, limit, bytes so far, exceeded flag).

  The loops over \<open>Read\<close> that the code uses (\<open>fill\<close> of the object store, \<open>io.ReadFull\<close>, and
  \<open>io.ReadAll\<close> of an \<open>io.LimitReader\<close>) are one loop, \<open>read_loop\<close>. \<open>delivers r bs e\<close> says that reading
  \<open>r\<close> to its end gives the bytes \<open>bs\<close> and then the error \<open>e\<close>, however the reads are sized.
\<close>

section \<open>Readers\<close>

datatype read_ev = Data bytes "goerr option"

datatype reader =
    Stream "read_ev list"
  | Replay bytes reader
  | Capped reader int int bool

definition capped_err :: "int \<Rightarrow> goerr" where
  "capped_err mx = werr ErrPayloadTooLarge (''limit is '' @ itoa mx @ '' bytes'')"

definition slice_panic :: goerr where
  "slice_panic = Opaque ''runtime error: slice bounds out of range''"

text \<open>
  \<open>Read(p)\<close> with \<open>len(p) = m\<close>. A negative \<open>room\<close> makes the slice expression of the capped reader
  panic; the model returns \<open>slice_panic\<close> there, and properties keep away from it by \<open>0 \<le> max\<close>.
\<close>

fun Read :: "reader \<Rightarrow> nat \<Rightarrow> (bytes \<times> goerr option) \<times> reader" where
  "Read (Stream []) m = (([], Some (Sentinel EOF)), Stream [])"
| "Read (Stream (Data bs e # es)) m =
     (if length bs \<le> m
      then ((bs, e), Stream (case e of None \<Rightarrow> es | Some x \<Rightarrow> [Data [] (Some x)]))
      else ((take m bs, None), Stream (Data (drop m bs) e # es)))"
| "Read (Replay s r) m =
     (if s = [] then (case Read r m of (out, r') \<Rightarrow> (out, Replay [] r'))
      else ((take m s, None), Replay (drop m s) r))"
| "Read (Capped r mx n exceeded) m =
     (if exceeded then (([], Some (capped_err mx)), Capped r mx n True)
      else let room = i64 (i64 (mx + 1) - n)
           in if room < 0 \<and> room < int m then (([], Some slice_panic), Capped r mx n False)
              else case Read r (if room < int m then nat room else m) of
                     ((bs, e), r') \<Rightarrow>
                       let n' = i64 (n + int (length bs))
                       in if n' > mx then (([], Some (capped_err mx)), Capped r' mx n' True)
                          else ((bs, e), Capped r' mx n' False))"

fun weight :: "reader \<Rightarrow> nat" where
  "weight (Stream es) = sum_list (map (\<lambda>ev. case ev of Data bs e \<Rightarrow> length bs + 1) es)"
| "weight (Replay s r) = length s + weight r"
| "weight (Capped r mx n exceeded) = weight r"

text \<open>
  The loop. In Go a loop over reads that make no progress never returns; the model returns
  \<open>no_progress\<close> there, and \<open>read_loop_delivers\<close> shows that a reader that delivers never gets to it.
\<close>

definition no_progress :: goerr where
  "no_progress = Opaque ''no progress''"

function read_loop :: "nat \<Rightarrow> reader \<Rightarrow> (bytes \<times> goerr option) \<times> reader" where
  "read_loop m r =
     (if m = 0 then (([], None), r)
      else case Read r m of
             ((bs, Some e), r') \<Rightarrow> ((bs, Some e), r')
           | ((bs, None), r') \<Rightarrow>
               (if weight r' < weight r
                then case read_loop (m - length bs) r' of ((cs, e), q) \<Rightarrow> ((bs @ cs, e), q)
                else ((bs, Some no_progress), r')))"
  by pat_completeness auto
termination
  by (relation "measure (\<lambda>(m, r). weight r)") auto

declare read_loop.simps [simp del]

lemma read_loop_0 [simp]: "read_loop 0 r = (([], None), r)"
  by (simp add: read_loop.simps)

lemma read_loop_err:
  "0 < m \<Longrightarrow> Read r m = ((bs, Some e), r') \<Longrightarrow> read_loop m r = ((bs, Some e), r')"
  by (subst read_loop.simps) simp

lemma read_loop_step:
  "0 < m \<Longrightarrow> Read r m = ((bs, None), r1) \<Longrightarrow> weight r1 < weight r \<Longrightarrow>
    read_loop (m - length bs) r1 = ((cs, e), q) \<Longrightarrow> read_loop m r = ((bs @ cs, e), q)"
  by (subst read_loop.simps) simp

lemma read_loop_stuck:
  "0 < m \<Longrightarrow> Read r m = ((bs, None), r1) \<Longrightarrow> \<not> weight r1 < weight r \<Longrightarrow>
    read_loop m r = ((bs, Some no_progress), r1)"
  by (subst read_loop.simps) simp

section \<open>What a reader delivers\<close>

fun stream_content :: "read_ev list \<Rightarrow> bytes \<times> goerr" where
  "stream_content [] = ([], Sentinel EOF)"
| "stream_content (Data bs (Some e) # es) = (bs, e)"
| "stream_content (Data bs None # es) = (case stream_content es of (cs, e) \<Rightarrow> (bs @ cs, e))"

fun delivers :: "reader \<Rightarrow> bytes \<Rightarrow> goerr \<Rightarrow> bool" where
  "delivers (Stream es) bs e = (stream_content es = (bs, e))"
| "delivers (Replay s r) bs e = (take (length s) bs = s \<and> delivers r (drop (length s) bs) e)"
| "delivers (Capped r mx n exceeded) bs e =
     (\<not> exceeded \<and> 0 \<le> n \<and> mx < max_int64 \<and> n + int (length bs) \<le> mx \<and> delivers r bs e)"

text \<open>A capped reader whose source has more than the limit, or that has seen the excess already.\<close>

fun overflows :: "reader \<Rightarrow> bool" where
  "overflows (Capped r mx n exceeded) =
     (exceeded \<or> (0 \<le> n \<and> n \<le> mx \<and> mx < max_int64 \<and>
        (\<exists>bs e. delivers r bs e \<and> n + int (length bs) > mx \<and> n + int (length bs) < max_int64)))"
| "overflows _ = False"

fun Exceeded :: "reader \<Rightarrow> bool" where
  "Exceeded (Capped r mx n exceeded) = exceeded"
| "Exceeded _ = False"

definition read_law :: "bytes \<Rightarrow> goerr \<Rightarrow> bytes \<Rightarrow> goerr option \<Rightarrow> reader \<Rightarrow> bool" where
  "read_law bs e out err r' \<longleftrightarrow>
     (case err of
        None \<Rightarrow> take (length out) bs = out \<and> delivers r' (drop (length out) bs) e
      | Some x \<Rightarrow> x = e \<and> out = bs \<and> delivers r' [] e)"

text \<open>A read fills at most the buffer it is given, whatever the reader.\<close>

lemma Read_length: "Read r m = ((out, err), r') \<Longrightarrow> length out \<le> m"
proof (induction r arbitrary: m out err r')
  case (Stream es)
  then show ?case
    by (cases es; cases "hd es") (auto split: if_splits)
next
  case (Replay s r)
  then show ?case by (fastforce split: if_splits prod.splits)
next
  case (Capped r mx n ex)
  then show ?case by (fastforce simp: Let_def split: if_splits prod.splits)
qed

lemma read_loop_length: "read_loop m r = ((out, err), r') \<Longrightarrow> length out \<le> m"
proof (induction m r arbitrary: out err r' rule: read_loop.induct)
  case (1 m r)
  show ?case
  proof (cases "m = 0")
    case False
    obtain o1 e1 r1 where rd: "Read r m = ((o1, e1), r1)" by (metis prod.exhaust)
    note len = Read_length [OF rd]
    show ?thesis
    proof (cases "e1 = None \<and> weight r1 < weight r")
      case True
      obtain o2 e2 r2 where rl: "read_loop (m - length o1) r1 = ((o2, e2), r2)" by (metis prod.exhaust)
      have "length o2 \<le> m - length o1"
        using "1.IH" [OF False, of "(o1, None)" r1] rd True rl by simp
      moreover have "out = o1 @ o2" using "1.prems" read_loop_step [of m r o1 r1] False rd True rl by simp
      ultimately show ?thesis using len by simp
    qed (use "1.prems" False rd len read_loop.simps [of m r] in \<open>auto split: option.splits if_splits\<close>)
  qed (use "1.prems" in simp)
qed

lemma stream_content_step:
  "stream_content (Data bs e # es) =
    (case e of Some x \<Rightarrow> (bs, x) | None \<Rightarrow> (bs @ fst (stream_content es), snd (stream_content es)))"
  by (cases e) (auto split: prod.splits)

lemma room_exact:
  assumes "0 \<le> n" and "n \<le> mx" and "mx < max_int64"
  shows "i64 (i64 (mx + 1) - n) = mx + 1 - n"
  using assms by (simp add: i64_id max_int64_def)

lemma Read_delivers:
  assumes "delivers r bs e" and "Read r m = ((out, err), r')"
  shows "length out \<le> m \<and> read_law bs e out err r'"
  using assms
proof (induction r arbitrary: bs m out err r')
  case (Stream es)
  show ?case
  proof (cases es)
    case Nil
    with Stream show ?thesis by (auto simp: read_law_def)
  next
    case (Cons ev es')
    obtain d x where ev: "ev = Data d x" by (cases ev)
    show ?thesis
    proof (cases "length d \<le> m")
      case True
      with Stream Cons ev show ?thesis
        by (auto simp: read_law_def stream_content_step split: option.splits)
    next
      case False
      with Stream Cons ev show ?thesis
        by (auto simp: read_law_def stream_content_step split: option.splits)
    qed
  qed
next
  case (Replay s r)
  show ?case
  proof (cases "s = []")
    case True
    with Replay.prems obtain q where "Read r m = ((out, err), q)" "r' = Replay [] q"
      by (auto split: prod.splits)
    with Replay.IH [of bs m out err q] Replay.prems(1) True show ?thesis
      by (auto simp: read_law_def split: option.splits)
  next
    case False
    with Replay.prems have out: "out = take m s" "err = None" "r' = Replay (drop m s) r" by auto
    obtain t where bs: "bs = s @ t" and del: "delivers r t e"
      using Replay.prems(1) by (metis append_take_drop_id delivers.simps(2))
    show ?thesis
      unfolding read_law_def out bs using del by (cases "m \<le> length s") auto
  qed
next
  case (Capped r mx n ex)
  then have wf: "\<not> ex" "0 \<le> n" "n \<le> mx" "mx < max_int64" "n + int (length bs) \<le> mx" "delivers r bs e"
    by auto
  let ?m = "if mx + 1 - n < int m then nat (mx + 1 - n) else m"
  obtain o1 e1 r1 where rd: "Read r ?m = ((o1, e1), r1)" by (metis prod.exhaust)
  have law: "length o1 \<le> ?m" "read_law bs e o1 e1 r1"
    using Capped.IH [OF wf(6) rd] by auto
  have le: "length o1 \<le> length bs"
    using law(2) by (auto simp: read_law_def split: option.splits dest: arg_cong [of _ _ length])
  have n': "i64 (n + int (length o1)) = n + int (length o1)"
    using wf le by (intro i64_id) (auto simp: max_int64_def)
  have "out = o1 \<and> err = e1 \<and> r' = Capped r1 mx (n + int (length o1)) False"
    using Capped.prems(2) wf rd n' le room_exact [OF wf(2-4)] by (auto simp: Let_def)
  with law wf le show ?case
    by (auto simp: read_law_def split: option.splits if_splits)
qed

lemma Read_progress:
  assumes "delivers r bs e" and "0 < m" and "Read r m = ((out, None), r')"
  shows "weight r' < weight r"
  using assms
proof (induction r arbitrary: bs m out r')
  case (Stream es)
  then show ?case by (cases es; cases "hd es") (auto split: if_splits)
next
  case (Replay s r)
  show ?case
  proof (cases "s = []")
    case True
    with Replay.prems obtain q where q: "Read r m = ((out, None), q)" "r' = Replay [] q"
      by (auto split: prod.splits)
    have "delivers r bs e" using Replay.prems(1) True by simp
    from Replay.IH [OF this Replay.prems(2) q(1)] q(2) show ?thesis by simp
  next
    case False
    with Replay.prems show ?thesis by (cases s) auto
  qed
next
  case (Capped r mx n ex)
  then have wf: "\<not> ex" "0 \<le> n" "n \<le> mx" "mx < max_int64" "delivers r bs e" by auto
  let ?m = "if mx + 1 - n < int m then nat (mx + 1 - n) else m"
  obtain o1 e1 r1 where rd: "Read r ?m = ((o1, e1), r1)" by (metis prod.exhaust)
  have e1: "e1 = None" and r': "weight r' = weight r1"
    using Capped.prems(3) wf rd room_exact [OF wf(2-4)] by (auto simp: Let_def split: if_splits)
  have "0 < ?m" using wf Capped.prems(2) by auto
  from Capped.IH [OF wf(5) this rd [unfolded e1]] r' show ?case by simp
qed

lemma read_law_append:
  assumes "take (length a) bs = a" and "read_law (drop (length a) bs) e b err r'"
  shows "read_law bs e (a @ b) err r'"
proof -
  have "bs = a @ drop (length a) bs" using assms(1) by (metis append_take_drop_id)
  then obtain t where bs: "bs = a @ t" by blast
  with assms(2) show ?thesis by (auto simp: read_law_def split: option.splits)
qed

lemma read_loop_delivers:
  assumes "delivers r bs e" and "read_loop m r = ((out, err), r')"
  shows "length out \<le> m \<and> read_law bs e out err r' \<and> (err = None \<longrightarrow> length out = m)"
  using assms
proof (induction m r arbitrary: bs out err r' rule: read_loop.induct)
  case (1 m r)
  show ?case
  proof (cases "m = 0")
    case True
    with "1.prems" show ?thesis by (auto simp: read_law_def)
  next
    case False
    then have pos: "0 < m" by simp
    obtain o1 e1 r1 where rd: "Read r m = ((o1, e1), r1)" by (metis prod.exhaust)
    have law: "length o1 \<le> m" "read_law bs e o1 e1 r1"
      using Read_delivers [OF "1.prems"(1) rd] by auto
    show ?thesis
    proof (cases e1)
      case (Some x)
      with law "1.prems"(2) read_loop_err [OF pos rd [unfolded Some]] show ?thesis by auto
    next
      case None
      note rd = rd [unfolded None]
      have w: "weight r1 < weight r" using Read_progress [OF "1.prems"(1) pos rd] .
      obtain o2 e2 r2 where rl: "read_loop (m - length o1) r1 = ((o2, e2), r2)" by (metis prod.exhaust)
      have res: "out = o1 @ o2" "err = e2" "r' = r2"
        using "1.prems"(2) read_loop_step [OF pos rd w rl] by auto
      have d1: "delivers r1 (drop (length o1) bs) e" "take (length o1) bs = o1"
        using law(2) None by (auto simp: read_law_def)
      have "length o2 \<le> m - length o1 \<and> read_law (drop (length o1) bs) e o2 e2 r2 \<and>
          (e2 = None \<longrightarrow> length o2 = m - length o1)"
        using "1.IH" [OF False rd [symmetric] refl refl w d1(1) rl] .
      with law(1) read_law_append [OF d1(2)] show ?thesis unfolding res by auto
    qed
  qed
qed

lemma read_loop_weight:
  "read_loop m r = ((out, None), r') \<Longrightarrow> 0 < m \<Longrightarrow> weight r' < weight r"
proof (induction m r arbitrary: out r' rule: read_loop.induct)
  case (1 m r)
  obtain o1 e1 r1 where rd: "Read r m = ((o1, e1), r1)" by (metis prod.exhaust)
  have e1: "e1 = None"
    using "1.prems" rd read_loop_err by (cases e1) fastforce+
  note rd = rd [unfolded e1]
  have w: "weight r1 < weight r"
    using "1.prems" read_loop_stuck [OF "1.prems"(2) rd] by fastforce
  obtain o2 e2 r2 where rl: "read_loop (m - length o1) r1 = ((o2, e2), r2)" by (metis prod.exhaust)
  have res: "e2 = None" "r' = r2"
    using "1.prems"(1) read_loop_step [OF "1.prems"(2) rd w rl] by auto
  show ?case
  proof (cases "m - length o1 = 0")
    case True
    with rl res w show ?thesis by simp
  next
    case False
    then have "weight r2 < weight r1"
      using "1.IH" [OF _ rd [symmetric] refl refl w rl [unfolded res(1)]] "1.prems"(2) by simp
    with w res show ?thesis by simp
  qed
qed

section \<open>Reading past the limit\<close>

definition over_law :: "goerr option \<Rightarrow> reader \<Rightarrow> bool" where
  "over_law err r' \<longleftrightarrow>
     (case err of
        None \<Rightarrow> overflows r'
      | Some x \<Rightarrow> (\<exists>mx. x = capped_err mx) \<and> Exceeded r' \<and> overflows r')"

lemma errors_is_capped_err [simp, err_simps]: "errors_is (capped_err mx) t = (t = ErrPayloadTooLarge)"
  by (auto simp: capped_err_def)

lemma delivers_unique:
  "delivers r bs e \<Longrightarrow> delivers r bs' e' \<Longrightarrow> bs' = bs \<and> e' = e"
proof (induction r arbitrary: bs bs' e e')
  case (Replay s r)
  then have "drop (length s) bs' = drop (length s) bs \<and> e' = e"
    by (intro Replay.IH) simp_all
  with Replay.prems show ?case by (metis append_take_drop_id delivers.simps(2))
qed auto

lemma overflows_not_delivers:
  assumes "overflows r" and "delivers r bs e"
  shows False
proof -
  obtain s mx n where r: "r = Capped s mx n False" and "delivers s bs e" "n + int (length bs) \<le> mx"
    using assms by (cases r) auto
  with assms(1) delivers_unique show False by fastforce
qed

lemma Read_overflows:
  assumes "overflows r" and "0 < m" and "Read r m = ((out, err), r')"
  shows "over_law err r' \<and> (err = None \<longrightarrow> weight r' < weight r)"
proof -
  obtain s mx n ex where r: "r = Capped s mx n ex" using assms(1) by (cases r) auto
  show ?thesis
  proof (cases ex)
    case True
    with assms(1,3) r show ?thesis by (auto simp: over_law_def)
  next
    case False
    with assms(1) r obtain bs e where wf: "0 \<le> n" "n \<le> mx" "mx < max_int64" "delivers s bs e"
      "n + int (length bs) > mx" "n + int (length bs) < max_int64" by auto
    let ?m = "if mx + 1 - n < int m then nat (mx + 1 - n) else m"
    have pos: "0 < ?m" using wf(2) assms(2) by auto
    obtain o1 e1 s1 where rd: "Read s ?m = ((o1, e1), s1)" by (metis prod.exhaust)
    have law: "read_law bs e o1 e1 s1" using Read_delivers [OF wf(4) rd] by blast
    have le: "length o1 \<le> length bs"
      using law by (auto simp: read_law_def split: option.splits dest: arg_cong [of _ _ length])
    have n': "i64 (n + int (length o1)) = n + int (length o1)"
      using wf le by (intro i64_id) (auto simp: max_int64_def)
    have eq: "Read r m = (if n + int (length o1) > mx
        then (([], Some (capped_err mx)), Capped s1 mx (n + int (length o1)) True)
        else ((o1, e1), Capped s1 mx (n + int (length o1)) False))"
      using r False rd n' wf(2) room_exact [OF wf(1-3)] by (simp add: Let_def)
    show ?thesis
    proof (cases "n + int (length o1) > mx")
      case True
      with eq assms(3) show ?thesis by (auto simp: over_law_def)
    next
      case False
      then have "e1 = None" using law wf(5) by (auto simp: read_law_def split: option.splits)
      moreover have "weight s1 < weight s" using Read_progress [OF wf(4) pos] rd calculation by blast
      moreover have d: "delivers s1 (drop (length o1) bs) e"
        using law calculation(1) by (auto simp: read_law_def)
      have "overflows (Capped s1 mx (n + int (length o1)) False)"
        unfolding overflows.simps using d wf(1,3,5,6) le False
        by (intro disjI2 conjI exI [of _ "drop (length o1) bs"] exI [of _ e]) auto
      ultimately show ?thesis using eq assms(3) False r by (auto simp: over_law_def simp del: overflows.simps)
    qed
  qed
qed

lemma read_loop_overflows:
  "overflows r \<Longrightarrow> read_loop m r = ((out, err), r') \<Longrightarrow> over_law err r'"
proof (induction m r arbitrary: out err r' rule: read_loop.induct)
  case (1 m r)
  show ?case
  proof (cases "m = 0")
    case True
    with "1.prems" show ?thesis by (auto simp: over_law_def)
  next
    case False
    then have pos: "0 < m" by simp
    obtain o1 e1 r1 where rd: "Read r m = ((o1, e1), r1)" by (metis prod.exhaust)
    note law = Read_overflows [OF "1.prems"(1) pos rd]
    show ?thesis
    proof (cases e1)
      case (Some x)
      with law "1.prems"(2) read_loop_err [OF pos rd [unfolded Some]] show ?thesis by auto
    next
      case None
      note rd = rd [unfolded None]
      have w: "weight r1 < weight r" and ov: "overflows r1"
        using law None by (auto simp: over_law_def)
      obtain o2 e2 r2 where rl: "read_loop (m - length o1) r1 = ((o2, e2), r2)" by (metis prod.exhaust)
      have "err = e2" "r' = r2" using "1.prems"(2) read_loop_step [OF pos rd w rl] by auto
      with "1.IH" [OF False rd [symmetric] refl refl w ov rl] show ?thesis by simp
    qed
  qed
qed

section \<open>The readers' clients\<close>

text \<open>\<open>io.ReadFull\<close>: an error that comes with the last byte asked for is dropped.\<close>

definition ReadFull :: "nat \<Rightarrow> reader \<Rightarrow> (bytes \<times> goerr option) \<times> reader" where
  "ReadFull k r =
     (case read_loop k r of
        ((bs, e), r') \<Rightarrow>
          ((bs, if length bs \<ge> k then None
                else if bs \<noteq> [] \<and> e = Some (Sentinel EOF) then Some (Sentinel ErrUnexpectedEOF)
                else e), r'))"

text \<open>\<open>io.ReadAll(io.LimitReader(r, limit))\<close>: a non-positive limit reads nothing.\<close>

definition ReadAllLimit :: "int \<Rightarrow> reader \<Rightarrow> (bytes \<times> goerr option) \<times> reader" where
  "ReadAllLimit limit r =
     (case read_loop (nat limit) r of
        ((bs, e), r') \<Rightarrow> ((bs, if e = Some (Sentinel EOF) then None else e), r'))"

lemma ReadFull_delivers:
  assumes "delivers r bs e" and "ReadFull k r = ((out, err), r')"
  shows "out = take k bs \<and> delivers r' (drop k bs) e \<and> (err = None \<longleftrightarrow> k \<le> length bs) \<and>
    (length bs < k \<longrightarrow> err = Some (if bs \<noteq> [] \<and> e = Sentinel EOF then Sentinel ErrUnexpectedEOF else e))"
proof -
  obtain o1 e1 where rl: "read_loop k r = ((o1, e1), r')"
    and eq: "out = o1" "err = (if length o1 \<ge> k then None
      else if o1 \<noteq> [] \<and> e1 = Some (Sentinel EOF) then Some (Sentinel ErrUnexpectedEOF) else e1)"
    using assms(2) by (auto simp: ReadFull_def split: prod.splits)
  have law: "length o1 \<le> k" "read_law bs e o1 e1 r'" "e1 = None \<longrightarrow> length o1 = k"
    using read_loop_delivers [OF assms(1) rl] by auto
  show ?thesis
  proof (cases e1)
    case None
    with law have "o1 = take k bs" "delivers r' (drop k bs) e" "length o1 = k"
      by (auto simp: read_law_def)
    with eq None show ?thesis by (auto simp: min_def split: if_splits)
  next
    case (Some x)
    with law eq show ?thesis by (auto simp: read_law_def)
  qed
qed

end
