(* ===== verification/GoPath.thy ===== *)
theory GoPath
  imports GoStrings
begin

text \<open>
  Go's package \<open>path\<close>, as far as the source calls it: \<open>Base\<close>, \<open>Ext\<close> and \<open>Join\<close> with the lexical
  clean-up \<open>Join\<close> ends in.
\<close>

definition slash :: char where
  "slash = CHR ''/''"

definition path_base :: "string \<Rightarrow> string" where
  "path_base s =
     (if s = '''' then ''.''
      else let t = rev (dropWhile (\<lambda>c. c = slash) (rev s));
               u = rev (takeWhile (\<lambda>c. c \<noteq> slash) (rev t))
           in if u = '''' then ''/'' else u)"

text \<open>\<open>filepath.Ext\<close> (on a system with forward slashes): from the last dot of the last element.\<close>

definition path_ext :: "string \<Rightarrow> string" where
  "path_ext s =
     (let e = takeWhile (\<lambda>c. c \<noteq> CHR ''.'' \<and> c \<noteq> slash) (rev s)
      in if length e < length s \<and> rev s ! length e = CHR ''.'' then CHR ''.'' # rev e else '''')"

text \<open>\<open>Clean\<close>: the elements so far are a stack, its top first.\<close>

fun clean_elems :: "bool \<Rightarrow> string list \<Rightarrow> string list \<Rightarrow> string list" where
  "clean_elems rooted st [] = rev st"
| "clean_elems rooted st (e # es) =
     (if e = '''' \<or> e = ''.'' then clean_elems rooted st es
      else if e = ''..'' then
        (case st of
           [] \<Rightarrow> clean_elems rooted (if rooted then [] else [''..'']) es
         | t # ts \<Rightarrow> if t = ''..'' then clean_elems rooted (''..'' # st) es else clean_elems rooted ts es)
      else clean_elems rooted (e # st) es)"

fun join_with :: "char \<Rightarrow> string list \<Rightarrow> string" where
  "join_with d [] = ''''"
| "join_with d [w] = w"
| "join_with d (w # ws) = w @ d # join_with d ws"

definition path_clean :: "string \<Rightarrow> string" where
  "path_clean s =
     (let rooted = has_prefix ''/'' s;
          r = (if rooted then ''/'' else '''') @ join_with slash (clean_elems rooted [] (split_on slash s))
      in if r = '''' then ''.'' else r)"

definition path_join :: "string list \<Rightarrow> string" where
  "path_join es =
     (let us = filter (\<lambda>e. e \<noteq> '''') es
      in if us = [] then '''' else path_clean (join_with slash us))"

text \<open>A plain element survives \<open>Join\<close> as it is.\<close>

definition plain_elem :: "string \<Rightarrow> bool" where
  "plain_elem e \<longleftrightarrow> e \<noteq> '''' \<and> e \<noteq> ''.'' \<and> e \<noteq> ''..'' \<and> slash \<notin> set e"

lemma clean_elems_plain: "\<forall>e \<in> set es. plain_elem e \<Longrightarrow> clean_elems rooted st es = rev st @ es"
  by (induction es arbitrary: st) (auto simp: plain_elem_def)

lemma split_on_join: "es \<noteq> [] \<Longrightarrow> \<forall>e \<in> set es. d \<notin> set e \<Longrightarrow> split_on d (join_with d es) = es"
  by (induction d es rule: join_with.induct) (auto simp: split_on_no_sep split_on_append)

lemma join_with_head: "join_with d ((c # w) # ws) = c # join_with d (w # ws)"
  by (cases ws) simp_all

lemma path_join_plain:
  assumes "es \<noteq> []" and "\<forall>e \<in> set es. plain_elem e"
  shows "path_join es = join_with slash es"
proof -
  have f: "filter (\<lambda>e. e \<noteq> '''') es = es" using assms(2) by (auto simp: plain_elem_def filter_id_conv)
  have sp: "split_on slash (join_with slash es) = es"
    using assms by (intro split_on_join) (auto simp: plain_elem_def)
  obtain e ws where e: "es = e # ws" using assms(1) by (cases es) auto
  moreover have "plain_elem e" using assms(2) e by simp
  moreover obtain c w where "e = c # w" using calculation(2) by (cases e) (auto simp: plain_elem_def)
  ultimately have es: "es = (c # w) # ws" "c \<noteq> slash" by (auto simp: plain_elem_def)
  then have hp: "\<not> has_prefix ''/'' (join_with slash es)" by (simp add: slash_def join_with_head)
  have ne: "join_with slash es \<noteq> ''''" using es(1) by (simp add: join_with_head)
  show ?thesis
    unfolding path_join_def Let_def f path_clean_def sp
    by (simp only: assms(1) hp ne clean_elems_plain [OF assms(2), of False "[]"] if_False rev.simps append.simps)
qed

lemma join_three_inj:
  assumes "slash \<notin> set i" and "slash \<notin> set j" and "join_with slash [a, i, m] = join_with slash [a, j, n]"
  shows "i = j \<and> m = n"
proof -
  have "i @ slash # m = j @ slash # n" using assms(3) by simp
  then have "cut_at slash (i @ slash # m) = cut_at slash (j @ slash # n)" by simp
  then show ?thesis using cut_at_append [OF assms(1)] cut_at_append [OF assms(2)] by simp
qed

lemma path_base_no_slash: "path_base s = ''/'' \<or> slash \<notin> set (path_base s)"
  by (auto simp: path_base_def Let_def slash_def dest: set_takeWhileD)

end
