(* ===== verification/Mime.thy ===== *)
theory Mime
  imports Reader Config GoPath
begin

text \<open>
  \<open>internal/api/http/mime.go\<close>: which content types are accepted, the magic bytes each must open with,
  and \<open>ValidateFile\<close>, which sniffs the head of an upload and hands on a reader that replays it under
  the size limit of its kind. \<open>mime.ParseMediaType\<close> of the standard library is modelled as far as its
  result is used: the media type, or that there is an error.
\<close>

section \<open>mime.ParseMediaType\<close>

definition is_tspecial :: "char \<Rightarrow> bool" where
  "is_tspecial c \<longleftrightarrow> List.member (''()<>@,;:'' @ [CHR 0x5C, CHR 0x22] @ ''/[]?='') c"

definition is_token_char :: "char \<Rightarrow> bool" where
  "is_token_char c \<longleftrightarrow> 32 < (of_char c :: nat) \<and> (of_char c :: nat) < 127 \<and> \<not> is_tspecial c"

definition consume_token :: "string \<Rightarrow> string \<times> string" where
  "consume_token s = (takeWhile is_token_char s, dropWhile is_token_char s)"

text \<open>The text of a quoted string up to its closing quote and what follows it.\<close>

fun quoted_text :: "string \<Rightarrow> (string \<times> string) option" where
  "quoted_text [] = None"
| "quoted_text (c # s) =
     (if c = CHR 0x22 then Some ([], s)
      else if c = CHR 0x5C \<and> s \<noteq> [] \<and> is_tspecial (hd s)
      then map_option (apfst (Cons (hd s))) (quoted_text (tl s))
      else if c = CHR 0x0D \<or> c = CHR 0x0A then None
      else map_option (apfst (Cons c)) (quoted_text s))"

definition consume_value :: "string \<Rightarrow> string \<times> string" where
  "consume_value v =
     (if has_prefix [CHR 0x22] v
      then (case quoted_text (tl v) of None \<Rightarrow> ('''', v) | Some (a, r) \<Rightarrow> (a, r))
      else consume_token v)"

text \<open>\<open>None\<close> stands for the empty parameter name.\<close>

definition consume_param :: "(string \<Rightarrow> string) \<Rightarrow> string \<Rightarrow> ((string \<times> string) \<times> string) option" where
  "consume_param uni v =
     (let r0 = trim_left v
      in if \<not> has_prefix '';'' r0 then None
         else let (p, r1) = consume_token (trim_left (tl r0)); r2 = trim_left r1
              in if to_lower uni p = '''' \<or> \<not> has_prefix ''='' r2 then None
                 else let r3 = trim_left (tl r2); (value, r4) = consume_value r3
                      in if value = '''' \<and> r4 = r3 then None
                         else Some ((to_lower uni p, value), r4))"

lemma length_strip: "length (strip_front rs s) \<le> length s"
  using strip_front_suffix [of s rs] by (metis le_add2 length_append)

lemma length_trim_left: "length (trim_left s) \<le> length s"
  by (simp add: trim_left_def length_strip)

lemma quoted_text_shorter: "quoted_text s = Some (a, r) \<Longrightarrow> length r < length s"
proof (induction s arbitrary: a r rule: quoted_text.induct)
  case (2 c s)
  then show ?case
    by (auto split: if_splits simp: less_Suc_eq)
qed simp

lemma length_consume_value: "length (snd (consume_value v)) \<le> length v"
  using quoted_text_shorter [of "tl v"]
  by (fastforce simp: consume_value_def consume_token_def length_dropWhile_le split: option.splits)

lemma consume_param_shorter:
  assumes "consume_param uni v = Some (kv, r)"
  shows "length r < length v"
proof -
  let ?r0 = "trim_left v"
  obtain p r1 where t: "consume_token (trim_left (tl ?r0)) = (p, r1)" by (metis prod.exhaust)
  let ?r2 = "trim_left r1"
  let ?r3 = "trim_left (tl ?r2)"
  have r: "r = snd (consume_value ?r3)" and p: "has_prefix '';'' ?r0"
    using assms t by (auto simp: consume_param_def Let_def split: if_splits prod.splits)
  have "length r \<le> length ?r3" using r length_consume_value by simp
  also have "\<dots> \<le> length ?r2" using length_trim_left [of "tl ?r2"] by (simp add: le_diff_conv)
  also have "\<dots> \<le> length r1" by (rule length_trim_left)
  also have "\<dots> \<le> length (trim_left (tl ?r0))" using t by (auto simp: consume_token_def length_dropWhile_le)
  also have "\<dots> \<le> length (tl ?r0)" by (rule length_trim_left)
  also have "\<dots> < length ?r0" using p by (cases ?r0) auto
  also have "\<dots> \<le> length v" by (rule length_trim_left)
  finally show ?thesis .
qed

text \<open>
  The parameters: whether they parse, given those seen so far. A lone trailing semicolon is allowed;
  a name that comes twice with different values is not.
\<close>

function params_ok :: "(string \<Rightarrow> string) \<Rightarrow> (string \<times> string) list \<Rightarrow> string \<Rightarrow> bool" where
  "params_ok uni seen v =
     (let w = trim_left v
      in if w = '''' then True
         else case consume_param uni w of
                None \<Rightarrow> trim_space w = '';''
              | Some ((k, x), r) \<Rightarrow>
                  (case map_of seen k of
                     Some y \<Rightarrow> y = x \<and> params_ok uni seen r
                   | None \<Rightarrow> params_ok uni ((k, x) # seen) r))"
  by pat_completeness auto
termination
  by (relation "measure (\<lambda>(uni, seen, v). length v)")
     (auto dest!: consume_param_shorter intro: less_le_trans length_trim_left)

declare params_ok.simps [simp del]

definition media_type_ok :: "string \<Rightarrow> bool" where
  "media_type_ok s =
     (let (typ, r) = consume_token s
      in typ \<noteq> '''' \<and>
         (r = '''' \<or>
          (has_prefix ''/'' r \<and> (let (sub, r2) = consume_token (tl r) in sub \<noteq> '''' \<and> r2 = ''''))))"

definition parse_media_type :: "(string \<Rightarrow> string) \<Rightarrow> string \<Rightarrow> string option" where
  "parse_media_type uni v =
     (let base = takeWhile (\<lambda>c. c \<noteq> CHR '';'') v; mt = trim_space (to_lower uni base)
      in if media_type_ok mt \<and> params_ok uni [] (drop (length base) v) then Some mt else None)"

section \<open>Rules\<close>

datatype media_kind = KindDocument | KindImage | KindVideo

fun kind_text :: "media_kind \<Rightarrow> string" where
  "kind_text KindDocument = ''document''"
| "kind_text KindImage = ''image''"
| "kind_text KindVideo = ''video''"

definition sniffLen :: nat where "sniffLen = 64"

definition ctPDF :: string where "ctPDF = ''application/pdf''"
definition ctDOC :: string where "ctDOC = ''application/msword''"
definition ctDOCX :: string where
  "ctDOCX = ''application/vnd.openxmlformats-officedocument.wordprocessingml.document''"
definition ctXLSX :: string where
  "ctXLSX = ''application/vnd.openxmlformats-officedocument.spreadsheetml.sheet''"
definition ctPPTX :: string where
  "ctPPTX = ''application/vnd.openxmlformats-officedocument.presentationml.presentation''"

definition anyOf :: "(bytes \<Rightarrow> bool) list \<Rightarrow> bytes \<Rightarrow> bool" where
  "anyOf fns head = list_ex (\<lambda>fn. fn head) fns"

definition isZipContainer :: "bytes \<Rightarrow> bool" where
  "isZipContainer head \<longleftrightarrow> has_prefix [CHR ''P'', CHR ''K'', CHR 0x03, CHR 0x04] head \<or>
     has_prefix [CHR ''P'', CHR ''K'', CHR 0x05, CHR 0x06] head"

text \<open>\<open>s[i:j]\<close>\<close>

definition slice :: "nat \<Rightarrow> nat \<Rightarrow> 'a list \<Rightarrow> 'a list" where
  "slice i j s = take (j - i) (drop i s)"

definition isWebP :: "bytes \<Rightarrow> bool" where
  "isWebP head \<longleftrightarrow> 12 \<le> length head \<and> has_prefix ''RIFF'' head \<and> slice 8 12 head = ''WEBP''"

definition isoBMFFBoxes :: "string list" where
  "isoBMFFBoxes = [''ftyp'', ''moov'', ''mdat'', ''free'', ''skip'', ''wide'', ''pnot'']"

definition big_endian :: "bytes \<Rightarrow> nat" where
  "big_endian bs = fold (\<lambda>c n. 256 * n + of_char c) bs 0"

definition isISOBMFF :: "bytes \<Rightarrow> bool" where
  "isISOBMFF head \<longleftrightarrow>
     (if length head < 12 then False
      else let size = big_endian (take 4 head)
           in if size \<noteq> 0 \<and> size \<noteq> 1 \<and> size < 8 then False
              else list_ex (\<lambda>box. slice 4 8 head = box) isoBMFFBoxes)"

definition allowed :: "string \<Rightarrow> (media_kind \<times> (bytes \<Rightarrow> bool)) option" where
  "allowed = map_of
     [(ctPDF, KindDocument, has_prefix ''%PDF-''),
      (ctDOC, KindDocument, has_prefix [CHR 0xD0, CHR 0xCF, CHR 0x11, CHR 0xE0, CHR 0xA1, CHR 0xB1, CHR 0x1A, CHR 0xE1]),
      (ctDOCX, KindDocument, isZipContainer),
      (ctXLSX, KindDocument, isZipContainer),
      (ctPPTX, KindDocument, isZipContainer),
      (''image/jpeg'', KindImage, has_prefix [CHR 0xFF, CHR 0xD8, CHR 0xFF]),
      (''image/png'', KindImage, has_prefix ([CHR 0x89] @ ''PNG'' @ [CHR 0x0D, CHR 0x0A, CHR 0x1A, CHR 0x0A])),
      (''image/gif'', KindImage, anyOf [has_prefix ''GIF87a'', has_prefix ''GIF89a'']),
      (''image/webp'', KindImage, isWebP),
      (''video/mp4'', KindVideo, isISOBMFF),
      (''video/quicktime'', KindVideo, isISOBMFF),
      (''video/webm'', KindVideo, has_prefix [CHR 0x1A, CHR 0x45, CHR 0xDF, CHR 0xA3])]"

definition extToMIME :: "string \<Rightarrow> string option" where
  "extToMIME = map_of
     [(''.pdf'', ctPDF), (''.doc'', ctDOC), (''.docx'', ctDOCX), (''.xlsx'', ctXLSX), (''.pptx'', ctPPTX),
      (''.jpg'', ''image/jpeg''), (''.jpeg'', ''image/jpeg''), (''.png'', ''image/png''),
      (''.webp'', ''image/webp''), (''.gif'', ''image/gif''), (''.mp4'', ''video/mp4''),
      (''.webm'', ''video/webm''), (''.mov'', ''video/quicktime'')]"

definition maxForKind :: "config \<Rightarrow> media_kind \<Rightarrow> int" where
  "maxForKind cfg kind = (case kind of
     KindDocument \<Rightarrow> MaxDocBytes cfg
   | KindImage \<Rightarrow> MaxImageBytes cfg
   | KindVideo \<Rightarrow> MaxVideoBytes cfg)"

definition normalizeCT :: "(string \<Rightarrow> string) \<Rightarrow> string \<Rightarrow> string" where
  "normalizeCT uni ct0 =
     (let ct = trim_space (to_lower uni ct0)
      in if ct = '''' then ''''
         else case parse_media_type uni ct of None \<Rightarrow> ct | Some media \<Rightarrow> media)"

definition displayCT :: "string \<Rightarrow> string" where
  "displayCT ct = (if ct = '''' then ''(none)'' else ct)"

definition resolveContentType :: "(string \<Rightarrow> string) \<Rightarrow> string \<Rightarrow> string \<Rightarrow> string" where
  "resolveContentType uni fileName declaredCT =
     (let ct = normalizeCT uni declaredCT
      in if ct = '''' \<or> ct = ''application/octet-stream''
         then (case extToMIME (to_lower uni (path_ext fileName)) of Some m \<Rightarrow> m | None \<Rightarrow> ct)
         else ct)"

section \<open>ValidateFile\<close>

record validated_file =
  VF_ContentType :: string
  VF_Kind :: media_kind
  VF_MaxBytes :: int
  VF_FileName :: string
  VF_Reader :: reader

text \<open>What \<open>ValidateFile\<close> does once it has the head.\<close>

definition validate_head ::
  "config \<Rightarrow> string \<Rightarrow> string \<Rightarrow> media_kind \<Rightarrow> (bytes \<Rightarrow> bool) \<Rightarrow> bytes \<Rightarrow> reader \<Rightarrow> goerr + validated_file" where
  "validate_head cfg fileName ct kind verify head r =
     (if \<not> verify head
      then Inl (werr ErrUnsupportedMedia (''content does not match declared type '' @ ct))
      else let mx = maxForKind cfg kind
           in Inr \<lparr>VF_ContentType = ct, VF_Kind = kind, VF_MaxBytes = mx, VF_FileName = fileName,
                   VF_Reader = Capped (Replay head r) mx 0 False\<rparr>)"

text \<open>The reader comes back too: when validation fails, the handler still has the part.\<close>

definition ValidateFile ::
  "(string \<Rightarrow> string) \<Rightarrow> config \<Rightarrow> string \<Rightarrow> string \<Rightarrow> reader \<Rightarrow> (goerr + validated_file) \<times> reader" where
  "ValidateFile uni cfg fileName declaredCT r =
     (let ct = resolveContentType uni fileName declaredCT
      in case allowed ct of
           None \<Rightarrow> (Inl (werr ErrUnsupportedMedia (displayCT ct)), r)
         | Some (kind, verify) \<Rightarrow>
             (case ReadFull sniffLen r of
                ((head, e), r1) \<Rightarrow>
                  (case e of
                     Some x \<Rightarrow>
                       (if \<not> errors_is x EOF \<and> \<not> errors_is x ErrUnexpectedEOF
                        then Inl (Wrapped (sentinel_text ErrInvalidInput @ '': read file head: '' @ err_text x)
                                    [Sentinel ErrInvalidInput, x])
                        else validate_head cfg fileName ct kind verify head r1, r1)
                   | None \<Rightarrow> (validate_head cfg fileName ct kind verify head r1, r1))))"

section \<open>Properties\<close>

lemma ValidateFile_InrD:
  assumes "ValidateFile uni cfg fileName declaredCT r = (Inr v, r1)"
  obtains kind verify head e where "allowed (resolveContentType uni fileName declaredCT) = Some (kind, verify)"
    and "ReadFull sniffLen r = ((head, e), r1)" and "verify head"
    and "v = \<lparr>VF_ContentType = resolveContentType uni fileName declaredCT, VF_Kind = kind,
               VF_MaxBytes = maxForKind cfg kind, VF_FileName = fileName,
               VF_Reader = Capped (Replay head r1) (maxForKind cfg kind) 0 False\<rparr>"
  using assms
  by (auto simp: ValidateFile_def validate_head_def Let_def
      split: option.splits prod.splits if_splits)

text \<open>A capped reader over a source of any size: it delivers the source, or it overflows.\<close>

lemma capped_fresh:
  assumes "delivers r bs e" and "0 \<le> mx" and "mx < max_int64" and "int (length bs) < max_int64"
  shows "if int (length bs) \<le> mx then delivers (Capped r mx 0 False) bs e else overflows (Capped r mx 0 False)"
  using assms by auto

text \<open>
  C35. A file that validation accepts is handed on whole and under its limit. The magic bytes were checked
  on its true head; the reader that goes to the object store delivers exactly the client's bytes, the
  sniffed ones included, when they fit the limit of the kind, and reports the excess (whatever the
  sizes of the reads) when they do not; the content type is one of the accepted ones.
\<close>
theorem validated_file_replayed_under_limit:
  assumes "ValidateFile uni cfg fileName declaredCT r = (Inr v, r1)" and "delivers r bs e"
    and "0 \<le> VF_MaxBytes v" and "VF_MaxBytes v < max_int64" and "int (length bs) < max_int64"
  shows "(\<exists>verify. allowed (VF_ContentType v) = Some (VF_Kind v, verify) \<and> verify (take 64 bs)) \<and>
    VF_MaxBytes v = maxForKind cfg (VF_Kind v) \<and>
    (if int (length bs) \<le> VF_MaxBytes v then delivers (VF_Reader v) bs e else overflows (VF_Reader v))"
  using assms(1)
proof (rule ValidateFile_InrD)
  fix kind verify head x
  assume al: "allowed (resolveContentType uni fileName declaredCT) = Some (kind, verify)"
    and rf: "ReadFull sniffLen r = ((head, x), r1)" and ok: "verify head"
    and v: "v = \<lparr>VF_ContentType = resolveContentType uni fileName declaredCT, VF_Kind = kind,
               VF_MaxBytes = maxForKind cfg kind, VF_FileName = fileName,
               VF_Reader = Capped (Replay head r1) (maxForKind cfg kind) 0 False\<rparr>"
  have head: "head = take 64 bs" and r1: "delivers r1 (drop 64 bs) e"
    using ReadFull_delivers [OF assms(2) rf] by (auto simp: sniffLen_def)
  have "delivers (Replay head r1) bs e"
    using r1 by (cases "64 \<le> length bs") (auto simp: head min_def)
  from capped_fresh [OF this, of "maxForKind cfg kind"] assms(3-5) al ok head v show ?thesis
    by (simp del: delivers.simps overflows.simps split: if_splits)
qed

definition png_head :: bytes where
  "png_head = [CHR 0x89] @ ''PNG'' @ [CHR 0x0D, CHR 0x0A, CHR 0x1A, CHR 0x0A]"

definition small_cfg :: config where
  "small_cfg = (derive_config (env_config id None bare_env))\<lparr>MaxImageBytes := 16, MaxTextBytes := 8\<rparr>"

lemma small_png:
  "ValidateFile id small_cfg ''a.png'' '''' (Stream [Data png_head None, Data ''xyz'' None]) =
     (Inr \<lparr>VF_ContentType = ''image/png'', VF_Kind = KindImage, VF_MaxBytes = 16, VF_FileName = ''a.png'',
           VF_Reader = Capped (Replay (png_head @ ''xyz'') (Stream [])) 16 0 False\<rparr>, Stream [])"
  by code_simp

theorem validated_file_replayed_under_limit_witness:
  "delivers (Capped (Replay (png_head @ ''xyz'') (Stream [])) 16 0 False) (png_head @ ''xyz'') (Sentinel EOF)"
proof -
  have "delivers (Stream [Data png_head None, Data ''xyz'' None]) (png_head @ ''xyz'') (Sentinel EOF)" by simp
  from validated_file_replayed_under_limit [OF small_png this] show ?thesis
    by (simp add: max_int64_def png_head_def)
qed

text \<open>
  What the client declares is not believed. For a body that arrives whole, validation accepts
  exactly when the resolved content type is on the list and the body opens with that type's magic
  bytes; in every other case the error is \<open>ErrUnsupportedMedia\<close>.
\<close>
theorem validation_decides:
  assumes "delivers r bs (Sentinel EOF)"
    and "ct = resolveContentType uni fileName declaredCT"
  shows "if (\<exists>kind verify. allowed ct = Some (kind, verify) \<and> verify (take 64 bs))
    then \<exists>v. fst (ValidateFile uni cfg fileName declaredCT r) = Inr v
    else \<exists>x. fst (ValidateFile uni cfg fileName declaredCT r) = Inl x \<and> errors_is x ErrUnsupportedMedia"
proof (cases "allowed ct")
  case None
  then show ?thesis by (simp add: ValidateFile_def assms(2) [symmetric])
next
  case (Some a)
  obtain kind verify where a: "a = (kind, verify)" by (cases a)
  obtain head e r1 where rf: "ReadFull sniffLen r = ((head, e), r1)" by (metis prod.exhaust)
  have head: "head = take 64 bs" and e: "e = None \<or> e = Some (Sentinel ErrUnexpectedEOF) \<or> e = Some (Sentinel EOF)"
    using ReadFull_delivers [OF assms(1) rf] by (cases "64 \<le> length bs"; auto simp: sniffLen_def)+
  have "fst (ValidateFile uni cfg fileName declaredCT r) = validate_head cfg fileName ct kind verify head r1"
    using e by (auto simp: ValidateFile_def assms(2) [symmetric] Some a rf)
  then show ?thesis by (simp add: Some a head validate_head_def Let_def)
qed

theorem validation_decides_witness:
  "\<exists>x. fst (ValidateFile id small_cfg ''a.png'' ''image/png'' (Stream [Data ''#!/bin/sh'' None])) = Inl x \<and>
     errors_is x ErrUnsupportedMedia"
proof -
  have "delivers (Stream [Data ''#!/bin/sh'' None]) ''#!/bin/sh'' (Sentinel EOF)" by simp
  note d = validation_decides [OF this, of "''image/png''" id "''a.png''" "''image/png''" small_cfg]
  have "resolveContentType id ''a.png'' ''image/png'' = ''image/png''" by code_simp
  moreover have "allowed ''image/png'' = Some (KindImage, has_prefix ([CHR 0x89] @ ''PNG'' @ [CHR 0x0D, CHR 0x0A, CHR 0x1A, CHR 0x0A]))"
    by (simp add: allowed_def ctPDF_def ctDOC_def ctDOCX_def ctXLSX_def ctPPTX_def)
  ultimately show ?thesis using d by simp
qed

end
