(* ===== verification/Service.thy ===== *)
theory Service
  imports Domain GoPath Reader
begin

text \<open>
  \<open>internal/service/job.go\<close>. A draft collects a job while its request is parsed: the file goes to the
  object store first, then the row to the repository, and an upload whose job does not come to be is
  deleted. The two ports the service is built on (\<open>domain.JobRepository\<close>, \<open>domain.ObjectStore\<close>) are
  arguments of its operations, as they are fields of \<open>JobService\<close>; what it relies on them for is the
  locale \<open>job_service\<close> of theory \<open>ServiceSpec\<close>. Spans and log lines are left out.
\<close>

section \<open>Object names\<close>

text \<open>\<open>[\w.\-]\<close>: the characters an object name keeps.\<close>

definition safe_char :: "char \<Rightarrow> bool" where
  "safe_char c \<longleftrightarrow> (let n = of_char c :: nat in
     (48 \<le> n \<and> n \<le> 57) \<or> (65 \<le> n \<and> n \<le> 90) \<or> (97 \<le> n \<and> n \<le> 122)) \<or>
     c = CHR ''_'' \<or> c = CHR ''.'' \<or> c = CHR ''-''"

text \<open>
  \<open>unsafeFileChars.ReplaceAllString(name, "_")\<close>: every maximal run of other characters becomes one
  underscore. A rune beyond ASCII is a run of bytes beyond ASCII, none of which is kept, so the
  bytes can be looked at one by one. The flag is whether a run is already being replaced.
\<close>

fun replace_unsafe :: "bool \<Rightarrow> string \<Rightarrow> string" where
  "replace_unsafe run [] = []"
| "replace_unsafe run (c # s) =
     (if safe_char c then c # replace_unsafe False s
      else if run then replace_unsafe True s
      else CHR ''_'' # replace_unsafe True s)"

definition trim_dots :: "string \<Rightarrow> string" where
  "trim_dots s = rev (dropWhile (\<lambda>c. c = CHR ''.'') (rev (dropWhile (\<lambda>c. c = CHR ''.'') s)))"

definition backslash :: char where
  "backslash = CHR 0x5C"

text \<open>\<open>now\<close> is \<open>time.Now().UnixNano()\<close>.\<close>

definition sanitizeFileName :: "time \<Rightarrow> string \<Rightarrow> string" where
  "sanitizeFileName now name =
     (let n1 = path_base (map (\<lambda>c. if c = backslash then slash else c) name);
          n2 = replace_unsafe False n1;
          n3 = trim_dots n2;
          n4 = (if 128 < length n3 then drop (length n3 - 128) n3 else n3)
      in if n4 = '''' then ''file-'' @ itoa now else n4)"

section \<open>Drafts\<close>

record draft =
  d_job :: job
  uploaded :: bool
  committed :: bool

definition NewDraft :: "string \<Rightarrow> string \<Rightarrow> draft" where
  "NewDraft uuid traceContext =
     \<lparr>d_job = zero_job\<lparr>ID := uuid, Status := StatusPending, TraceContext := traceContext\<rparr>,
      uploaded = False, committed = False\<rparr>"

definition SetIdempotencyKey :: "string \<Rightarrow> draft \<Rightarrow> draft" where
  "SetIdempotencyKey key d = d\<lparr>d_job := (d_job d)\<lparr>IdempotencyKey := key\<rparr>\<rparr>"

definition SetText :: "string \<Rightarrow> draft \<Rightarrow> draft" where
  "SetText t d = d\<lparr>d_job := (d_job d)\<lparr>Text := trim_space t\<rparr>\<rparr>"

text \<open>An error of the deletion is only logged.\<close>

definition deleteQuietly :: "(string \<Rightarrow> 's \<Rightarrow> goerr option \<times> 's) \<Rightarrow> string \<Rightarrow> 's \<Rightarrow> 's" where
  "deleteQuietly del key st = snd (del key st)"

definition objectKey :: "time \<Rightarrow> string \<Rightarrow> draft \<Rightarrow> string" where
  "objectKey now fileName d = path_join [''jobs'', ID (d_job d), sanitizeFileName now fileName]"

text \<open>The body comes back as far as it was read.\<close>

definition AttachFile ::
  "(string \<Rightarrow> reader \<Rightarrow> int \<Rightarrow> string \<Rightarrow> 's \<Rightarrow> ((goerr + int) \<times> reader) \<times> 's) \<Rightarrow>
   (string \<Rightarrow> 's \<Rightarrow> goerr option \<times> 's) \<Rightarrow>
   time \<Rightarrow> string \<Rightarrow> string \<Rightarrow> int \<Rightarrow> reader \<Rightarrow> draft \<Rightarrow> 's \<Rightarrow> (goerr option \<times> reader) \<times> draft \<times> 's" where
  "AttachFile put del now fileName contentType sizeHint body d st =
     (if uploaded d
      then ((Some (werr ErrInvalidInput ''only one file part is supported''), body), d, st)
      else let key = objectKey now fileName d
           in case put key body sizeHint contentType st of
                ((Inl e, b), st1) \<Rightarrow>
                  ((Some (wrap ''upload object'' e), b), d, deleteQuietly del key st1)
              | ((Inr written, b), st1) \<Rightarrow>
                  ((None, b),
                   d\<lparr>uploaded := True,
                     d_job := (d_job d)\<lparr>ObjectKey := key, FileName := fileName,
                                ContentType := contentType, SizeBytes := written\<rparr>\<rparr>,
                   st1))"

text \<open>
  \<open>Commit\<close>. \<open>Create\<close> fills the draft's job through the pointer it is given, so the draft has the
  filled job in every case.
\<close>

definition Commit ::
  "(job \<Rightarrow> 'p \<Rightarrow> (goerr option \<times> job) \<times> 'p) \<Rightarrow> (string \<Rightarrow> 'p \<Rightarrow> (goerr + job) \<times> 'p) \<Rightarrow>
   (string \<Rightarrow> 's \<Rightarrow> goerr option \<times> 's) \<Rightarrow>
   draft \<Rightarrow> 'p \<Rightarrow> 's \<Rightarrow> (goerr + job \<times> bool) \<times> draft \<times> 'p \<times> 's" where
  "Commit create getkey del d p st =
     (if Text (d_job d) = '''' \<and> \<not> uploaded d then (Inl (Sentinel ErrNoPayload), d, p, st)
      else case create (d_job d) p of
             ((None, j), p1) \<Rightarrow> (Inr (j, False), d\<lparr>d_job := j, committed := True\<rparr>, p1, st)
           | ((Some e, j), p1) \<Rightarrow>
               (let d1 = d\<lparr>d_job := j\<rparr>;
                    st1 = (if uploaded d then deleteQuietly del (ObjectKey j) st else st)
                in if errors_is e ErrDuplicateKey
                   then case getkey (IdempotencyKey j) p1 of
                          (Inl e2, p2) \<Rightarrow> (Inl (wrap ''resolve idempotent replay'' e2), d1, p2, st1)
                        | (Inr existing, p2) \<Rightarrow> (Inr (existing, True), d1, p2, st1)
                   else (Inl (wrap ''persist job'' e), d1, p1, st1)))"

definition Discard :: "(string \<Rightarrow> 's \<Rightarrow> goerr option \<times> 's) \<Rightarrow> draft \<Rightarrow> 's \<Rightarrow> 's" where
  "Discard del d st =
     (if committed d \<or> \<not> uploaded d then st else deleteQuietly del (ObjectKey (d_job d)) st)"

section \<open>The other operations\<close>

definition FindByIdempotencyKey ::
  "(string \<Rightarrow> 'p \<Rightarrow> (goerr + job) \<times> 'p) \<Rightarrow> string \<Rightarrow> 'p \<Rightarrow> (goerr + job) \<times> 'p" where
  "FindByIdempotencyKey getkey key p =
     (if key = '''' then (Inl (Sentinel ErrNotFound), p) else getkey key p)"

definition PingDeps ::
  "('p \<Rightarrow> goerr option \<times> 'p) \<Rightarrow> ('s \<Rightarrow> goerr option \<times> 's) \<Rightarrow> 'p \<Rightarrow> 's \<Rightarrow> goerr option \<times> 'p \<times> 's" where
  "PingDeps pingRepo pingStore p st =
     (case pingRepo p of
        (Some e, p1) \<Rightarrow> (Some e, p1, st)
      | (None, p1) \<Rightarrow> (case pingStore st of (r, st1) \<Rightarrow> (r, p1, st1)))"

section \<open>Object names are safe\<close>

lemma replace_unsafe_safe: "c \<in> set (replace_unsafe r s) \<Longrightarrow> safe_char c"
  by (induction r s rule: replace_unsafe.induct) (auto simp: safe_char_def split: if_splits)

lemma trim_dots_set: "set (trim_dots s) \<subseteq> set s"
  by (auto simp: trim_dots_def dest!: set_dropWhileD)

lemma trim_dots_last: "trim_dots s \<noteq> '''' \<Longrightarrow> last (trim_dots s) \<noteq> CHR ''.''"
  using hd_dropWhile [of "\<lambda>c. c = CHR ''.''" "rev (dropWhile (\<lambda>c. c = CHR ''.'') s)"]
  by (auto simp: trim_dots_def last_rev)

lemma is_digit_safe: "is_digit c \<Longrightarrow> safe_char c"
  by (auto simp: is_digit_def digit_val_def safe_char_def Let_def split: if_splits)

lemma nat_digits_safe: "c \<in> set (nat_digits n) \<Longrightarrow> is_digit c"
proof (induction n rule: nat_digits.induct)
  case (1 n)
  have d: "is_digit (char_of (48 + k))" if "k < 10" for k :: nat
    using digit_val_char_of [OF that] by (simp add: is_digit_def)
  show ?case
    using 1 d [of n] d [of "n mod 10"] by (subst (asm) (2) nat_digits.simps) (auto split: if_splits)
qed

lemma itoa_safe: "c \<in> set (itoa n) \<Longrightarrow> safe_char c"
  using is_digit_safe [OF nat_digits_safe] by (auto simp: itoa_def safe_char_def split: if_splits)

lemma sanitize_safe: "c \<in> set (sanitizeFileName now name) \<Longrightarrow> safe_char c"
proof -
  assume c: "c \<in> set (sanitizeFileName now name)"
  have pre: "\<forall>c \<in> set ''file-''. safe_char c" by (simp add: safe_char_def)
  have td: "safe_char c" if "c \<in> set (trim_dots (replace_unsafe r s))" for r s
    using that trim_dots_set replace_unsafe_safe by blast
  from c show "safe_char c"
    unfolding sanitizeFileName_def Let_def
    using pre itoa_safe td by (auto split: if_splits dest!: in_set_dropD)
qed

lemma nat_digits_length: "n < 10 ^ k \<Longrightarrow> 0 < k \<Longrightarrow> length (nat_digits n) \<le> k"
proof (induction n arbitrary: k rule: nat_digits.induct)
  case (1 n)
  show ?case
  proof (cases "n < 10")
    case False
    with "1.prems" obtain m where k: "k = Suc m" "0 < m" by (cases k) (auto simp: not_less, cases "k - 1", auto)
    have "length (nat_digits (n div 10)) \<le> m"
      using 1(1) [OF False _ k(2)] "1.prems"(1) by (simp add: k(1) div_less_iff_less_mult mult.commute)
    with False k(1) show ?thesis by (subst nat_digits.simps) simp
  qed (use "1.prems" in \<open>simp add: nat_digits.simps\<close>)
qed

lemma itoa_length: "- (2 ^ 63) \<le> n \<Longrightarrow> n < 2 ^ 63 \<Longrightarrow> length (itoa n) \<le> 20"
  using nat_digits_length [of "nat n" 19] nat_digits_length [of "nat (- n)" 19]
  by (cases "n < 0") (auto simp: itoa_def nat_less_iff)

lemma sanitize_length:
  "- (2 ^ 63) \<le> now \<Longrightarrow> now < 2 ^ 63 \<Longrightarrow> length (sanitizeFileName now name) \<le> 128"
  using itoa_length [of now] by (auto simp: sanitizeFileName_def Let_def)

lemma slash_unsafe: "\<not> safe_char slash"
  by (simp add: safe_char_def slash_def)

lemma sanitize_plain: "plain_elem (sanitizeFileName now name)"
proof -
  define n3 where "n3 = trim_dots (replace_unsafe False (path_base (map (\<lambda>c. if c = backslash then slash else c) name)))"
  define n4 where "n4 = (if 128 < length n3 then drop (length n3 - 128) n3 else n3)"
  have eq: "sanitizeFileName now name = (if n4 = '''' then ''file-'' @ itoa now else n4)"
    by (simp add: sanitizeFileName_def Let_def n3_def n4_def)
  have n3: "n3 = '''' \<or> last n3 \<noteq> CHR ''.''" using trim_dots_last by (auto simp: n3_def)
  have "n4 = '''' \<or> last n4 \<noteq> CHR ''.''"
  proof (cases "128 < length n3")
    case True
    with n3 show ?thesis by (auto simp: n4_def)
  qed (use n3 in \<open>simp add: n4_def\<close>)
  then have "sanitizeFileName now name \<notin> {'''', ''.'', ''..''}" unfolding eq by (auto split: if_splits)
  moreover have "slash \<notin> set (sanitizeFileName now name)"
    using sanitize_safe slash_unsafe by blast
  ultimately show ?thesis by (simp add: plain_elem_def)
qed

lemma objectKey_form:
  assumes "plain_elem (ID (d_job d))"
  shows "objectKey now fileName d = join_with slash [''jobs'', ID (d_job d), sanitizeFileName now fileName]"
proof -
  have "plain_elem ''jobs''" by (simp add: plain_elem_def slash_def)
  with assms sanitize_plain show ?thesis
    unfolding objectKey_def by (intro path_join_plain) auto
qed

end
