(* ===== verification/Handlers.thy ===== *)
theory Handlers
  imports Mime Service
begin

text \<open>
  \<open>internal/api/http/handlers.go\<close> and \<open>response.go\<close>: from a parsed request to a response. The
  request's multipart body is the list of what \<open>NextPart\<close> returns, one part or one error at a time; the
  limit (\<open>maxRequestBytes\<close>) that \<open>http.MaxBytesReader\<close> puts on the whole request shows as an error of a part's stream or of
  \<open>NextPart\<close>. Rendering (JSON, RFC 3339), log lines and the request id in error bodies are left out: a response
  carries the values that are rendered.
\<close>

section \<open>Responses\<close>

record jobResponse =
  JR_ID :: string
  JR_Status :: string
  JR_Text :: string
  JR_FileName :: string
  JR_ContentType :: string
  JR_SizeBytes :: int
  JR_ResultSummary :: string
  JR_ErrorMessage :: string
  JR_Attempts :: int
  JR_CreatedAt :: time
  JR_UpdatedAt :: time
  JR_CompletedAt :: "time option"

definition toJobResponse :: "job \<Rightarrow> jobResponse" where
  "toJobResponse j =
     \<lparr>JR_ID = ID j, JR_Status = status_text (Status j), JR_Text = Text j, JR_FileName = FileName j,
      JR_ContentType = ContentType j, JR_SizeBytes = SizeBytes j, JR_ResultSummary = ResultSummary j,
      JR_ErrorMessage = ErrorMessage j, JR_Attempts = Attempts j, JR_CreatedAt = CreatedAt j,
      JR_UpdatedAt = UpdatedAt j, JR_CompletedAt = CompletedAt j\<rparr>"

datatype resp_body = JobBody jobResponse | ErrorBody string string | RawBody string | NoBody

record response =
  R_status :: int
  R_headers :: "(string \<times> string) list"
  R_body :: resp_body

text \<open>A handler that returns without writing anything leaves \<open>net/http\<close> to send an empty 200.\<close>

definition unwritten :: response where
  "unwritten = \<lparr>R_status = 200, R_headers = [], R_body = NoBody\<rparr>"

definition error_resp :: "string \<Rightarrow> int \<Rightarrow> string \<Rightarrow> response" where
  "error_resp code st msg = \<lparr>R_status = st, R_headers = [], R_body = ErrorBody code msg\<rparr>"

definition writeError :: "goerr \<Rightarrow> response" where
  "writeError e =
     (if errors_is e ErrNotFound then error_resp ''not_found'' 404 ''job not found''
      else if errors_is e ErrNoPayload \<or> errors_is e ErrInvalidInput
        then error_resp ''bad_request'' 400 (err_text e)
      else if errors_is e ErrUnsupportedMedia
        then error_resp ''unsupported_media_type'' 415 (err_text e)
      else if errors_is e ErrPayloadTooLarge
        then error_resp ''payload_too_large'' 413 (err_text e)
      else if errors_is e ErrUnauthorized
        then error_resp ''unauthorized'' 401 ''valid API key required''
      else if errors_is e ErrTooManyUploads
        then (error_resp ''too_many_uploads'' 503 ''upload capacity exhausted, retry shortly'')
               \<lparr>R_headers := [(''Retry-After'', ''5'')]\<rparr>
      else if errors_is e Canceled then unwritten
      else error_resp ''internal_error'' 500 ''internal error'')"

definition writeJob :: "job \<Rightarrow> bool \<Rightarrow> response" where
  "writeJob j replayed =
     \<lparr>R_status = 202,
      R_headers = (''Location'', ''/api/v1/jobs/'' @ ID j) #
        (if replayed then [(''Idempotency-Replayed'', ''true'')] else []),
      R_body = JobBody (toJobResponse j)\<rparr>"

section \<open>Parts\<close>

record form_part =
  FormName :: string
  PartFileName :: string
  PartCT :: string \<comment> \<open>the part's Content-Type header\<close>
  PartBody :: reader

datatype part_ev = Part form_part | PartErr goerr

definition mapReadError :: "goerr \<Rightarrow> goerr" where
  "mapReadError e =
     (case as_max_bytes e of
        Some n \<Rightarrow> werr ErrPayloadTooLarge (''request limit is '' @ itoa n @ '' bytes'')
      | None \<Rightarrow>
          (if errors_is e ErrPayloadTooLarge then e
           else Wrapped (sentinel_text ErrInvalidInput @ '': '' @ err_text e) [Sentinel ErrInvalidInput, e]))"

definition readTextPart :: "reader \<Rightarrow> int \<Rightarrow> goerr + string" where
  "readTextPart body mx =
     (case ReadAllLimit (i64 (mx + 1)) body of
        ((b, Some e), _) \<Rightarrow> Inl (mapReadError e)
      | ((b, None), _) \<Rightarrow>
          (if int (length b) > mx
           then Inl (werr ErrPayloadTooLarge (''text limit is '' @ itoa mx @ '' bytes''))
           else Inr b))"

definition framingSlackBytes :: int where "framingSlackBytes = 2 ^ 20"

definition maxRequestBytes :: "config \<Rightarrow> int" where
  "maxRequestBytes cfg =
     (let m = fold (\<lambda>n m. if n > m then n else m) [MaxDocBytes cfg, MaxImageBytes cfg] (MaxVideoBytes cfg)
      in i64 (i64 (m + MaxTextBytes cfg) + framingSlackBytes))"

section \<open>The upload slots\<close>

text \<open>
  What happens to a request that finds no free slot within its two seconds: one is given back, its
  context ends, or the timer fires. \<open>used\<close> is the length of the channel \<open>uploadSlots\<close>.
\<close>

datatype slot_wait = SlotFreed | SlotCtxDone goerr | SlotTimeout

definition acquireUploadSlot :: "nat \<Rightarrow> nat \<Rightarrow> slot_wait \<Rightarrow> goerr option" where
  "acquireUploadSlot cap used ev =
     (if used < cap then None
      else case ev of SlotFreed \<Rightarrow> None | SlotCtxDone e \<Rightarrow> Some e
                    | SlotTimeout \<Rightarrow> Some (Sentinel ErrTooManyUploads))"

definition newHandlerSlots :: "config \<Rightarrow> nat" where
  "newHandlerSlots cfg = nat (if MaxConcurrentUploads cfg < 1 then 1 else MaxConcurrentUploads cfg)"

section \<open>The ports, and the environment of a request\<close>

record ('p, 's) ports =
  P_create :: "job \<Rightarrow> 'p \<Rightarrow> (goerr option \<times> job) \<times> 'p"
  P_getkey :: "string \<Rightarrow> 'p \<Rightarrow> (goerr + job) \<times> 'p"
  P_get :: "string \<Rightarrow> 'p \<Rightarrow> (goerr + job) \<times> 'p"
  P_put :: "string \<Rightarrow> reader \<Rightarrow> int \<Rightarrow> string \<Rightarrow> 's \<Rightarrow> ((goerr + int) \<times> reader) \<times> 's"
  P_del :: "string \<Rightarrow> 's \<Rightarrow> goerr option \<times> 's"

record req =
  Q_multipart :: bool \<comment> \<open>\<open>r.MultipartReader\<close> succeeds\<close>
  Q_idem :: string \<comment> \<open>the \<open>Idempotency-Key\<close> header\<close>
  Q_parts :: "part_ev list"
  Q_trace :: string \<comment> \<open>\<open>traceContextHeader(ctx)\<close>\<close>
  Q_uuid :: string \<comment> \<open>the id \<open>uuid.NewString\<close> draws\<close>
  Q_now :: time \<comment> \<open>the clock, for a file name that has no usable character\<close>
  Q_slot :: "goerr option" \<comment> \<open>outcome of \<open>acquireUploadSlot\<close>\<close>

definition attachFile ::
  "(string \<Rightarrow> string) \<Rightarrow> config \<Rightarrow> ('p, 's) ports \<Rightarrow> req \<Rightarrow> form_part \<Rightarrow> draft \<Rightarrow> 's \<Rightarrow>
   goerr option \<times> draft \<times> 's" where
  "attachFile uni cfg ports q part d st =
     (if PartFileName part = '''' then (Some (werr ErrInvalidInput ''file part requires a filename''), d, st)
      else case fst (ValidateFile uni cfg (PartFileName part) (PartCT part) (PartBody part)) of
             Inl e \<Rightarrow> (Some e, d, st)
           | Inr v \<Rightarrow>
               (case Q_slot q of
                  Some e \<Rightarrow> (Some e, d, st)
                | None \<Rightarrow>
                    (case AttachFile (P_put ports) (P_del ports) (Q_now q) (VF_FileName v)
                            (VF_ContentType v) 0 (VF_Reader v) d st of
                       ((None, _), d1, st1) \<Rightarrow> (None, d1, st1)
                     | ((Some e, body), d1, st1) \<Rightarrow>
                         (Some (if Exceeded body
                                then werr ErrPayloadTooLarge
                                       (kind_text (VF_Kind v) @ '' limit is '' @ itoa (VF_MaxBytes v) @ '' bytes'')
                                else e), d1, st1))))"

text \<open>The loop over the parts: the draft so far, or the error that ends the request.\<close>

fun read_parts ::
  "(string \<Rightarrow> string) \<Rightarrow> config \<Rightarrow> ('p, 's) ports \<Rightarrow> req \<Rightarrow> part_ev list \<Rightarrow> draft \<Rightarrow> 's \<Rightarrow>
   goerr option \<times> draft \<times> 's" where
  "read_parts uni cfg ports q [] d st = (None, d, st)"
| "read_parts uni cfg ports q (PartErr e # evs) d st =
     (if errors_is e EOF then (None, d, st) else (Some (mapReadError e), d, st))"
| "read_parts uni cfg ports q (Part part # evs) d st =
     (if FormName part = ''text''
      then (case readTextPart (PartBody part) (MaxTextBytes cfg) of
              Inl e \<Rightarrow> (Some e, d, st)
            | Inr t \<Rightarrow> read_parts uni cfg ports q evs (SetText t d) st)
      else if FormName part = ''file''
      then (case attachFile uni cfg ports q part d st of
              (Some e, d1, st1) \<Rightarrow> (Some e, d1, st1)
            | (None, d1, st1) \<Rightarrow> read_parts uni cfg ports q evs d1 st1)
      else read_parts uni cfg ports q evs d st)"

definition maxIdempotencyKeyLen :: nat where "maxIdempotencyKeyLen = 255"

section \<open>CreateJob and GetJob\<close>

text \<open>After the fast path: the draft, the parts, \<open>Commit\<close>, and the deferred \<open>Discard\<close> on every way out.\<close>

definition submit ::
  "(string \<Rightarrow> string) \<Rightarrow> config \<Rightarrow> ('p, 's) ports \<Rightarrow> req \<Rightarrow> string \<Rightarrow> 'p \<Rightarrow> 's \<Rightarrow> response \<times> 'p \<times> 's" where
  "submit uni cfg ports q key p st =
     (let d0 = SetIdempotencyKey key (NewDraft (Q_uuid q) (Q_trace q))
      in case read_parts uni cfg ports q (Q_parts q) d0 st of
           (Some e, d1, st1) \<Rightarrow> (writeError e, p, Discard (P_del ports) d1 st1)
         | (None, d1, st1) \<Rightarrow>
             (case Commit (P_create ports) (P_getkey ports) (P_del ports) d1 p st1 of
                (Inl e, d2, p2, st2) \<Rightarrow> (writeError e, p2, Discard (P_del ports) d2 st2)
              | (Inr (j, replayed), d2, p2, st2) \<Rightarrow>
                  (writeJob j replayed, p2, Discard (P_del ports) d2 st2)))"

definition CreateJob ::
  "(string \<Rightarrow> string) \<Rightarrow> config \<Rightarrow> ('p, 's) ports \<Rightarrow> req \<Rightarrow> 'p \<Rightarrow> 's \<Rightarrow> response \<times> 'p \<times> 's" where
  "CreateJob uni cfg ports q p st =
     (if \<not> Q_multipart q
      then (writeError (werr ErrInvalidInput ''expected multipart/form-data''), p, st)
      else let key = trim_space (Q_idem q)
           in if key = '''' then submit uni cfg ports q key p st
              else if length key > maxIdempotencyKeyLen
              then (writeError (werr ErrInvalidInput
                      (''Idempotency-Key exceeds '' @ itoa (int maxIdempotencyKeyLen) @ '' characters'')), p, st)
              else case FindByIdempotencyKey (P_getkey ports) key p of
                     (Inr existing, p1) \<Rightarrow> (writeJob existing True, p1, st)
                   | (Inl _, p1) \<Rightarrow> submit uni cfg ports q key p1 st)"

definition GetJob :: "('p, 's) ports \<Rightarrow> string \<Rightarrow> 'p \<Rightarrow> response \<times> 'p" where
  "GetJob ports i p =
     (if i = '''' then (writeError (Sentinel ErrInvalidInput), p)
      else case P_get ports i p of
             (Inl e, p1) \<Rightarrow> (writeError e, p1)
           | (Inr j, p1) \<Rightarrow> (\<lparr>R_status = 200, R_headers = [], R_body = JobBody (toJobResponse j)\<rparr>, p1))"

section \<open>Probes\<close>

definition Healthz :: response where
  "Healthz = \<lparr>R_status = 200, R_headers = [], R_body = RawBody (''{\"status\":\"ok\"}'' @ [CHR 0x0A])\<rparr>"

definition Readyz :: "goerr option option \<Rightarrow> response" where
  "Readyz readyFn =
     (case readyFn of
        Some (Some e) \<Rightarrow> error_resp ''not_ready'' 503 (err_text e)
      | _ \<Rightarrow> \<lparr>R_status = 200, R_headers = [], R_body = RawBody (''{\"status\":\"ready\"}'' @ [CHR 0x0A])\<rparr>)"

section \<open>The trace header\<close>

text \<open>\<open>carrier\<close> is what the propagator injected; an absent key is the empty string.\<close>

definition traceContextHeader :: "(string \<Rightarrow> string) \<Rightarrow> string" where
  "traceContextHeader carrier =
     join_with (CHR '';'')
       (map (\<lambda>k. k @ ''='' @ carrier k) (filter (\<lambda>k. carrier k \<noteq> '''') [''traceparent'', ''tracestate'']))"

end
