(* ===== verification/S3Store.thy ===== *)
theory S3Store
  imports Reader Config
begin

text \<open>
  \<open>internal/storage/s3/store.go\<close>. The S3 service itself, reached through the AWS SDK, is a parameter:
  a record of the calls the store makes, over a state the store does not look into. What the store
  relies on is stated as the locale \<open>s3_service\<close> in theory \<open>S3Upload\<close>.

  A multipart upload runs several goroutines: the caller cuts the body into parts and sends them
  down a channel of capacity \<open>partConcurrency\<close>, and \<open>partConcurrency\<close> workers take parts from it and
  upload them. \<open>pipe\<close> is the state they share; \<open>pipe_step\<close> is one move of one of them. Which goroutine
  moves is not determined: \<open>Put\<close> takes a schedule, a list of moves that are tried in order (a move that
  is not enabled is skipped), and then lets the first enabled goroutine move until all are done.
\<close>

section \<open>The service, as the store calls it\<close>

record 's s3_api =
  api_put :: "string \<Rightarrow> int \<Rightarrow> reader \<Rightarrow> string \<Rightarrow> 's \<Rightarrow> (goerr option \<times> reader) \<times> 's"
    \<comment> \<open>PutObject: key, content length (0: not set), body, content type; the body comes back consumed\<close>
  api_create :: "string \<Rightarrow> string \<Rightarrow> 's \<Rightarrow> (goerr + string) \<times> 's"
    \<comment> \<open>CreateMultipartUpload: key, content type\<close>
  api_part :: "string \<Rightarrow> string \<Rightarrow> int \<Rightarrow> bytes \<Rightarrow> 's \<Rightarrow> (goerr + string) \<times> 's"
    \<comment> \<open>UploadPart: key, upload id, number, data; returns the ETag\<close>
  api_complete :: "string \<Rightarrow> string \<Rightarrow> (int \<times> string) list \<Rightarrow> 's \<Rightarrow> goerr option \<times> 's"
    \<comment> \<open>CompleteMultipartUpload: key, upload id, manifest\<close>
  api_abort :: "string \<Rightarrow> string \<Rightarrow> 's \<Rightarrow> 's"
    \<comment> \<open>AbortMultipartUpload, whose outcome the store ignores\<close>
  api_delete :: "string \<Rightarrow> 's \<Rightarrow> goerr option \<times> 's"
  api_head :: "'s \<Rightarrow> goerr option \<times> 's" \<comment> \<open>HeadBucket\<close>
  api_create_bucket :: "'s \<Rightarrow> goerr option \<times> 's"
  api_presign :: "string \<Rightarrow> duration \<Rightarrow> goerr + string"

section \<open>The store\<close>

record store_cfg =
  multipartThreshold :: int
  partSize :: int
  partConcurrency :: int

definition New :: "config \<Rightarrow> store_cfg" where
  "New cfg = \<lparr>multipartThreshold = S3MultipartThreshold cfg, partSize = S3PartSize cfg,
     partConcurrency = S3PartConcurrency cfg\<rparr>"

text \<open>
  The two clients of \<open>New\<close>: calls go to \<open>S3_ENDPOINT\<close>, presigned URLs name \<open>S3_PRESIGN_ENDPOINT\<close>, both with the
  same credentials. \<open>url_err\<close> is the error of \<open>url.Parse\<close>.
\<close>

record s3_client =
  cl_region :: string
  cl_access_key :: string
  cl_secret_key :: string
  cl_endpoint :: string
  cl_path_style :: bool

record store =
  st_client :: s3_client
  st_presign :: s3_client
  st_bucket :: string
  st_limits :: store_cfg

definition new_client :: "config \<Rightarrow> string \<Rightarrow> s3_client" where
  "new_client cfg endpoint = \<lparr>cl_region = S3Region cfg, cl_access_key = S3AccessKey cfg,
     cl_secret_key = S3SecretKey cfg, cl_endpoint = endpoint, cl_path_style = S3UsePathStyle cfg\<rparr>"

definition NewStore :: "(string \<Rightarrow> goerr option) \<Rightarrow> config \<Rightarrow> goerr + store" where
  "NewStore url_err cfg =
     (case url_err (S3Endpoint cfg) of
        Some e \<Rightarrow> Inl (wrap ''parse s3 endpoint'' e)
      | None \<Rightarrow> Inr \<lparr>st_client = new_client cfg (S3Endpoint cfg), st_presign = new_client cfg (S3PresignEndpoint cfg),
                  st_bucket = S3Bucket cfg, st_limits = New cfg\<rparr>)"

lemma NewStore_from_env:
  assumes "Load uni host env = Inr cfg" and "NewStore url_err cfg = Inr st"
  shows "st_limits st = New cfg \<and> (env ''S3_PRESIGN_ENDPOINT'' = '''' \<longrightarrow> st_presign st = st_client st) \<and>
    st_presign st = (st_client st)\<lparr>cl_endpoint := S3PresignEndpoint cfg\<rparr>"
proof -
  have "env ''S3_PRESIGN_ENDPOINT'' = '''' \<longrightarrow> S3PresignEndpoint cfg = S3Endpoint cfg"
    using load_returns_valid [OF assms(1)] by blast
  with assms(2) show ?thesis by (auto simp: NewStore_def new_client_def split: option.splits)
qed

definition EnsureBucket :: "'s s3_api \<Rightarrow> 's \<Rightarrow> goerr option \<times> 's" where
  "EnsureBucket api s =
     (case api_head api s of
        (None, s1) \<Rightarrow> (None, s1)
      | (Some _, s1) \<Rightarrow>
          (case api_create_bucket api s1 of
             (None, s2) \<Rightarrow> (None, s2)
           | (Some e, s2) \<Rightarrow> (Some (wrap ''create bucket'' e), s2)))"

definition putObject ::
  "'s s3_api \<Rightarrow> string \<Rightarrow> reader \<Rightarrow> int \<Rightarrow> string \<Rightarrow> 's \<Rightarrow> ((goerr + int) \<times> reader) \<times> 's" where
  "putObject api key body sz ct s =
     (case api_put api key (if sz > 0 then sz else 0) body ct s of
        ((None, b), s1) \<Rightarrow> ((Inr sz, b), s1)
      | ((Some e, b), s1) \<Rightarrow> ((Inl (wrap ''put object'' e), b), s1))"

text \<open>\<open>fill\<close>: read until the buffer is full; \<open>io.EOF\<close> only for the end of the stream.\<close>

definition fill :: "nat \<Rightarrow> reader \<Rightarrow> (bytes \<times> goerr option) \<times> reader" where
  "fill k r =
     (case read_loop k r of
        ((bs, e), r') \<Rightarrow>
          ((bs, case e of None \<Rightarrow> None
                | Some x \<Rightarrow> if errors_is x EOF then Some (Sentinel EOF) else Some x), r'))"

subsection \<open>The multipart pipeline\<close>

record part_job =
  pj_num :: int
  pj_data :: bytes

text \<open>
  Where the producer is: about to send the first buffer, about to fill a new one, about to send a
  part with the error its fill returned, or done with the result of \<open>produceParts\<close>. A worker is
  waiting for a part, uploading one, or has returned.
\<close>

datatype producer = PFirst bytes | PFill | PSend part_job "goerr option" | PDone "goerr option"

datatype uploader = UIdle | UBusy part_job | UExit

record 's pipe =
  p_body :: reader
  p_prod :: producer
  partNum :: int
  p_jobs :: "part_job list" \<comment> \<open>the channel, oldest first\<close>
  p_ups :: "uploader list"
  p_parts :: "(int \<times> string) list"
  p_total :: int
  gerr :: "goerr option" \<comment> \<open>the first error a worker returned\<close>
  gdone :: bool \<comment> \<open>\<open>gctx\<close> is cancelled\<close>
  s3 :: 's

datatype move =
    MFill \<comment> \<open>the producer fills a buffer\<close>
  | MSend \<comment> \<open>the producer's send goes through\<close>
  | MGiveUp \<comment> \<open>the producer sees \<open>ctx.Done\<close>\<close>
  | MTake nat \<comment> \<open>worker i receives a part\<close>
  | MUpload nat \<comment> \<open>worker i's UploadPart returns\<close>
  | MAbandon nat \<comment> \<open>worker i's UploadPart fails because \<open>gctx\<close> is cancelled\<close>
  | MExit nat \<comment> \<open>worker i finds the channel closed and empty\<close>
  | MCancel \<comment> \<open>the request's context is cancelled\<close>

text \<open>What \<open>produceParts\<close> does with the error of a fill once the part, if any, is sent.\<close>

definition after_fill :: "goerr option \<Rightarrow> producer" where
  "after_fill e = (case e of
     None \<Rightarrow> PFill
   | Some x \<Rightarrow> PDone (if errors_is x EOF then None else Some (wrap ''read part'' x)))"

definition upload_err :: "int \<Rightarrow> goerr \<Rightarrow> goerr" where
  "upload_err n e = wrap (''upload part '' @ itoa n) e"

definition set_up :: "nat \<Rightarrow> uploader \<Rightarrow> 's pipe \<Rightarrow> 's pipe" where
  "set_up i u p = p\<lparr>p_ups := (p_ups p)[i := u]\<rparr>"

text \<open>A worker returns an error: the group keeps the first one and cancels its context.\<close>

definition fail_up :: "nat \<Rightarrow> goerr \<Rightarrow> 's pipe \<Rightarrow> 's pipe" where
  "fail_up i e p = (set_up i UExit p)\<lparr>gerr := (case gerr p of None \<Rightarrow> Some e | x \<Rightarrow> x), gdone := True\<rparr>"

definition up_at :: "nat \<Rightarrow> 's pipe \<Rightarrow> uploader option" where
  "up_at i p = (if i < length (p_ups p) then Some (p_ups p ! i) else None)"

fun pipe_step ::
  "'s s3_api \<Rightarrow> string \<Rightarrow> string \<Rightarrow> store_cfg \<Rightarrow> move \<Rightarrow> 's pipe \<Rightarrow> 's pipe option" where
  "pipe_step api key uid c MFill p =
     (case p_prod p of
        PFill \<Rightarrow>
          (case fill (nat (partSize c)) (p_body p) of
             ((bs, e), b) \<Rightarrow>
               Some (p\<lparr>p_body := b,
                       p_prod := (if bs \<noteq> [] then PSend \<lparr>pj_num = partNum p, pj_data = bs\<rparr> e
                                else after_fill e)\<rparr>))
      | _ \<Rightarrow> None)"
| "pipe_step api key uid c MSend p =
     (if int (length (p_jobs p)) < partConcurrency c
      then case p_prod p of
             PFirst d \<Rightarrow> Some (p\<lparr>p_prod := PFill, partNum := partNum p + 1,
                                p_jobs := p_jobs p @ [\<lparr>pj_num = partNum p, pj_data = d\<rparr>]\<rparr>)
           | PSend j e \<Rightarrow> Some (p\<lparr>p_prod := after_fill e, partNum := partNum p + 1, p_jobs := p_jobs p @ [j]\<rparr>)
           | _ \<Rightarrow> None
      else None)"
| "pipe_step api key uid c MGiveUp p =
     (if gdone p
      then case p_prod p of
             PFirst _ \<Rightarrow> Some (p\<lparr>p_prod := PDone (Some (Sentinel Canceled))\<rparr>)
           | PSend _ _ \<Rightarrow> Some (p\<lparr>p_prod := PDone (Some (Sentinel Canceled))\<rparr>)
           | _ \<Rightarrow> None
      else None)"
| "pipe_step api key uid c (MTake i) p =
     (case (up_at i p, p_jobs p) of
        (Some UIdle, j # js) \<Rightarrow> Some (set_up i (UBusy j) (p\<lparr>p_jobs := js\<rparr>))
      | _ \<Rightarrow> None)"
| "pipe_step api key uid c (MUpload i) p =
     (case up_at i p of
        Some (UBusy j) \<Rightarrow>
          (case api_part api key uid (pj_num j) (pj_data j) (s3 p) of
             (Inr etag, s) \<Rightarrow>
               Some (set_up i UIdle (p\<lparr>s3 := s, p_parts := p_parts p @ [(pj_num j, etag)],
                                       p_total := p_total p + int (length (pj_data j))\<rparr>))
           | (Inl e, s) \<Rightarrow> Some (fail_up i (upload_err (pj_num j) e) (p\<lparr>s3 := s\<rparr>)))
      | _ \<Rightarrow> None)"
| "pipe_step api key uid c (MAbandon i) p =
     (case up_at i p of
        Some (UBusy j) \<Rightarrow>
          (if gdone p then Some (fail_up i (upload_err (pj_num j) (Sentinel Canceled)) p) else None)
      | _ \<Rightarrow> None)"
| "pipe_step api key uid c (MExit i) p =
     (case (up_at i p, p_jobs p, p_prod p) of
        (Some UIdle, [], PDone _) \<Rightarrow> Some (set_up i UExit p)
      | _ \<Rightarrow> None)"
| "pipe_step api key uid c MCancel p = Some (p\<lparr>gdone := True\<rparr>)"

definition pipe_init :: "store_cfg \<Rightarrow> bytes option \<Rightarrow> reader \<Rightarrow> 's \<Rightarrow> 's pipe" where
  "pipe_init c first body s =
     \<lparr>p_body = body, p_prod = (case first of None \<Rightarrow> PFill | Some d \<Rightarrow> PFirst d), partNum = 1,
      p_jobs = [], p_ups = replicate (nat (partConcurrency c)) UIdle, p_parts = [], p_total = 0,
      gerr = None, gdone = False, s3 = s\<rparr>"

text \<open>All goroutines have returned: \<open>g.Wait\<close> comes back.\<close>

definition pipe_done :: "'s pipe \<Rightarrow> bool" where
  "pipe_done p \<longleftrightarrow> (case p_prod p of PDone _ \<Rightarrow> True | _ \<Rightarrow> False) \<and>
     list_all (\<lambda>u. u = UExit) (p_ups p)"

fun run_sched ::
  "'s s3_api \<Rightarrow> string \<Rightarrow> string \<Rightarrow> store_cfg \<Rightarrow> move list \<Rightarrow> 's pipe \<Rightarrow> 's pipe" where
  "run_sched api key uid c [] p = p"
| "run_sched api key uid c (m # ms) p =
     (case pipe_step api key uid c m p of
        None \<Rightarrow> run_sched api key uid c ms p
      | Some q \<Rightarrow> run_sched api key uid c ms q)"

text \<open>
  Finishing: one move of the first goroutine that can move, as long as there is one. The fuel is the
  potential of the pipe, which every such move lowers (\<open>pipe_step_potential\<close> in \<open>S3Upload\<close>).
\<close>

definition pipe_moves :: "'s pipe \<Rightarrow> move list" where
  "pipe_moves p = [MGiveUp, MSend, MFill] @
     concat (map (\<lambda>i. [MUpload i, MTake i, MExit i]) [0..<length (p_ups p)])"

fun first_step ::
  "'s s3_api \<Rightarrow> string \<Rightarrow> string \<Rightarrow> store_cfg \<Rightarrow> move list \<Rightarrow> 's pipe \<Rightarrow> 's pipe option" where
  "first_step api key uid c [] p = None"
| "first_step api key uid c (m # ms) p =
     (case pipe_step api key uid c m p of None \<Rightarrow> first_step api key uid c ms p | Some q \<Rightarrow> Some q)"

definition prod_potential :: "nat \<Rightarrow> producer \<Rightarrow> nat" where
  "prod_potential w q = (case q of
     PFirst _ \<Rightarrow> 5 * w + 10
   | PFill \<Rightarrow> 5 * w + 6
   | PSend _ None \<Rightarrow> 5 * w + 10
   | PSend _ (Some _) \<Rightarrow> 4
   | PDone _ \<Rightarrow> 0)"

fun up_potential :: "uploader \<Rightarrow> nat" where
  "up_potential UIdle = 1"
| "up_potential (UBusy _) = 3"
| "up_potential UExit = 0"

definition potential :: "'s pipe \<Rightarrow> nat" where
  "potential p = prod_potential (weight (p_body p)) (p_prod p) + 3 * length (p_jobs p) +
     sum_list (map up_potential (p_ups p))"

fun drive :: "nat \<Rightarrow> 's s3_api \<Rightarrow> string \<Rightarrow> string \<Rightarrow> store_cfg \<Rightarrow> 's pipe \<Rightarrow> 's pipe" where
  "drive 0 api key uid c p = p"
| "drive (Suc n) api key uid c p =
     (case first_step api key uid c (pipe_moves p) p of
        None \<Rightarrow> p
      | Some q \<Rightarrow> drive n api key uid c q)"

definition run_pipe ::
  "'s s3_api \<Rightarrow> string \<Rightarrow> string \<Rightarrow> store_cfg \<Rightarrow> move list \<Rightarrow> 's pipe \<Rightarrow> 's pipe" where
  "run_pipe api key uid c sched p =
     (let q = run_sched api key uid c sched p in drive (potential q) api key uid c q)"

text \<open>After \<open>g.Wait\<close>: abort on an error, the producer's first; else complete with the sorted manifest.\<close>

definition finish_pipe :: "'s s3_api \<Rightarrow> string \<Rightarrow> string \<Rightarrow> 's pipe \<Rightarrow> (goerr + int) \<times> 's" where
  "finish_pipe api key uid p =
     (let produceErr = (case p_prod p of PDone e \<Rightarrow> e | _ \<Rightarrow> None)
      in case produceErr of
           Some e \<Rightarrow> (Inl e, api_abort api key uid (s3 p))
         | None \<Rightarrow>
             (case gerr p of
                Some e \<Rightarrow> (Inl e, api_abort api key uid (s3 p))
              | None \<Rightarrow>
                  (case api_complete api key uid (sort_key fst (p_parts p)) (s3 p) of
                     (None, s1) \<Rightarrow> (Inr (p_total p), s1)
                   | (Some e, s1) \<Rightarrow> (Inl (wrap ''complete multipart'' e), api_abort api key uid s1))))"

definition putMultipartFromFirst ::
  "'s s3_api \<Rightarrow> store_cfg \<Rightarrow> move list \<Rightarrow> string \<Rightarrow> bytes option \<Rightarrow> reader \<Rightarrow> string \<Rightarrow> 's
   \<Rightarrow> ((goerr + int) \<times> reader) \<times> 's" where
  "putMultipartFromFirst api c sched key first body ct s =
     (case api_create api key ct s of
        (Inl e, s1) \<Rightarrow> ((Inl (wrap ''create multipart'' e), body), s1)
      | (Inr uid, s1) \<Rightarrow>
          (let p = run_pipe api key uid c sched (pipe_init c first body s1);
               (r, s2) = finish_pipe api key uid p
           in ((r, p_body p), s2)))"

definition putAuto ::
  "'s s3_api \<Rightarrow> store_cfg \<Rightarrow> move list \<Rightarrow> string \<Rightarrow> reader \<Rightarrow> string \<Rightarrow> 's
   \<Rightarrow> ((goerr + int) \<times> reader) \<times> 's" where
  "putAuto api c sched key body ct s =
     (case fill (nat (partSize c)) body of
        ((bs, Some e), b) \<Rightarrow>
          (if errors_is e EOF
           then case putObject api key (Stream [Data bs None]) (int (length bs)) ct s of
                  ((r, _), s1) \<Rightarrow> ((r, b), s1)
           else ((Inl (wrap ''read first part'' e), b), s))
      | ((bs, None), b) \<Rightarrow> putMultipartFromFirst api c sched key (Some bs) b ct s)"

definition Put ::
  "'s s3_api \<Rightarrow> store_cfg \<Rightarrow> move list \<Rightarrow> string \<Rightarrow> reader \<Rightarrow> int \<Rightarrow> string \<Rightarrow> 's
   \<Rightarrow> ((goerr + int) \<times> reader) \<times> 's" where
  "Put api c sched key body sz ct s =
     (if sz > 0 \<and> sz < multipartThreshold c then putObject api key body sz ct s
      else if sz > 0 then putMultipartFromFirst api c sched key None body ct s
      else putAuto api c sched key body ct s)"

definition Delete :: "'s s3_api \<Rightarrow> string \<Rightarrow> 's \<Rightarrow> goerr option \<times> 's" where
  "Delete api key s =
     (if key = '''' then (None, s)
      else case api_delete api key s of
             (None, s1) \<Rightarrow> (None, s1)
           | (Some e, s1) \<Rightarrow> (Some (wrap ''delete object'' e), s1))"

definition PresignGet :: "'s s3_api \<Rightarrow> string \<Rightarrow> duration \<Rightarrow> goerr + string" where
  "PresignGet api key expiry =
     (case api_presign api key expiry of Inl e \<Rightarrow> Inl (wrap ''presign get'' e) | Inr u \<Rightarrow> Inr u)"

definition StorePing :: "'s s3_api \<Rightarrow> 's \<Rightarrow> goerr option \<times> 's" where
  "StorePing api s =
     (case api_head api s of
        (None, s1) \<Rightarrow> (None, s1)
      | (Some e, s1) \<Rightarrow> (Some (wrap ''s3 ping'' e), s1))"

end
