(* ===== verification/S3Upload.thy ===== *)
theory S3Upload
  imports S3Store
begin

text \<open>
  The upload path is correct. The locale \<open>s3_service\<close> says what the store relies on of S3 (documented
  behaviour of the calls: atomic puts, parts kept by number, a completion that assembles the listed
  parts in ascending order). In it: every schedule of the multipart pipeline keeps each part's
  bytes and number, no schedule gets stuck or runs for ever, at most \<open>1 + 2 * partConcurrency\<close> part
  buffers are held at a time, and \<open>Put\<close> stores exactly the bytes the reader delivers or reports an
  error. The in-process S3 of the package's tests is one such service.
\<close>

section \<open>The contract of the service\<close>

locale s3_service =
  fixes api :: "'s s3_api"
    and objs :: "'s \<Rightarrow> string \<Rightarrow> bytes option"
    and mparts :: "'s \<Rightarrow> string \<Rightarrow> (int \<Rightarrow> bytes option) option"
  assumes put_ok: "api_put api key len body ct s = ((None, b), s') \<Longrightarrow> delivers body bs e \<Longrightarrow>
      e = Sentinel EOF \<and> (0 < len \<longrightarrow> len = int (length bs)) \<and> objs s' = (objs s)(key := Some bs)"
    and put_over: "api_put api key len body ct s = ((r, b), s') \<Longrightarrow> overflows body \<Longrightarrow> r \<noteq> None"
    and put_frame: "api_put api key len body ct s = ((r, b), s') \<Longrightarrow> k \<noteq> key \<Longrightarrow> objs s' k = objs s k"
    and create_ok: "api_create api key ct s = (Inr uid, s') \<Longrightarrow>
      objs s' = objs s \<and> mparts s' uid = Some (\<lambda>_. None)"
    and create_err: "api_create api key ct s = (Inl x, s') \<Longrightarrow> objs s' = objs s"
    and part_ok: "api_part api key uid n d s = (Inr etag, s') \<Longrightarrow> mparts s uid = Some ps \<Longrightarrow>
      mparts s' uid = Some (ps(n := Some d))"
    and part_objs: "objs (snd (api_part api key uid n d s)) = objs s"
    and complete_ok: "api_complete api key uid m s = (None, s') \<Longrightarrow> mparts s uid = Some ps \<Longrightarrow>
      sorted_wrt (<) (map fst m) \<Longrightarrow> dom ps = set (map fst m) \<Longrightarrow>
      objs s' = (objs s)(key := Some (concat (map (\<lambda>n. the (ps n)) (map fst m))))"
    and complete_frame: "k \<noteq> key \<Longrightarrow> objs (snd (api_complete api key uid m s)) k = objs s k"
    and abort_objs: "objs (api_abort api key uid s) = objs s"
    and delete_ok: "api_delete api key s = (None, s') \<Longrightarrow> objs s' = (objs s)(key := None)"
    and delete_frame: "k \<noteq> key \<Longrightarrow> objs (snd (api_delete api key s)) k = objs s k"
    and head_objs: "objs (snd (api_head api s)) = objs s"

section \<open>Buffers and progress, for any service\<close>

fun busy_of :: "uploader \<Rightarrow> part_job list" where
  "busy_of (UBusy j) = [j]"
| "busy_of _ = []"

definition busy_jobs :: "uploader list \<Rightarrow> part_job list" where
  "busy_jobs us = concat (map busy_of us)"

definition in_flight :: "'s pipe \<Rightarrow> part_job list" where
  "in_flight p = p_jobs p @ busy_jobs (p_ups p)"

fun producer_buffers :: "producer \<Rightarrow> nat" where
  "producer_buffers (PFirst _) = 1"
| "producer_buffers (PSend _ _) = 1"
| "producer_buffers _ = 0"

text \<open>
  Part buffers checked out of the pool: the producer's (a fill takes one and gives it back or
  passes it on within one move, hence the extra one while it fills), the channel's and the workers'.
\<close>

definition buffers_held :: "'s pipe \<Rightarrow> nat" where
  "buffers_held p = (case p_prod p of PFill \<Rightarrow> 1 | q \<Rightarrow> producer_buffers q) +
     length (p_jobs p) + length (busy_jobs (p_ups p))"

lemma busy_jobs_length: "length (busy_jobs us) \<le> length us"
proof (induction us)
  case (Cons u us)
  then show ?case by (cases u) (auto simp: busy_jobs_def)
qed (simp add: busy_jobs_def)

lemma ups_split:
  assumes "up_at i p = Some u"
  obtains a b where "p_ups p = a @ u # b" and "length a = i"
    and "\<And>v. (p_ups p)[i := v] = a @ v # b"
proof -
  have i: "i < length (p_ups p)" "p_ups p ! i = u" using assms by (auto simp: up_at_def split: if_splits)
  show ?thesis
    by (rule that [of "take i (p_ups p)" "drop (Suc i) (p_ups p)"])
       (use i id_take_nth_drop in \<open>auto simp: upd_conv_take_nth_drop min_def\<close>)
qed

definition shape_ok :: "store_cfg \<Rightarrow> 's pipe \<Rightarrow> bool" where
  "shape_ok c p \<longleftrightarrow> int (length (p_jobs p)) \<le> partConcurrency c \<and>
     length (p_ups p) = nat (partConcurrency c)"

lemma pipe_step_shape:
  assumes "pipe_step api key uid c m p = Some q" and "shape_ok c p"
  shows "shape_ok c q"
  using assms
  by (cases m)
     (auto simp: shape_ok_def set_up_def fail_up_def split: producer.splits prod.splits if_splits
        option.splits uploader.splits list.splits sum.splits)

lemma run_sched_shape: "shape_ok c p \<Longrightarrow> shape_ok c (run_sched api key uid c ms p)"
  by (induction ms arbitrary: p) (auto split: option.splits intro: pipe_step_shape)

lemma shape_buffers: "shape_ok c p \<Longrightarrow> 1 \<le> partConcurrency c \<Longrightarrow>
    int (buffers_held p) \<le> 1 + 2 * partConcurrency c"
  using busy_jobs_length [of "p_ups p"]
  by (cases "p_prod p") (auto simp: shape_ok_def buffers_held_def)

lemma shape_init: "1 \<le> partConcurrency c \<Longrightarrow> shape_ok c (pipe_init c first body s)"
  by (simp add: shape_ok_def pipe_init_def)

text \<open>Every move except the cancellation of the request lowers the potential.\<close>

lemma fill_weight: "fill k r = ((bs, None), r') \<Longrightarrow> 0 < k \<Longrightarrow> weight r' < weight r"
  by (auto simp: fill_def dest: read_loop_weight split: prod.splits option.splits if_splits)

lemma sum_up_split: "sum_list (map up_potential (a @ u # b)) =
    sum_list (map up_potential a) + up_potential u + sum_list (map up_potential b)"
  by simp

lemma pipe_step_potential:
  assumes "pipe_step api key uid c m p = Some q" and "m \<noteq> MCancel" and "1 \<le> partSize c"
  shows "potential q < potential p"
proof (cases m)
  case MFill
  with assms(1) have pf: "p_prod p = PFill" by (auto split: producer.splits)
  obtain bs e b where f: "fill (nat (partSize c)) (p_body p) = ((bs, e), b)" by (metis prod.exhaust)
  have "e = None \<Longrightarrow> weight b < weight (p_body p)" using fill_weight f assms(3) by auto
  with assms(1) MFill pf f show ?thesis
    by (cases e) (auto simp: potential_def prod_potential_def after_fill_def split: if_splits)
next
  case MSend
  with assms(1) show ?thesis
    by (auto simp: potential_def prod_potential_def after_fill_def
        split: producer.splits if_splits option.splits)
next
  case MGiveUp
  with assms(1) show ?thesis
    by (auto simp: potential_def prod_potential_def split: producer.splits if_splits option.splits)
next
  case (MTake i)
  with assms(1) obtain j js where u: "up_at i p = Some UIdle" "p_jobs p = j # js"
    "q = set_up i (UBusy j) (p\<lparr>p_jobs := js\<rparr>)"
    by (auto split: option.splits uploader.splits list.splits)
  from ups_split [OF u(1)] obtain a b where "p_ups p = a @ UIdle # b"
    "\<And>v. (p_ups p)[i := v] = a @ v # b" by metis
  with u show ?thesis by (simp add: potential_def set_up_def)
next
  case (MUpload i)
  with assms(1) obtain j where u: "up_at i p = Some (UBusy j)"
    by (auto split: option.splits uploader.splits)
  from ups_split [OF u] obtain a b where ab: "p_ups p = a @ UBusy j # b"
    "\<And>v. (p_ups p)[i := v] = a @ v # b" by metis
  with assms(1) MUpload u show ?thesis
    by (auto simp: potential_def set_up_def fail_up_def split: prod.splits sum.splits)
next
  case (MAbandon i)
  with assms(1) obtain j where u: "up_at i p = Some (UBusy j)"
    by (auto split: option.splits uploader.splits)
  from ups_split [OF u] obtain a b where "p_ups p = a @ UBusy j # b"
    "\<And>v. (p_ups p)[i := v] = a @ v # b" by metis
  with assms(1) MAbandon u show ?thesis
    by (auto simp: potential_def set_up_def fail_up_def split: if_splits)
next
  case (MExit i)
  with assms(1) have u: "up_at i p = Some UIdle" "q = set_up i UExit p"
    by (auto split: option.splits uploader.splits list.splits producer.splits)
  from ups_split [OF u(1)] obtain a b where "p_ups p = a @ UIdle # b"
    "\<And>v. (p_ups p)[i := v] = a @ v # b" by metis
  with u show ?thesis by (simp add: potential_def set_up_def)
next
  case MCancel
  with assms(2) show ?thesis by simp
qed

text \<open>
  A worker returns early only on an error, which cancels the group; otherwise it waits for the
  channel to be closed and empty. So a producer that is blocked always has someone to wait for.
\<close>

definition exit_inv :: "'s pipe \<Rightarrow> bool" where
  "exit_inv p \<longleftrightarrow> (UExit \<in> set (p_ups p) \<longrightarrow>
     gdone p \<or> (p_jobs p = [] \<and> (\<exists>r. p_prod p = PDone r)))"

lemma set_list_update: "u \<in> set (xs[i := v]) \<Longrightarrow> u = v \<or> u \<in> set xs"
  using set_update_subset_insert [of xs i v] by auto

lemma pipe_step_exit_inv:
  assumes "pipe_step api key uid c m p = Some q" and "exit_inv p"
  shows "exit_inv q"
proof (cases m)
  case (MTake i)
  with assms show ?thesis
    by (auto simp: exit_inv_def set_up_def dest!: set_list_update
        split: option.splits uploader.splits list.splits)
next
  case (MUpload i)
  with assms show ?thesis
    by (auto simp: exit_inv_def set_up_def fail_up_def dest!: set_list_update
        split: option.splits uploader.splits prod.splits sum.splits)
qed (use assms in \<open>auto simp: exit_inv_def set_up_def fail_up_def
       split: option.splits uploader.splits list.splits producer.splits if_splits prod.splits\<close>)

lemma exit_inv_init: "exit_inv (pipe_init c first body s)"
  by (simp add: exit_inv_def pipe_init_def)

lemma worker_moves:
  "i < length (p_ups p) \<Longrightarrow> {MUpload i, MTake i, MExit i} \<subseteq> set (pipe_moves p)"
  by (auto simp: pipe_moves_def)

lemma not_done_enabled:
  assumes nd: "\<not> pipe_done p" and shape: "shape_ok c p" and ex: "exit_inv p"
    and conc: "1 \<le> partConcurrency c"
  shows "\<exists>m \<in> set (pipe_moves p). pipe_step api key uid c m p \<noteq> None"
proof (cases "p_prod p = PFill")
  case True
  then have "pipe_step api key uid c MFill p \<noteq> None" by (auto split: prod.splits)
  then show ?thesis by (auto simp: pipe_moves_def)
next
  case False
  consider (send) "\<nexists>r. p_prod p = PDone r" "int (length (p_jobs p)) < partConcurrency c"
    | (full) "\<nexists>r. p_prod p = PDone r" "p_jobs p \<noteq> []"
    | (closed) r where "p_prod p = PDone r"
    using conc by fastforce
  then show ?thesis
  proof cases
    case send
    with False have "pipe_step api key uid c MSend p \<noteq> None" by (cases "p_prod p") auto
    then show ?thesis by (auto simp: pipe_moves_def)
  next
    case full
    have "0 < length (p_ups p)" using shape conc by (simp add: shape_ok_def)
    then obtain i where i: "i < length (p_ups p)" by blast
    show ?thesis
    proof (cases "p_ups p ! i")
      case UIdle
      with full i have "pipe_step api key uid c (MTake i) p \<noteq> None"
        by (auto simp: up_at_def split: list.splits)
      with worker_moves [OF i] show ?thesis by blast
    next
      case (UBusy j)
      with i have "pipe_step api key uid c (MUpload i) p \<noteq> None"
        by (auto simp: up_at_def split: prod.splits sum.splits)
      with worker_moves [OF i] show ?thesis by blast
    next
      case UExit
      with i have "UExit \<in> set (p_ups p)" by (metis nth_mem)
      with ex full have "gdone p" by (auto simp: exit_inv_def)
      with full False have "pipe_step api key uid c MGiveUp p \<noteq> None" by (cases "p_prod p") auto
      then show ?thesis by (auto simp: pipe_moves_def)
    qed
  next
    case closed
    with nd obtain u where "u \<in> set (p_ups p)" "u \<noteq> UExit"
      by (auto simp: pipe_done_def list_all_iff)
    then obtain i where i: "i < length (p_ups p)" "p_ups p ! i = u" by (auto simp: in_set_conv_nth)
    have "pipe_step api key uid c (MTake i) p \<noteq> None \<or> pipe_step api key uid c (MExit i) p \<noteq> None \<or>
        pipe_step api key uid c (MUpload i) p \<noteq> None"
      using i closed \<open>u \<noteq> UExit\<close>
      by (cases u; cases "p_jobs p") (auto simp: up_at_def split: prod.splits sum.splits)
    with worker_moves [OF i(1)] show ?thesis by blast
  qed
qed

lemma first_step_Some:
  "\<exists>m \<in> set ms. pipe_step api key uid c m p \<noteq> None \<Longrightarrow>
    \<exists>m \<in> set ms. \<exists>q. first_step api key uid c ms p = Some q \<and> pipe_step api key uid c m p = Some q"
  by (induction ms) (auto split: option.splits)

lemma first_step_SomeD:
  "first_step api key uid c ms p = Some q \<Longrightarrow> \<exists>m \<in> set ms. pipe_step api key uid c m p = Some q"
  by (induction ms) (auto split: option.splits if_splits)

lemma pipe_moves_no_cancel: "MCancel \<notin> set (pipe_moves p)"
  by (auto simp: pipe_moves_def)

text \<open>An invariant of single moves is one of whole runs.\<close>

lemma run_pipe_invariant:
  assumes "\<And>m p q. I p \<Longrightarrow> pipe_step api key uid c m p = Some q \<Longrightarrow> I q" and "I p"
  shows "I (run_pipe api key uid c sched p)"
proof -
  have "I (run_sched api key uid c sched p)" for sched
    using assms(2) by (induction sched arbitrary: p) (auto split: option.splits intro: assms(1))
  moreover have "I (drive n api key uid c p)" if "I p" for n p
    using that
    by (induction n arbitrary: p) (auto split: option.splits dest!: first_step_SomeD intro: assms(1))
  ultimately show ?thesis by (simp add: run_pipe_def Let_def)
qed

lemma drive_done:
  assumes "1 \<le> partSize c" and "1 \<le> partConcurrency c"
  shows "shape_ok c p \<Longrightarrow> exit_inv p \<Longrightarrow> potential p \<le> n \<Longrightarrow> pipe_done (drive n api key uid c p)"
proof (induction n arbitrary: p)
  case 0
  show ?case
  proof (rule ccontr)
    assume "\<not> pipe_done (drive 0 api key uid c p)"
    then have "\<not> pipe_done p" by simp
    then obtain m q where "m \<in> set (pipe_moves p)" "pipe_step api key uid c m p = Some q"
      using not_done_enabled [OF _ 0(1,2) assms(2)] by blast
    then have "potential q < potential p"
      using pipe_step_potential assms(1) pipe_moves_no_cancel by metis
    with 0 show False by simp
  qed
next
  case (Suc n)
  show ?case
  proof (cases "first_step api key uid c (pipe_moves p) p")
    case None
    then have "\<not> (\<exists>m \<in> set (pipe_moves p). pipe_step api key uid c m p \<noteq> None)"
      using first_step_Some by fastforce
    then have "pipe_done p" using not_done_enabled [OF _ Suc.prems(1,2) assms(2)] by blast
    with None show ?thesis by simp
  next
    case (Some q)
    then obtain m where m: "m \<in> set (pipe_moves p)" "pipe_step api key uid c m p = Some q"
      using first_step_SomeD by blast
    then have "potential q < potential p"
      using pipe_step_potential assms(1) pipe_moves_no_cancel by metis
    then have "pipe_done (drive n api key uid c q)"
      using Suc.prems by (intro Suc.IH pipe_step_shape [OF m(2)] pipe_step_exit_inv [OF m(2)]) auto
    with Some show ?thesis by simp
  qed
qed

text \<open>Every schedule ends with all goroutines returned: no deadlock, no endless upload.\<close>

lemma run_sched_exit_inv: "exit_inv p \<Longrightarrow> exit_inv (run_sched api key uid c ms p)"
proof (induction ms arbitrary: p)
  case (Cons m ms)
  then show ?case
    using pipe_step_exit_inv [of api key uid c m p]
    by (cases "pipe_step api key uid c m p") auto
qed simp

lemma run_pipe_done:
  assumes "1 \<le> partSize c" and "1 \<le> partConcurrency c"
  shows "pipe_done (run_pipe api key uid c sched (pipe_init c first body s))"
  unfolding run_pipe_def Let_def
  by (rule drive_done [OF assms]) (simp_all add: run_sched_exit_inv exit_inv_init run_sched_shape
      shape_init [OF assms(2)])

section \<open>Runs of a pipeline\<close>

text \<open>A run is a list of moves each of which goes through where it is made; \<open>None\<close> where one cannot.\<close>

fun pipe_run ::
  "'s s3_api \<Rightarrow> string \<Rightarrow> string \<Rightarrow> store_cfg \<Rightarrow> move list \<Rightarrow> 's pipe \<Rightarrow> 's pipe option" where
  "pipe_run api key uid c [] p = Some p"
| "pipe_run api key uid c (m # ms) p =
     (case pipe_step api key uid c m p of None \<Rightarrow> None | Some q \<Rightarrow> pipe_run api key uid c ms q)"

text \<open>The potential pays for every move of a goroutine; a cancellation is free and gives nothing back.\<close>

lemma pipe_run_cost:
  assumes "1 \<le> partSize c"
  shows "pipe_run api key uid c ms p = Some q \<Longrightarrow>
    length (filter (\<lambda>m. m \<noteq> MCancel) ms) + potential q \<le> potential p"
proof (induction ms arbitrary: p)
  case (Cons m ms)
  from Cons.prems obtain p1 where p1: "pipe_step api key uid c m p = Some p1" "pipe_run api key uid c ms p1 = Some q"
    by (auto split: option.splits)
  have "potential p1 + (if m = MCancel then 0 else 1) \<le> potential p"
    using p1(1) pipe_step_potential [OF p1(1) _ assms] by (auto simp: potential_def)
  with Cons.IH [OF p1(2)] show ?case by (auto split: if_splits)
qed simp

lemma pipe_run_inv:
  "pipe_run api key uid c ms p = Some q \<Longrightarrow> shape_ok c p \<Longrightarrow> exit_inv p \<Longrightarrow> shape_ok c q \<and> exit_inv q"
  by (induction ms arbitrary: p) (auto split: option.splits dest: pipe_step_shape pipe_step_exit_inv)

lemma potential_init:
  "potential (pipe_init c first body s) \<le> 5 * weight body + 10 + nat (partConcurrency c)"
  by (simp add: potential_def pipe_init_def prod_potential_def sum_list_replicate split: option.split)

lemma done_disabled: "pipe_done p \<Longrightarrow> m \<noteq> MCancel \<Longrightarrow> pipe_step api key uid c m p = None"
  by (cases m) (auto simp: pipe_done_def up_at_def list_all_length split: producer.splits option.splits)

lemma done_iff_stuck:
  assumes "shape_ok c p" and "exit_inv p" and "1 \<le> partConcurrency c"
  shows "pipe_done p \<longleftrightarrow> (\<forall>m. m \<noteq> MCancel \<longrightarrow> pipe_step api key uid c m p = None)"
  using not_done_enabled [OF _ assms] done_disabled pipe_moves_no_cancel by metis

text \<open>
  A refused part can be reported as a cancellation: the first part is refused while the producer holds the second,
  and the producer sees the group's context end before its send goes through.
\<close>

definition refusal_schedule :: "move list" where
  "refusal_schedule = [MSend, MTake 0, MUpload 0, MFill, MGiveUp]"

lemma done_producer_stays:
  "pipe_step api key uid c m p = Some q \<Longrightarrow> p_prod p = PDone x \<Longrightarrow> p_prod q = PDone x \<and> p_body q = p_body p"
  by (cases m) (auto simp: set_up_def fail_up_def split: if_splits option.splits uploader.splits list.splits prod.splits sum.splits)

lemma refusal_run:
  assumes "api_part api key uid 1 b1 s = (Inl x, s2)" and "1 \<le> partConcurrency c"
    and "fill (nat (partSize c)) body = ((b2, y), rest)" and "b2 \<noteq> []"
  shows "p_prod (run_pipe api key uid c refusal_schedule (pipe_init c (Some b1) body s)) = PDone (Some (Sentinel Canceled)) \<and>
    p_body (run_pipe api key uid c refusal_schedule (pipe_init c (Some b1) body s)) = rest"
proof -
  define q where "q = run_sched api key uid c refusal_schedule (pipe_init c (Some b1) body s)"
  obtain n where n: "nat (partConcurrency c) = Suc n" using assms(2) by (cases "nat (partConcurrency c)") auto
  define p0 where "p0 = pipe_init c (Some b1) body s"
  define p1 where "p1 = p0\<lparr>p_prod := PFill, partNum := 2, p_jobs := [\<lparr>pj_num = 1, pj_data = b1\<rparr>]\<rparr>"
  define p2 where "p2 = set_up 0 (UBusy \<lparr>pj_num = 1, pj_data = b1\<rparr>) (p1\<lparr>p_jobs := []\<rparr>)"
  define p3 where "p3 = fail_up 0 (upload_err 1 x) (p2\<lparr>s3 := s2\<rparr>)"
  define p4 where "p4 = p3\<lparr>p_body := rest, p_prod := PSend \<lparr>pj_num = 2, pj_data = b2\<rparr> y\<rparr>"
  have s1: "pipe_step api key uid c MSend p0 = Some p1"
    using assms(2) by (simp add: p0_def p1_def pipe_init_def)
  have s2: "pipe_step api key uid c (MTake 0) p1 = Some p2"
    by (simp add: p2_def p1_def p0_def pipe_init_def up_at_def n)
  have s3: "pipe_step api key uid c (MUpload 0) p2 = Some p3"
    using assms(1) by (simp add: p3_def p2_def p1_def p0_def pipe_init_def up_at_def set_up_def n)
  have sel: "p_prod p3 = PFill" "p_body p3 = body" "partNum p3 = 2" "gdone p3"
    by (simp_all add: p3_def p2_def p1_def p0_def pipe_init_def set_up_def fail_up_def)
  have s4: "pipe_step api key uid c MFill p3 = Some p4"
    using assms(3,4) by (simp add: p4_def sel)
  have s5: "pipe_step api key uid c MGiveUp p4 = Some (p4\<lparr>p_prod := PDone (Some (Sentinel Canceled))\<rparr>)"
    by (simp add: p4_def sel)
  have "q = p4\<lparr>p_prod := PDone (Some (Sentinel Canceled))\<rparr>"
    unfolding q_def refusal_schedule_def p0_def [symmetric] run_sched.simps s1 option.case s2 s3 s4 s5 ..
  then have q: "p_prod q = PDone (Some (Sentinel Canceled)) \<and> p_body q = rest" by (simp add: p4_def)
  have "p_prod (run_pipe api key uid c [] q) = PDone (Some (Sentinel Canceled)) \<and> p_body (run_pipe api key uid c [] q) = rest"
    by (rule run_pipe_invariant [where I = "\<lambda>p. p_prod p = PDone (Some (Sentinel Canceled)) \<and> p_body p = rest"])
      (use done_producer_stays in \<open>fastforce\<close>, rule q)
  then show ?thesis by (simp add: run_pipe_def Let_def q_def)
qed

lemma refused_part_is_canceled:
  assumes "fill (nat (partSize c)) body = ((b1, None), r1)" and "fill (nat (partSize c)) r1 = ((b2, y), r2)" and "b2 \<noteq> []"
    and "1 \<le> partConcurrency c" and "api_create api key ct s = (Inr uid, s1)"
    and "api_part api key uid 1 b1 s1 = (Inl x, s2)"
  shows "\<exists>s'. Put api c refusal_schedule key body 0 ct s = ((Inl (Sentinel Canceled), r2), s')"
  using refusal_run [OF assms(6,4,2,3)]
  by (simp add: Put_def putAuto_def putMultipartFromFirst_def finish_pipe_def assms(1,5) Let_def)

section \<open>The data of the parts\<close>

text \<open>
  \<open>cs\<close> are the parts the producer has cut so far, in order; \<open>bs\<close> and \<open>e\<close> what the whole body delivers.
\<close>

definition prod_inv :: "bytes \<Rightarrow> goerr \<Rightarrow> bytes list \<Rightarrow> 's pipe \<Rightarrow> bool" where
  "prod_inv bs e cs p \<longleftrightarrow> 1 \<le> partNum p \<and> partNum p - 1 \<le> int (length cs) \<and>
     (case p_prod p of
        PFirst d \<Rightarrow> cs = [d] \<and> partNum p = 1 \<and> (\<exists>rest. delivers (p_body p) rest e \<and> bs = d @ rest)
      | PFill \<Rightarrow> int (length cs) = partNum p - 1 \<and>
          (\<exists>rest. delivers (p_body p) rest e \<and> bs = concat cs @ rest)
      | PSend j x \<Rightarrow> int (length cs) = partNum p \<and> pj_num j = partNum p \<and>
          cs ! nat (partNum p - 1) = pj_data j \<and>
          (case x of
             None \<Rightarrow> \<exists>rest. delivers (p_body p) rest e \<and> bs = concat cs @ rest
           | Some y \<Rightarrow> concat cs = bs \<and> errors_is y EOF = errors_is e EOF)
      | PDone None \<Rightarrow> int (length cs) = partNum p - 1 \<and> concat cs = bs \<and> errors_is e EOF
      | PDone (Some _) \<Rightarrow> True)"

definition nums_inv :: "'s pipe \<Rightarrow> bool" where
  "nums_inv p \<longleftrightarrow>
     distinct (map fst (p_parts p) @ map pj_num (p_jobs p) @ map pj_num (busy_jobs (p_ups p))) \<and>
     fst ` set (p_parts p) \<union> pj_num ` set (p_jobs p) \<union> pj_num ` set (busy_jobs (p_ups p)) =
       {1..<partNum p}"

definition jobs_inv :: "bytes list \<Rightarrow> 's pipe \<Rightarrow> bool" where
  "jobs_inv cs p \<longleftrightarrow> (\<forall>j \<in> set (p_jobs p) \<union> set (busy_jobs (p_ups p)).
     pj_data j = cs ! nat (pj_num j - 1))"

definition parts_inv :: "(int \<Rightarrow> bytes option) option \<Rightarrow> bytes list \<Rightarrow> 's pipe \<Rightarrow> bool" where
  "parts_inv mp cs p \<longleftrightarrow>
     (\<exists>ps. mp = Some ps \<and> dom ps = fst ` set (p_parts p) \<and>
        (\<forall>n \<in> dom ps. ps n = Some (cs ! nat (n - 1)))) \<and>
     p_total p = sum_list (map (\<lambda>x. int (length (cs ! nat (fst x - 1)))) (p_parts p))"

definition closed_inv :: "'s pipe \<Rightarrow> bool" where
  "closed_inv p \<longleftrightarrow> (UExit \<in> set (p_ups p) \<longrightarrow> p_jobs p = [] \<and> (\<exists>r. p_prod p = PDone r))"

definition data_inv :: "(int \<Rightarrow> bytes option) option \<Rightarrow> bytes list \<Rightarrow> 's pipe \<Rightarrow> bool" where
  "data_inv mp cs p \<longleftrightarrow>
     (gerr p = None \<longrightarrow> nums_inv p \<and> jobs_inv cs p \<and> parts_inv mp cs p \<and> closed_inv p)"

lemma busy_jobs_split [simp]:
  "busy_jobs (a @ u # b) = busy_jobs a @ busy_of u @ busy_jobs b"
  by (simp add: busy_jobs_def)

lemma old_index: "n \<in> {1..<k} \<Longrightarrow> k - 1 \<le> int (length cs) \<Longrightarrow> (cs @ ds) ! nat (n - 1) = cs ! nat (n - 1)"
  by (subst nth_append) auto

text \<open>Cutting one more part leaves the earlier ones in place.\<close>

lemma data_inv_grow:
  assumes "data_inv mp cs p" and "partNum p - 1 \<le> int (length cs)"
    and "p_jobs q = p_jobs p" "p_ups q = p_ups p" "p_parts q = p_parts p" "p_total q = p_total p"
    "gerr q = gerr p" "partNum q = partNum p" "p_prod p = PFill"
  shows "data_inv mp (cs @ ds) q"
proof (cases "gerr p")
  case None
  then have inv: "nums_inv p" "jobs_inv cs p" "parts_inv mp cs p" "closed_inv p"
    using assms(1) by (auto simp: data_inv_def)
  have idx: "(cs @ ds) ! nat (n - 1) = cs ! nat (n - 1)" if "n \<in> {1..<partNum p}" for n
    using old_index [OF that assms(2)] .
  have nums: "fst ` set (p_parts p) \<subseteq> {1..<partNum p}"
    "pj_num ` (set (p_jobs p) \<union> set (busy_jobs (p_ups p))) \<subseteq> {1..<partNum p}"
    using inv(1) by (auto simp: nums_inv_def)
  have "jobs_inv (cs @ ds) q"
    using inv(2) nums(2) idx assms(3-6) by (auto simp: jobs_inv_def image_subset_iff)
  moreover have "parts_inv mp (cs @ ds) q"
  proof -
    have "sum_list (map (\<lambda>x. int (length ((cs @ ds) ! nat (fst x - 1)))) (p_parts p)) =
        sum_list (map (\<lambda>x. int (length (cs ! nat (fst x - 1)))) (p_parts p))"
      using nums(1) idx by (intro arg_cong [where f = sum_list] map_cong) auto
    moreover have "\<forall>n \<in> fst ` set (p_parts p). (cs @ ds) ! nat (n - 1) = cs ! nat (n - 1)"
      using nums(1) idx by blast
    ultimately show ?thesis
      using inv(3) assms(3-6) by (auto simp: parts_inv_def)
  qed
  moreover have "nums_inv q" "closed_inv q"
    using inv assms(3-9) by (auto simp: nums_inv_def closed_inv_def)
  ultimately show ?thesis by (simp add: data_inv_def)
next
  case (Some x)
  with assms(7) show ?thesis by (simp add: data_inv_def)
qed

lemma fill_delivers:
  assumes "delivers r rest e" and "fill k r = ((d, x), r')"
  shows "length d \<le> k \<and> (case x of
      None \<Rightarrow> length d = k \<and> (\<exists>t. rest = d @ t \<and> delivers r' t e)
    | Some y \<Rightarrow> rest = d \<and> y = (if errors_is e EOF then Sentinel EOF else e))"
proof -
  obtain x0 where rl: "read_loop k r = ((d, x0), r')"
    and x: "x = (case x0 of None \<Rightarrow> None
      | Some y \<Rightarrow> if errors_is y EOF then Some (Sentinel EOF) else Some y)"
    using assms(2) by (auto simp: fill_def split: prod.splits)
  have "length d \<le> k \<and> read_law rest e d x0 r' \<and> (x0 = None \<longrightarrow> length d = k)"
    by (rule read_loop_delivers [OF assms(1) rl])
  then show ?thesis
    unfolding x by (auto simp: read_law_def split: option.splits intro!: exI [of _ "drop k rest"])
      (metis append_take_drop_id)
qed

lemma step_fill_inv:
  assumes "pipe_step api key uid c MFill p = Some q" and "1 \<le> partSize c"
    and "prod_inv bs e cs p" and "data_inv mp cs p"
  shows "\<exists>cs'. prod_inv bs e cs' q \<and> data_inv mp cs' q"
proof -
  have pf: "p_prod p = PFill" using assms(1) by (auto split: producer.splits)
  obtain d x b where f: "fill (nat (partSize c)) (p_body p) = ((d, x), b)" by (metis prod.exhaust)
  obtain rest where rest: "delivers (p_body p) rest e" "bs = concat cs @ rest"
    "int (length cs) = partNum p - 1" "1 \<le> partNum p"
    using assms(3) pf by (auto simp: prod_inv_def)
  note fd = fill_delivers [OF rest(1) f]
  show ?thesis
  proof (cases "d = []")
    case False
    then have q: "q = p\<lparr>p_body := b, p_prod := PSend \<lparr>pj_num = partNum p, pj_data = d\<rparr> x\<rparr>"
      using assms(1) pf f by simp
    have "nat (partNum p - 1) = length cs" using rest(3) by arith
    then have idx: "(cs @ [d]) ! nat (partNum p - 1) = d" by simp
    have "prod_inv bs e (cs @ [d]) q"
      using fd rest idx by (auto simp: q prod_inv_def split: option.splits)
    moreover have "data_inv mp (cs @ [d]) q"
      using rest(3) pf by (intro data_inv_grow [OF assms(4)]) (simp_all add: q)
    ultimately show ?thesis by blast
  next
    case True
    then have q: "q = p\<lparr>p_body := b, p_prod := after_fill x\<rparr>" using assms(1) pf f by simp
    have "x \<noteq> None" using fd True assms(2) by (auto split: option.splits)
    then have "prod_inv bs e cs q"
      using fd rest True by (auto simp: q prod_inv_def after_fill_def split: option.splits if_splits)
    moreover have "data_inv mp (cs @ []) q"
      using rest(3) pf by (intro data_inv_grow [OF assms(4)]) (simp_all add: q)
    ultimately show ?thesis by auto
  qed
qed

lemma step_send_inv:
  assumes "pipe_step api key uid c MSend p = Some q"
    and "prod_inv bs e cs p" and "data_inv mp cs p"
  shows "prod_inv bs e cs q \<and> data_inv mp cs q"
proof -
  have "\<exists>j x. q = p\<lparr>p_prod := after_fill x, partNum := partNum p + 1, p_jobs := p_jobs p @ [j]\<rparr> \<and>
      pj_num j = partNum p \<and> pj_data j = cs ! nat (partNum p - 1) \<and>
      int (length cs) = partNum p \<and> 1 \<le> partNum p \<and> (\<nexists>r. p_prod p = PDone r) \<and>
      (case x of
         None \<Rightarrow> \<exists>rest. delivers (p_body p) rest e \<and> bs = concat cs @ rest
       | Some y \<Rightarrow> concat cs = bs \<and> errors_is y EOF = errors_is e EOF)"
  proof (cases "p_prod p")
    case (PFirst d)
    with assms(1,2) show ?thesis
      by (intro exI [of _ "\<lparr>pj_num = partNum p, pj_data = d\<rparr>"] exI [of _ None])
         (auto simp: prod_inv_def after_fill_def split: if_splits)
  next
    case (PSend j x)
    with assms(1,2) show ?thesis
      by (intro exI [of _ j] exI [of _ x]) (auto simp: prod_inv_def split: if_splits)
  qed (use assms(1) in \<open>auto split: if_splits\<close>)
  then obtain j x where q: "q = p\<lparr>p_prod := after_fill x, partNum := partNum p + 1, p_jobs := p_jobs p @ [j]\<rparr>"
    and j: "pj_num j = partNum p" "pj_data j = cs ! nat (partNum p - 1)" "int (length cs) = partNum p"
      "1 \<le> partNum p" "\<nexists>r. p_prod p = PDone r"
    and x: "case x of
         None \<Rightarrow> \<exists>rest. delivers (p_body p) rest e \<and> bs = concat cs @ rest
       | Some y \<Rightarrow> concat cs = bs \<and> errors_is y EOF = errors_is e EOF" by blast
  have "prod_inv bs e cs q"
    using j x by (auto simp: q prod_inv_def after_fill_def split: option.splits)
  moreover have "data_inv mp cs q"
  proof (cases "gerr p")
    case None
    then have inv: "nums_inv p" "jobs_inv cs p" "parts_inv mp cs p" "closed_inv p"
      using assms(3) by (auto simp: data_inv_def)
    have "partNum p \<notin> fst ` set (p_parts p) \<union> pj_num ` set (p_jobs p) \<union> pj_num ` set (busy_jobs (p_ups p))"
      using inv(1) by (simp add: nums_inv_def)
    moreover have "{1..<partNum p + 1} = insert (partNum p) {1..<partNum p}" using j(4) by auto
    ultimately have "nums_inv q"
      using inv(1) j(1) by (simp add: nums_inv_def q Int_commute)
    moreover have "jobs_inv cs q" "parts_inv mp cs q" "closed_inv q"
      using inv(2-4) j by (auto simp: q jobs_inv_def parts_inv_def closed_inv_def)
    ultimately show ?thesis by (simp add: data_inv_def)
  next
    case (Some y)
    then show ?thesis by (simp add: data_inv_def q)
  qed
  ultimately show ?thesis by blast
qed

lemma prod_inv_cong:
  assumes "prod_inv bs e cs p" and "p_prod q = p_prod p" "p_body q = p_body p" "partNum q = partNum p"
  shows "prod_inv bs e cs q"
  using assms(1) unfolding prod_inv_def assms(2-4) .

lemma UExit_split:
  assumes "p_ups p = a @ u # b" and "u \<noteq> UExit"
  shows "UExit \<in> set (p_ups p) \<longleftrightarrow> UExit \<in> set (a @ b)"
  using assms by auto

lemma step_take_inv:
  assumes "pipe_step api key uid c (MTake i) p = Some q"
    and "prod_inv bs e cs p" and "data_inv mp cs p"
  shows "prod_inv bs e cs q \<and> data_inv mp cs q"
proof -
  obtain j js where u: "up_at i p = Some UIdle" and js: "p_jobs p = j # js"
    and q: "q = set_up i (UBusy j) (p\<lparr>p_jobs := js\<rparr>)"
    using assms(1) by (auto split: option.splits uploader.splits list.splits)
  obtain a b where ab: "p_ups p = a @ UIdle # b" "(p_ups p)[i := UBusy j] = a @ UBusy j # b"
    using ups_split [OF u] by metis
  have sel: "p_jobs q = js" "p_ups q = a @ UBusy j # b" "p_parts q = p_parts p"
    "p_total q = p_total p" "gerr q = gerr p" "partNum q = partNum p" "p_prod q = p_prod p"
    "p_body q = p_body p"
    by (simp_all add: q set_up_def ab(2))
  have "data_inv mp cs q"
  proof (cases "gerr p")
    case None
    then have inv: "nums_inv p" "jobs_inv cs p" "parts_inv mp cs p" "closed_inv p"
      using assms(3) by (auto simp: data_inv_def)
    have "nums_inv q" using inv(1) unfolding nums_inv_def sel js ab(1) by auto
    moreover have "jobs_inv cs q" using inv(2) unfolding jobs_inv_def sel js ab(1) by auto
    moreover have "parts_inv mp cs q" using inv(3) unfolding parts_inv_def sel .
    moreover have "closed_inv q" using inv(4) unfolding closed_inv_def sel js ab(1) by auto
    ultimately show ?thesis by (simp add: data_inv_def)
  qed (simp add: data_inv_def sel)
  with prod_inv_cong [OF assms(2) sel(7,8,6)] show ?thesis by blast
qed

lemma step_exit_inv:
  assumes "pipe_step api key uid c (MExit i) p = Some q"
    and "prod_inv bs e cs p" and "data_inv mp cs p"
  shows "prod_inv bs e cs q \<and> data_inv mp cs q"
proof -
  have u: "up_at i p = Some UIdle" and js: "p_jobs p = []" and pd: "\<exists>r. p_prod p = PDone r"
    and q: "q = set_up i UExit p"
    using assms(1) by (auto split: option.splits uploader.splits list.splits producer.splits)
  obtain a b where ab: "p_ups p = a @ UIdle # b" "(p_ups p)[i := UExit] = a @ UExit # b"
    using ups_split [OF u] by metis
  have sel: "p_jobs q = []" "p_ups q = a @ UExit # b" "p_parts q = p_parts p"
    "p_total q = p_total p" "gerr q = gerr p" "partNum q = partNum p" "p_prod q = p_prod p"
    "p_body q = p_body p"
    by (simp_all add: q set_up_def ab(2) js)
  have "data_inv mp cs q"
  proof (cases "gerr p")
    case None
    then have inv: "nums_inv p" "jobs_inv cs p" "parts_inv mp cs p"
      using assms(3) by (auto simp: data_inv_def)
    have "nums_inv q" using inv(1) unfolding nums_inv_def sel js ab(1) by auto
    moreover have "jobs_inv cs q" using inv(2) unfolding jobs_inv_def sel js ab(1) by auto
    moreover have "parts_inv mp cs q" using inv(3) unfolding parts_inv_def sel .
    moreover have "closed_inv q" using pd unfolding closed_inv_def sel by auto
    ultimately show ?thesis by (simp add: data_inv_def)
  qed (simp add: data_inv_def sel)
  with prod_inv_cong [OF assms(2) sel(7,8,6)] show ?thesis by blast
qed

text \<open>Moves that set the error, or only the flag of the context, have little to show.\<close>

lemma step_error_inv:
  assumes "pipe_step api key uid c m p = Some q" and "m \<in> {MGiveUp, MCancel} \<or> (\<exists>i. m = MAbandon i)"
    and "prod_inv bs e cs p" and "data_inv mp cs p"
  shows "prod_inv bs e cs q \<and> data_inv mp cs q"
proof -
  consider "m = MGiveUp" | "m = MCancel" | i where "m = MAbandon i" using assms(2) by auto
  then show ?thesis
  proof cases
    case 1
    then obtain r where q: "q = p\<lparr>p_prod := PDone (Some r)\<rparr>" and nd: "\<nexists>r. p_prod p = PDone r"
      using assms(1) by (auto split: if_splits producer.splits)
    have "prod_inv bs e cs q"
      using assms(3) nd by (auto simp: prod_inv_def q split: producer.splits)
    moreover have "data_inv mp cs q"
      using assms(4) nd unfolding data_inv_def nums_inv_def jobs_inv_def parts_inv_def closed_inv_def q
      by simp
    ultimately show ?thesis by blast
  next
    case 2
    then obtain g where q: "q = p\<lparr>gdone := g\<rparr>" using assms(1) by auto
    have "data_inv mp cs q"
      using assms(4)
      unfolding data_inv_def nums_inv_def jobs_inv_def parts_inv_def closed_inv_def q by simp
    with prod_inv_cong [OF assms(3), of q] show ?thesis by (simp add: q)
  next
    case 3
    then obtain x where q: "q = fail_up i x p"
      using assms(1) by (auto split: option.splits uploader.splits if_splits)
    have "prod_inv bs e cs q"
      by (rule prod_inv_cong [OF assms(3)]) (simp_all add: q fail_up_def set_up_def)
    then show ?thesis by (simp add: data_inv_def q fail_up_def split: option.splits)
  qed
qed

definition pipe_inv ::
  "('s \<Rightarrow> string \<Rightarrow> (int \<Rightarrow> bytes option) option) \<Rightarrow> string \<Rightarrow> bytes \<Rightarrow> goerr \<Rightarrow> 's pipe \<Rightarrow> bool" where
  "pipe_inv mp uid bs e p \<longleftrightarrow> (\<exists>cs. prod_inv bs e cs p \<and> data_inv (mp (s3 p) uid) cs p)"

context s3_service begin

lemma step_upload_inv:
  assumes "pipe_step api key uid c (MUpload i) p = Some q"
    and "prod_inv bs e cs p" and "data_inv (mparts (s3 p) uid) cs p"
  shows "prod_inv bs e cs q \<and> data_inv (mparts (s3 q) uid) cs q"
proof -
  obtain j where u: "up_at i p = Some (UBusy j)"
    using assms(1) by (auto split: option.splits uploader.splits)
  obtain r s where ap: "api_part api key uid (pj_num j) (pj_data j) (s3 p) = (r, s)"
    by (metis prod.exhaust)
  obtain a b where ab: "p_ups p = a @ UBusy j # b" "(p_ups p)[i := UIdle] = a @ UIdle # b"
    using ups_split [OF u] by metis
  show ?thesis
  proof (cases r)
    case (Inl x)
    then have q: "q = fail_up i (upload_err (pj_num j) x) (p\<lparr>s3 := s\<rparr>)"
      using assms(1) u ap by simp
    then have "gerr q \<noteq> None" by (simp add: fail_up_def split: option.splits)
    moreover have "prod_inv bs e cs q"
      by (rule prod_inv_cong [OF assms(2)]) (simp_all add: q fail_up_def set_up_def)
    ultimately show ?thesis by (auto simp: data_inv_def)
  next
    case (Inr etag)
    then have q: "q = set_up i UIdle (p\<lparr>s3 := s, p_parts := p_parts p @ [(pj_num j, etag)],
        p_total := p_total p + int (length (pj_data j))\<rparr>)"
      using assms(1) u ap by simp
    have sel: "p_jobs q = p_jobs p" "p_ups q = a @ UIdle # b"
      "p_parts q = p_parts p @ [(pj_num j, etag)]"
      "p_total q = p_total p + int (length (pj_data j))" "gerr q = gerr p" "partNum q = partNum p"
      "p_prod q = p_prod p" "p_body q = p_body p" "s3 q = s"
      by (simp_all add: q set_up_def ab(2))
    have "data_inv (mparts s uid) cs q"
    proof (cases "gerr p")
      case None
      then have inv: "nums_inv p" "jobs_inv cs p" "parts_inv (mparts (s3 p) uid) cs p" "closed_inv p"
        using assms(3) by (auto simp: data_inv_def)
      have d: "pj_data j = cs ! nat (pj_num j - 1)" using inv(2) by (simp add: jobs_inv_def ab(1))
      from inv(3) obtain ps where ps: "mparts (s3 p) uid = Some ps" "dom ps = fst ` set (p_parts p)"
        "\<forall>n \<in> dom ps. ps n = Some (cs ! nat (n - 1))" by (auto simp: parts_inv_def)
      have "mparts s uid = Some (ps(pj_num j := Some (pj_data j)))"
        using part_ok ap ps(1) Inr by blast
      with ps inv(3) d have "parts_inv (mparts s uid) cs q" by (simp add: parts_inv_def sel)
      moreover have "nums_inv q" using inv(1) unfolding nums_inv_def sel ab(1) by auto
      moreover have "jobs_inv cs q" using inv(2) unfolding jobs_inv_def sel ab(1) by auto
      moreover have "closed_inv q" using inv(4) unfolding closed_inv_def sel ab(1) by auto
      ultimately show ?thesis by (simp add: data_inv_def)
    qed (simp add: data_inv_def sel)
    with prod_inv_cong [OF assms(2) sel(7,8,6)] sel(9) show ?thesis by simp
  qed
qed

lemma s3_step_other:
  "pipe_step api key uid c m p = Some q \<Longrightarrow> (\<nexists>i. m = MUpload i) \<Longrightarrow> s3 q = s3 p"
  by (cases m) (auto simp: set_up_def fail_up_def split: producer.splits prod.splits if_splits
      option.splits uploader.splits list.splits)

lemma pipe_step_inv:
  assumes "1 \<le> partSize c" and "pipe_inv mparts uid bs e p" and "pipe_step api key uid c m p = Some q"
  shows "pipe_inv mparts uid bs e q"
proof -
  obtain cs where cs: "prod_inv bs e cs p" "data_inv (mparts (s3 p) uid) cs p"
    using assms(2) by (auto simp: pipe_inv_def)
  show ?thesis
  proof (cases "\<exists>i. m = MUpload i")
    case True
    then obtain i where m: "m = MUpload i" by blast
    show ?thesis
      unfolding pipe_inv_def using step_upload_inv [OF assms(3) [unfolded m] cs] by blast
  next
    case False
    have "\<exists>cs'. prod_inv bs e cs' q \<and> data_inv (mparts (s3 p) uid) cs' q"
    proof (cases m)
      case MFill
      with step_fill_inv assms cs show ?thesis by blast
    next
      case MSend
      with step_send_inv assms(3) cs show ?thesis by blast
    next
      case (MTake i)
      with step_take_inv assms(3) cs show ?thesis by blast
    next
      case (MExit i)
      with step_exit_inv assms(3) cs show ?thesis by blast
    qed (use False step_error_inv [OF assms(3)] cs in blast)+
    with s3_step_other [OF assms(3)] False show ?thesis by (simp add: pipe_inv_def)
  qed
qed

end

end
