(* ===== verification/S3Contract.thy ===== *)
theory S3Contract
  imports S3Upload "HOL-Library.Multiset"
begin

text \<open>
  What \<open>Put\<close> and \<open>Delete\<close> promise, for any service that keeps the contract \<open>s3_service\<close>: the object
  holds exactly the bytes the body delivered, whatever the schedule of the goroutines; a body over its
  limit is never stored under a success; no other key changes. The promise is the locale
  \<open>object_store\<close>, which the service layer's lemmas rest on, and \<open>s3_service\<close> provides it. The
  in-process S3 of \<open>store_test.go\<close> instantiates both.
\<close>

section \<open>A finished pipe\<close>

lemma upto_sorted: "sorted_wrt (<) [i..j]" "sorted [i..j]"
  by (auto simp: sorted_wrt_upto)

lemma sorted_numbers:
  assumes "distinct (map fst ps)" and "fst ` set ps = {1..<k}"
  shows "map fst (sort_key fst ps) = [1..k - 1]"
proof (rule sorted_distinct_set_unique)
  show "distinct (map fst (sort_key fst ps))"
    using assms(1) by (simp add: distinct_map)
  show "set (map fst (sort_key fst ps)) = set [1..k - 1]" using assms(2) by auto
qed (simp_all add: upto_sorted)

lemma nths_upto: "map (\<lambda>n. cs ! nat (n - 1)) [1..int (length cs)] = cs"
  by (rule nth_equalityI) (auto simp: nat_diff_distrib)

lemma total_length:
  assumes "distinct (map fst ps)" and "fst ` set ps = {1..<int (length cs) + 1}"
  shows "sum_list (map (\<lambda>x. int (length (cs ! nat (fst x - 1)))) ps) = int (length (concat cs))"
proof -
  have "sum_list (map (\<lambda>x. int (length (cs ! nat (fst x - 1)))) ps) =
      sum_list (map (\<lambda>x. int (length (cs ! nat (fst x - 1)))) (sort_key fst ps))"
    by (simp add: mset_map del: sum_mset_sum_list flip: sum_mset_sum_list)
  also have "\<dots> = sum_list (map (\<lambda>n. int (length (cs ! nat (n - 1)))) (map fst (sort_key fst ps)))"
    by (simp add: comp_def)
  also have "\<dots> = sum_list (map (\<lambda>c. int (length c)) (map (\<lambda>n. cs ! nat (n - 1)) [1..int (length cs)]))"
    by (simp add: sorted_numbers [OF assms] comp_def)
  also have "\<dots> = int (length (concat cs))"
    unfolding nths_upto by (induction cs) auto
  finally show ?thesis .
qed

lemma done_busy: "list_all (\<lambda>u. u = UExit) us \<Longrightarrow> busy_jobs us = []"
  by (induction us) (auto simp: busy_jobs_def)

text \<open>When every goroutine has returned without an error, the parts are the whole body.\<close>

lemma done_parts:
  assumes "pipe_done p" and "p_ups p \<noteq> []" and "pipe_inv mp uid bs e p"
    and "p_prod p = PDone None" and "gerr p = None"
  obtains cs ps where "map fst (sort_key fst (p_parts p)) = [1..int (length cs)]"
    and "concat cs = bs" and "errors_is e EOF" and "p_total p = int (length bs)"
    and "mp (s3 p) uid = Some ps" and "dom ps = {1..<int (length cs) + 1}"
    and "\<And>n. n \<in> dom ps \<Longrightarrow> ps n = Some (cs ! nat (n - 1))"
proof -
  obtain cs where pi: "prod_inv bs e cs p" and di: "data_inv (mp (s3 p) uid) cs p"
    using assms(3) by (auto simp: pipe_inv_def)
  have inv: "nums_inv p" "parts_inv (mp (s3 p) uid) cs p" "closed_inv p"
    using di assms(5) by (auto simp: data_inv_def)
  have k: "partNum p = int (length cs) + 1" "concat cs = bs" "errors_is e EOF"
    using pi assms(4) by (auto simp: prod_inv_def)
  have ex: "list_all (\<lambda>u. u = UExit) (p_ups p)" using assms(1) by (simp add: pipe_done_def)
  then have "UExit \<in> set (p_ups p)" using assms(2) by (cases "p_ups p") auto
  then have "p_jobs p = []" using inv(3) by (simp add: closed_inv_def)
  then have nums: "distinct (map fst (p_parts p))" "fst ` set (p_parts p) = {1..<int (length cs) + 1}"
    using inv(1) done_busy [OF ex] k(1) by (auto simp: nums_inv_def)
  obtain ps where ps: "mp (s3 p) uid = Some ps" "dom ps = fst ` set (p_parts p)"
    "\<forall>n \<in> dom ps. ps n = Some (cs ! nat (n - 1))" using inv(2) by (auto simp: parts_inv_def)
  have "p_total p = int (length bs)"
    using inv(2) total_length [OF nums] k(2) by (simp add: parts_inv_def)
  then show ?thesis
    using that [of cs ps] sorted_numbers [OF nums] k nums ps by simp
qed

section \<open>Bodies over the limit\<close>

definition over_inv :: "'s pipe \<Rightarrow> bool" where
  "over_inv p \<longleftrightarrow> overflows (p_body p) \<and>
     (case p_prod p of
        PSend _ (Some x) \<Rightarrow> errors_is x ErrPayloadTooLarge \<and> \<not> errors_is x EOF
      | PDone None \<Rightarrow> False
      | _ \<Rightarrow> True)"

lemma fill_overflows:
  assumes "overflows r" and "fill k r = ((d, x), r')"
  shows "overflows r' \<and> (case x of None \<Rightarrow> True
    | Some y \<Rightarrow> errors_is y ErrPayloadTooLarge \<and> \<not> errors_is y EOF)"
proof -
  obtain x0 where rl: "read_loop k r = ((d, x0), r')"
    and x: "x = (case x0 of None \<Rightarrow> None
      | Some y \<Rightarrow> if errors_is y EOF then Some (Sentinel EOF) else Some y)"
    using assms(2) by (auto simp: fill_def split: prod.splits)
  have "over_law x0 r'" by (rule read_loop_overflows [OF assms(1) rl])
  then show ?thesis unfolding x by (auto simp: over_law_def split: option.splits)
qed

lemma pipe_step_over:
  assumes "over_inv p" and "pipe_step api key uid c m p = Some q"
  shows "over_inv q"
proof (cases m)
  case MFill
  obtain d x b where f: "fill (nat (partSize c)) (p_body p) = ((d, x), b)" by (metis prod.exhaust)
  have pf: "p_prod p = PFill" using assms(2) MFill by (auto split: producer.splits)
  have q: "q = p\<lparr>p_body := b, p_prod := (if d \<noteq> [] then PSend \<lparr>pj_num = partNum p, pj_data = d\<rparr> x
      else after_fill x)\<rparr>" using assms(2) MFill pf f by simp
  from assms(1) have "overflows (p_body p)" by (simp add: over_inv_def)
  from fill_overflows [OF this f] show ?thesis
    unfolding q by (cases x) (auto simp: over_inv_def after_fill_def)
next
  case MSend
  with assms show ?thesis
    by (auto simp: over_inv_def after_fill_def split: producer.splits if_splits option.splits)
qed (use assms in \<open>auto simp: over_inv_def set_up_def fail_up_def
       split: producer.splits prod.splits if_splits option.splits uploader.splits list.splits sum.splits\<close>)


section \<open>Sizes of the parts in flight\<close>

definition sizes_ok :: "store_cfg \<Rightarrow> 's pipe \<Rightarrow> bool" where
  "sizes_ok c p \<longleftrightarrow> (\<forall>j \<in> set (in_flight p). length (pj_data j) \<le> nat (partSize c)) \<and>
     (case p_prod p of
        PFirst d \<Rightarrow> length d \<le> nat (partSize c)
      | PSend j _ \<Rightarrow> length (pj_data j) \<le> nat (partSize c)
      | _ \<Rightarrow> True)"

lemma sizes_init:
  "(\<And>d. first = Some d \<Longrightarrow> length d \<le> nat (partSize c)) \<Longrightarrow> sizes_ok c (pipe_init c first body s)"
proof -
  have "busy_jobs (replicate n UIdle) = []" for n by (induction n) (auto simp: busy_jobs_def)
  then show "(\<And>d. first = Some d \<Longrightarrow> length d \<le> nat (partSize c)) \<Longrightarrow> sizes_ok c (pipe_init c first body s)"
    by (auto simp: sizes_ok_def in_flight_def pipe_init_def split: option.splits)
qed

lemma busy_jobs_upd:
  assumes "up_at i p = Some u"
  shows "set (busy_jobs ((p_ups p)[i := v])) \<subseteq> set (busy_of v) \<union> set (busy_jobs (p_ups p))"
proof -
  obtain a b where "p_ups p = a @ u # b" "(p_ups p)[i := v] = a @ v # b"
    using ups_split [OF assms] by metis
  then show ?thesis by auto
qed

lemma busy_member: "up_at i p = Some (UBusy j) \<Longrightarrow> j \<in> set (busy_jobs (p_ups p))"
  by (erule ups_split) simp

lemma fill_length: "fill k r = ((d, x), r') \<Longrightarrow> length d \<le> k"
  by (auto simp: fill_def dest: read_loop_length split: prod.splits)

lemma after_fill_ends [simp]: "after_fill x \<noteq> PFirst d" "after_fill x \<noteq> PSend j y"
  by (auto simp: after_fill_def split: option.splits)

lemma pipe_step_sizes:
  assumes "sizes_ok c p" and "pipe_step api key uid c m p = Some q"
  shows "sizes_ok c q"
proof (cases m)
  case MFill
  obtain d x b where f: "fill (nat (partSize c)) (p_body p) = ((d, x), b)" by (metis prod.exhaust)
  with assms MFill fill_length [OF f] show ?thesis
    by (auto simp: sizes_ok_def in_flight_def split: producer.splits if_splits)
next
  case MSend
  with assms show ?thesis
    by (auto simp: sizes_ok_def in_flight_def split: producer.splits if_splits)
next
  case (MTake i)
  then obtain j js where "up_at i p = Some UIdle" "p_jobs p = j # js"
    "q = set_up i (UBusy j) (p\<lparr>p_jobs := js\<rparr>)"
    using assms(2) by (auto split: option.splits uploader.splits list.splits)
  with assms(1) busy_jobs_upd [of i p UIdle "UBusy j"] show ?thesis
    by (fastforce simp: sizes_ok_def in_flight_def set_up_def)
next
  case (MUpload i)
  then obtain j where j: "up_at i p = Some (UBusy j)"
    using assms(2) by (auto split: option.splits uploader.splits)
  show ?thesis
    using assms MUpload j busy_jobs_upd [OF j, of UIdle] busy_jobs_upd [OF j, of UExit]
    by (fastforce simp: sizes_ok_def in_flight_def set_up_def fail_up_def split: prod.splits sum.splits)
next
  case (MAbandon i)
  then obtain j where j: "up_at i p = Some (UBusy j)"
    using assms(2) by (auto split: option.splits uploader.splits)
  show ?thesis
    using assms MAbandon j busy_jobs_upd [OF j, of UExit]
    by (fastforce simp: sizes_ok_def in_flight_def set_up_def fail_up_def split: if_splits)
next
  case (MExit i)
  then have "up_at i p = Some UIdle" "q = set_up i UExit p"
    using assms(2) by (auto split: option.splits uploader.splits list.splits producer.splits)
  with assms(1) busy_jobs_upd [of i p UIdle UExit] show ?thesis
    by (fastforce simp: sizes_ok_def in_flight_def set_up_def)
qed (use assms in \<open>auto simp: sizes_ok_def in_flight_def split: producer.splits if_splits\<close>)

lemma run_sched_sizes: "sizes_ok c p \<Longrightarrow> sizes_ok c (run_sched api key uid c ms p)"
  by (induction ms arbitrary: p) (auto split: option.splits intro: pipe_step_sizes)

section \<open>The promise of the object store\<close>

text \<open>What the service layer relies on. \<open>'n\<close> is whatever else decides a put: here the schedule.\<close>

locale object_store =
  fixes put :: "'n \<Rightarrow> string \<Rightarrow> reader \<Rightarrow> int \<Rightarrow> string \<Rightarrow> 's \<Rightarrow> ((goerr + int) \<times> reader) \<times> 's"
    and del :: "string \<Rightarrow> 's \<Rightarrow> goerr option \<times> 's"
    and objs :: "'s \<Rightarrow> string \<Rightarrow> bytes option"
  assumes put_stores: "put n key body sz ct s = ((Inr m, b), s') \<Longrightarrow> delivers body bs e \<Longrightarrow>
      errors_is e EOF \<and> m = int (length bs) \<and> objs s' = (objs s)(key := Some bs)"
    and put_frame: "put n key body sz ct s = (rb, s') \<Longrightarrow> k \<noteq> key \<Longrightarrow> objs s' k = objs s k"
    and put_over: "put n key body sz ct s = ((r, b), s') \<Longrightarrow> overflows body \<Longrightarrow> \<exists>x. r = Inl x"
    and del_removes: "del key s = (None, s') \<Longrightarrow> key \<noteq> '''' \<Longrightarrow> objs s' = (objs s)(key := None)"
    and del_frame: "del key s = (x, s') \<Longrightarrow> k \<noteq> key \<Longrightarrow> objs s' k = objs s k"

context s3_service begin

lemma pipe_inv_init:
  assumes "delivers body rest e" and "mparts s uid = Some (\<lambda>_. None)"
  shows "pipe_inv mparts uid ((case first of None \<Rightarrow> [] | Some d \<Rightarrow> d) @ rest) e (pipe_init c first body s)"
proof -
  have busy: "busy_jobs (replicate n UIdle) = []" for n
    by (induction n) (auto simp: busy_jobs_def)
  have "prod_inv ((case first of None \<Rightarrow> [] | Some d \<Rightarrow> d) @ rest) e
      (case first of None \<Rightarrow> [] | Some d \<Rightarrow> [d]) (pipe_init c first body s)"
    using assms(1) by (auto simp: prod_inv_def pipe_init_def split: option.splits)
  moreover have "data_inv (mparts s uid) (case first of None \<Rightarrow> [] | Some d \<Rightarrow> [d]) (pipe_init c first body s)"
    using assms(2) busy
    by (auto simp: data_inv_def nums_inv_def jobs_inv_def parts_inv_def closed_inv_def pipe_init_def)
  ultimately show ?thesis unfolding pipe_inv_def by (intro exI) (auto simp: pipe_init_def)
qed

lemma pipe_step_objs: "pipe_step api key uid c m p = Some q \<Longrightarrow> objs (s3 q) = objs (s3 p)"
proof (cases "\<exists>i. m = MUpload i")
  case True
  assume st: "pipe_step api key uid c m p = Some q"
  from True obtain i where m: "m = MUpload i" by blast
  with st obtain j where u: "up_at i p = Some (UBusy j)"
    by (auto split: option.splits uploader.splits)
  obtain r s where ap: "api_part api key uid (pj_num j) (pj_data j) (s3 p) = (r, s)"
    by (metis prod.exhaust)
  have "s3 q = s"
    using st m u ap by (cases r) (auto simp: set_up_def fail_up_def)
  then show ?thesis using part_objs [of key uid "pj_num j" "pj_data j" "s3 p"] ap by simp
next
  case False
  assume "pipe_step api key uid c m p = Some q"
  with False s3_step_other show ?thesis by fastforce
qed

lemma finish_pipe_frame:
  "finish_pipe api key uid p = (r, s') \<Longrightarrow> k \<noteq> key \<Longrightarrow> objs s' k = objs (s3 p) k"
  using complete_frame [of k key uid "sort_key fst (p_parts p)" "s3 p"] abort_objs
  by (auto simp: finish_pipe_def Let_def split: producer.splits option.splits prod.splits)

lemma finish_pipe_ok:
  assumes "finish_pipe api key uid p = (Inr n, s')" and "pipe_done p" and "p_ups p \<noteq> []"
    and "pipe_inv mparts uid bs e p"
  shows "errors_is e EOF \<and> n = int (length bs) \<and> objs s' = (objs (s3 p))(key := Some bs)"
proof -
  have ok: "p_prod p = PDone None" "gerr p = None" "n = p_total p"
    and comp: "api_complete api key uid (sort_key fst (p_parts p)) (s3 p) = (None, s')"
    using assms(1,2)
    by (auto simp: finish_pipe_def pipe_done_def Let_def split: producer.splits option.splits prod.splits)
  obtain cs ps where d: "map fst (sort_key fst (p_parts p)) = [1..int (length cs)]"
    "concat cs = bs" "errors_is e EOF" "p_total p = int (length bs)"
    "mparts (s3 p) uid = Some ps" "dom ps = {1..<int (length cs) + 1}"
    "\<And>n. n \<in> dom ps \<Longrightarrow> ps n = Some (cs ! nat (n - 1))"
    using done_parts [OF assms(2-4) ok(1,2)] by metis
  have "map (\<lambda>n. the (ps n)) [1..int (length cs)] = map (\<lambda>n. cs ! nat (n - 1)) [1..int (length cs)]"
    using d(6,7) by auto
  then have "concat (map (\<lambda>n. the (ps n)) (map fst (sort_key fst (p_parts p)))) = bs"
    unfolding d(1) using nths_upto [of cs] d(2) by simp
  moreover have "objs s' = (objs (s3 p))(key := Some (concat (map (\<lambda>n. the (ps n))
      (map fst (sort_key fst (p_parts p))))))"
    by (rule complete_ok [OF comp d(5)]) (use d(6) in \<open>auto simp: d(1) upto_sorted\<close>)
  ultimately show ?thesis using d(3,4) ok(3) by simp
qed

lemma run_pipe_frame: "objs (s3 (run_pipe api key uid c sched (pipe_init c first body s))) = objs s"
  by (rule run_pipe_invariant [where I = "\<lambda>p. objs (s3 p) = objs s"])
     (auto simp: pipe_step_objs pipe_init_def)

lemma multipart_frame:
  assumes "putMultipartFromFirst api c sched key first body ct s = (rb, s')" and "k \<noteq> key"
  shows "objs s' k = objs s k"
proof (cases "api_create api key ct s")
  case (Pair u s1)
  show ?thesis
  proof (cases u)
    case (Inl x)
    with Pair assms show ?thesis using create_err by (simp add: putMultipartFromFirst_def)
  next
    case (Inr uid)
    obtain r s2 where f: "finish_pipe api key uid (run_pipe api key uid c sched (pipe_init c first body s1)) = (r, s2)"
      by (metis prod.exhaust)
    with assms(1) Pair Inr have "s' = s2" by (auto simp: putMultipartFromFirst_def Let_def)
    with finish_pipe_frame [OF f assms(2)] run_pipe_frame create_ok [OF Pair [unfolded Inr]]
    show ?thesis by simp
  qed
qed

lemma multipart_ok:
  assumes "putMultipartFromFirst api c sched key first body ct s = ((Inr n, b), s')"
    and "1 \<le> partSize c" and "1 \<le> partConcurrency c" and "delivers body rest e"
    and "bs = (case first of None \<Rightarrow> [] | Some d \<Rightarrow> d) @ rest"
  shows "errors_is e EOF \<and> n = int (length bs) \<and> objs s' = (objs s)(key := Some bs)"
proof -
  obtain uid s1 where cr: "api_create api key ct s = (Inr uid, s1)"
    using assms(1) by (auto simp: putMultipartFromFirst_def split: prod.splits sum.splits)
  let ?p = "run_pipe api key uid c sched (pipe_init c first body s1)"
  have f: "finish_pipe api key uid ?p = (Inr n, s')"
    using assms(1) cr by (auto simp: putMultipartFromFirst_def Let_def split: prod.splits)
  have init: "objs s1 = objs s" "mparts s1 uid = Some (\<lambda>_. None)" using create_ok [OF cr] by auto
  have "pipe_inv mparts uid bs e ?p"
    by (rule run_pipe_invariant [where I = "pipe_inv mparts uid bs e"], rule pipe_step_inv [OF assms(2)])
       (auto simp: assms(5) intro!: pipe_inv_init assms(4) init(2))
  moreover have "shape_ok c ?p"
    by (rule run_pipe_invariant [where I = "shape_ok c"]) (auto intro: pipe_step_shape shape_init assms(3))
  then have "p_ups ?p \<noteq> []" using assms(3) by (auto simp: shape_ok_def)
  ultimately show ?thesis
    using finish_pipe_ok [OF f run_pipe_done [OF assms(2,3)]] run_pipe_frame [of key uid c sched first body s1]
      init(1) by simp
qed

lemma multipart_over:
  assumes "overflows body" and "1 \<le> partSize c" and "1 \<le> partConcurrency c"
  shows "\<exists>x. fst (fst (putMultipartFromFirst api c sched key first body ct s)) = Inl x"
proof (cases "api_create api key ct s")
  case (Pair u s1)
  show ?thesis
  proof (cases u)
    case (Inr uid)
    let ?p = "run_pipe api key uid c sched (pipe_init c first body s1)"
    have "over_inv ?p"
      by (rule run_pipe_invariant [where I = over_inv], rule pipe_step_over)
         (use assms(1) in \<open>auto simp: over_inv_def pipe_init_def split: option.splits\<close>)
    moreover have "pipe_done ?p" by (rule run_pipe_done [OF assms(2,3)])
    ultimately have "\<exists>x. p_prod ?p = PDone (Some x)"
      by (auto simp: over_inv_def pipe_done_def split: producer.splits option.splits)
    with Pair Inr show ?thesis
      by (auto simp: putMultipartFromFirst_def Let_def finish_pipe_def split: prod.splits)
  qed (use Pair in \<open>simp add: putMultipartFromFirst_def\<close>)
qed

lemma putObject_ok:
  assumes "putObject api key body sz ct s = ((Inr n, b), s')" and "delivers body bs e"
    and "0 < sz \<or> sz = int (length bs)"
  shows "errors_is e EOF \<and> n = int (length bs) \<and> objs s' = (objs s)(key := Some bs)"
proof -
  obtain b' where ap: "api_put api key (if sz > 0 then sz else 0) body ct s = ((None, b'), s')" and n: "n = sz"
    using assms(1) by (auto simp: putObject_def split: prod.splits option.splits)
  from put_ok [OF ap assms(2)] n assms(3) show ?thesis by (auto split: if_splits)
qed

lemma putObject_frame:
  assumes "putObject api key body sz ct s = (rb, s')" and "k \<noteq> key"
  shows "objs s' k = objs s k"
proof -
  obtain x b where ap: "api_put api key (if sz > 0 then sz else 0) body ct s = ((x, b), s')"
    using assms(1) by (auto simp: putObject_def split: prod.splits option.splits)
  from put_frame [OF this assms(2)] show ?thesis .
qed

lemma putObject_over:
  assumes "overflows body"
  shows "\<exists>x. fst (fst (putObject api key body sz ct s)) = Inl x"
proof -
  obtain x b s' where ap: "api_put api key (if sz > 0 then sz else 0) body ct s = ((x, b), s')"
    by (metis prod.exhaust)
  from put_over [OF this assms] have "x \<noteq> None" .
  with ap show ?thesis by (auto simp: putObject_def)
qed

lemma fill_eof_split:
  assumes "fill k body = ((d, Some x), b)" and "delivers body bs e"
  shows "bs = d \<and> errors_is x EOF = errors_is e EOF"
  using fill_delivers [OF assms(2,1)] by auto

lemma putAuto_ok:
  assumes "putAuto api c sched key body ct s = ((Inr n, b), s')"
    and "1 \<le> partSize c" and "1 \<le> partConcurrency c" and "delivers body bs e"
  shows "errors_is e EOF \<and> n = int (length bs) \<and> objs s' = (objs s)(key := Some bs)"
proof -
  obtain d x b1 where f: "fill (nat (partSize c)) body = ((d, x), b1)" by (metis prod.exhaust)
  show ?thesis
  proof (cases x)
    case (Some y)
    have d: "bs = d" "errors_is y EOF = errors_is e EOF"
      using fill_eof_split [OF f [unfolded Some] assms(4)] by auto
    have y: "errors_is y EOF" using assms(1) f Some by (auto simp: putAuto_def split: if_splits)
    obtain b2 where "putObject api key (Stream [Data d None]) (int (length d)) ct s = ((Inr n, b2), s')"
      using assms(1) f Some y by (auto simp: putAuto_def split: prod.splits)
    from putObject_ok [OF this, of d "Sentinel EOF"] d y show ?thesis by simp
  next
    case None
    then have mp: "putMultipartFromFirst api c sched key (Some d) b1 ct s = ((Inr n, b), s')"
      using assms(1) f by (simp add: putAuto_def)
    obtain t where "bs = d @ t" "delivers b1 t e"
      using fill_delivers [OF assms(4) f] None by auto
    with multipart_ok [OF mp assms(2,3)] show ?thesis by simp
  qed
qed

lemma putAuto_frame:
  assumes "putAuto api c sched key body ct s = (rb, s')" and "k \<noteq> key"
  shows "objs s' k = objs s k"
proof -
  obtain d x b1 where f: "fill (nat (partSize c)) body = ((d, x), b1)" by (metis prod.exhaust)
  show ?thesis
  proof (cases x)
    case (Some y)
    show ?thesis
    proof (cases "errors_is y EOF")
      case True
      obtain r b2 s2 where po: "putObject api key (Stream [Data d None]) (int (length d)) ct s = ((r, b2), s2)"
        by (metis prod.exhaust)
      with assms(1) f Some True have "s' = s2" by (auto simp: putAuto_def)
      with putObject_frame [OF po assms(2)] show ?thesis by simp
    qed (use assms f Some in \<open>auto simp: putAuto_def\<close>)
  next
    case None
    with assms(1) f have "putMultipartFromFirst api c sched key (Some d) b1 ct s = (rb, s')"
      by (simp add: putAuto_def)
    from multipart_frame [OF this assms(2)] show ?thesis .
  qed
qed

lemma putAuto_over:
  assumes "overflows body" and "1 \<le> partSize c" and "1 \<le> partConcurrency c"
  shows "\<exists>x. fst (fst (putAuto api c sched key body ct s)) = Inl x"
proof -
  obtain d x b1 where f: "fill (nat (partSize c)) body = ((d, x), b1)" by (metis prod.exhaust)
  note fo = fill_overflows [OF assms(1) f]
  show ?thesis
  proof (cases x)
    case None
    with f fo multipart_over [OF _ assms(2,3)] show ?thesis by (simp add: putAuto_def)
  qed (use f fo in \<open>simp add: putAuto_def\<close>)
qed

end

section \<open>The store provides the promise\<close>

locale s3_store = s3_service +
  fixes cfg :: store_cfg
  assumes part_size: "1 \<le> partSize cfg" and part_conc: "1 \<le> partConcurrency cfg"

sublocale s3_store \<subseteq> object_store "Put api cfg" "Delete api" objs
proof
  fix n key body sz ct s m b s' bs e
  assume p: "Put api cfg n key body sz ct s = ((Inr m, b), s')" and d: "delivers body bs e"
  consider (single) "0 < sz" "sz < multipartThreshold cfg" | (multi) "0 < sz" "\<not> sz < multipartThreshold cfg"
    | (auto) "\<not> 0 < sz" by blast
  then show "errors_is e EOF \<and> m = int (length bs) \<and> objs s' = (objs s)(key := Some bs)"
  proof cases
    case single
    with p putObject_ok [OF _ d] show ?thesis by (auto simp: Put_def)
  next
    case multi
    with p have "putMultipartFromFirst api cfg n key None body ct s = ((Inr m, b), s')"
      by (simp add: Put_def)
    from multipart_ok [OF this part_size part_conc d] show ?thesis by simp
  next
    case auto
    with p putAuto_ok [OF _ part_size part_conc d] show ?thesis by (simp add: Put_def)
  qed
next
  fix n key body sz ct s rb s' k
  assume "Put api cfg n key body sz ct s = (rb, s')" and "k \<noteq> key"
  then show "objs s' k = objs s k"
    using putObject_frame multipart_frame putAuto_frame by (simp add: Put_def split: if_splits)
next
  fix n key body sz ct s r b s'
  assume "Put api cfg n key body sz ct s = ((r, b), s')" and "overflows body"
  then show "\<exists>x. r = Inl x"
    using putObject_over multipart_over [OF _ part_size part_conc] putAuto_over [OF _ part_size part_conc]
    by (simp add: Put_def split: if_splits) (metis fst_conv)+
next
  fix key s s'
  assume "Delete api key s = (None, s')" and "key \<noteq> ''''"
  then show "objs s' = (objs s)(key := None)"
    using delete_ok by (auto simp: Delete_def split: prod.splits option.splits)
next
  fix key s x s' k
  assume "Delete api key s = (x, s')" and "k \<noteq> key"
  then show "objs s' k = objs s k"
    using delete_frame [of k key s] by (auto simp: Delete_def split: prod.splits option.splits if_splits)
qed

context s3_store begin

lemma is_object_store: "object_store (Put api cfg) (Delete api) objs"
  by (rule object_store_axioms)

end

lemma store_of_service:
  "s3_service api objs mparts \<Longrightarrow> 1 \<le> partSize c \<Longrightarrow> 1 \<le> partConcurrency c \<Longrightarrow>
    object_store (Put api c) (Delete api) objs"
  by (rule s3_store.is_object_store) (simp add: s3_store_def s3_store_axioms_def)

end
