(* ===== verification/FakeS3.thy ===== *)
theory FakeS3
  imports S3Contract
begin

text \<open>
  The in-process S3 server of \<open>internal/storage/s3/store_test.go\<close>, as the record of calls the store
  makes, and its proof that it keeps the contract \<open>s3_service\<close>; then the properties of the upload
  path, which hold for every service that keeps the contract and are applied to this one.
\<close>

section \<open>The server\<close>

record fake_s3 =
  objects :: "string \<Rightarrow> bytes option"
  parts :: "string \<Rightarrow> (int \<times> bytes) list option" \<comment> \<open>upload id, then part number\<close>
  aborted :: "string \<Rightarrow> bool"
  nextID :: nat
  failPart :: int

definition newFakeS3 :: fake_s3 where
  "newFakeS3 = \<lparr>objects = (\<lambda>_. None), parts = (\<lambda>_. None), aborted = (\<lambda>_. False), nextID = 0, failPart = 0\<rparr>"

text \<open>
  A plain PUT. The handler stores whatever arrives; the client's transport sends the body to its end,
  and reports an error of the body, or a body that is not as long as announced.
\<close>

definition fake_put :: "string \<Rightarrow> int \<Rightarrow> reader \<Rightarrow> string \<Rightarrow> fake_s3 \<Rightarrow> (goerr option \<times> reader) \<times> fake_s3" where
  "fake_put key len body ct s =
     (case read_loop (Suc (weight body)) body of
        ((bs, e), b) \<Rightarrow>
          ((if e \<noteq> Some (Sentinel EOF)
            then Some (case e of Some x \<Rightarrow> x | None \<Rightarrow> no_progress)
            else if 0 < len \<and> len \<noteq> int (length bs) then Some (Opaque ''http: ContentLength mismatch'')
            else None, b),
           s\<lparr>objects := (objects s)(key := Some bs)\<rparr>))"

definition createMultipart :: "string \<Rightarrow> string \<Rightarrow> fake_s3 \<Rightarrow> (goerr + string) \<times> fake_s3" where
  "createMultipart key ct s =
     (let n = nextID s + 1; uploadID = ''upload-'' @ itoa (int n)
      in (Inr uploadID, s\<lparr>nextID := n, parts := (parts s)(uploadID := Some [])\<rparr>))"

definition fake_part :: "string \<Rightarrow> string \<Rightarrow> int \<Rightarrow> bytes \<Rightarrow> fake_s3 \<Rightarrow> (goerr + string) \<times> fake_s3" where
  "fake_part key uid n d s =
     (if 0 < failPart s \<and> n = failPart s then (Inl (Opaque ''InternalServerError''), s)
      else (Inr (''\"etag-'' @ itoa n @ ''\"''),
            s\<lparr>parts := (parts s)(uid := Some ((n, d) #
                filter (\<lambda>x. fst x \<noteq> n) (case parts s uid of None \<Rightarrow> [] | Some ps \<Rightarrow> ps)))\<rparr>))"

definition completeMultipart ::
  "string \<Rightarrow> string \<Rightarrow> (int \<times> string) list \<Rightarrow> fake_s3 \<Rightarrow> goerr option \<times> fake_s3" where
  "completeMultipart key uid m s =
     (if \<not> sorted (map fst m) then (Some (Opaque ''InvalidPartOrder''), s)
      else let stored = (case parts s uid of None \<Rightarrow> [] | Some ps \<Rightarrow> ps);
               nums = sort (map fst stored);
               assembled = concat (map (\<lambda>n. the (map_of stored n)) nums)
           in (None, s\<lparr>objects := (objects s)(key := Some assembled)\<rparr>))"

definition fake_abort :: "string \<Rightarrow> string \<Rightarrow> fake_s3 \<Rightarrow> fake_s3" where
  "fake_abort key uid s = s\<lparr>aborted := (aborted s)(uid := True)\<rparr>"

definition fake_delete :: "string \<Rightarrow> fake_s3 \<Rightarrow> goerr option \<times> fake_s3" where
  "fake_delete key s = (None, s\<lparr>objects := (objects s)(key := None)\<rparr>)"

text \<open>Signing a URL is the client's work, not the server's: a parameter.\<close>

definition fake_api :: "(string \<Rightarrow> duration \<Rightarrow> goerr + string) \<Rightarrow> fake_s3 s3_api" where
  "fake_api presign = \<lparr>api_put = fake_put, api_create = createMultipart, api_part = fake_part,
     api_complete = completeMultipart, api_abort = fake_abort, api_delete = fake_delete,
     api_head = (\<lambda>s. (None, s)),
     api_create_bucket = (\<lambda>s. (None, s\<lparr>objects := (objects s)('''' := Some [])\<rparr>)),
     api_presign = presign\<rparr>"

definition fake_parts :: "fake_s3 \<Rightarrow> string \<Rightarrow> (int \<Rightarrow> bytes option) option" where
  "fake_parts s uid =
     (case parts s uid of Some ps \<Rightarrow> if distinct (map fst ps) then Some (map_of ps) else None | None \<Rightarrow> None)"

section \<open>It keeps the contract\<close>

lemma fake_parts_SomeD:
  "fake_parts s uid = Some m \<Longrightarrow> \<exists>ps. parts s uid = Some ps \<and> distinct (map fst ps) \<and> m = map_of ps"
  by (auto simp: fake_parts_def split: option.splits if_splits)

lemma fake_put_delivers:
  assumes "fake_put key len body ct s = ((None, b), s')" and "delivers body bs e"
  shows "e = Sentinel EOF \<and> (0 < len \<longrightarrow> len = int (length bs)) \<and> objects s' = (objects s)(key := Some bs)"
proof -
  obtain out x b1 where rl: "read_loop (Suc (weight body)) body = ((out, x), b1)" by (metis prod.exhaust)
  have "x = Some (Sentinel EOF)" and l: "0 < len \<longrightarrow> len = int (length out)"
    and s': "s' = s\<lparr>objects := (objects s)(key := Some out)\<rparr>"
    using assms(1) rl by (auto simp: fake_put_def split: if_splits)
  with read_loop_delivers [OF assms(2) rl] have "out = bs" "e = Sentinel EOF"
    by (auto simp: read_law_def)
  with l s' show ?thesis by simp
qed

lemma fake_put_over:
  "fake_put key len body ct s = ((r, b), s') \<Longrightarrow> overflows body \<Longrightarrow> r \<noteq> None"
  using read_loop_overflows [of body "Suc (weight body)"]
  by (fastforce simp: fake_put_def over_law_def capped_err_def werr_def
      split: prod.splits if_splits option.splits)

lemma map_of_drop_key: "map_of (filter (\<lambda>x. fst x \<noteq> n) ps) k = (if k = n then None else map_of ps k)"
  by (induction ps) auto

lemma fake_part_ok:
  assumes "fake_part key uid n d s = (Inr etag, s')" and "fake_parts s uid = Some m"
  shows "fake_parts s' uid = Some (m(n := Some d))"
proof -
  obtain ps where ps: "parts s uid = Some ps" "distinct (map fst ps)" "m = map_of ps"
    using fake_parts_SomeD [OF assms(2)] by blast
  let ?qs = "filter (\<lambda>x. fst x \<noteq> n) ps"
  have s': "parts s' uid = Some ((n, d) # ?qs)"
    using assms(1) ps(1) by (auto simp: fake_part_def split: if_splits)
  have "distinct (map fst ?qs)" using ps(2) by (simp add: distinct_map_filter)
  moreover have "map_of ((n, d) # ?qs) = m(n := Some d)"
    by (rule ext) (simp add: ps(3) map_of_drop_key)
  ultimately show ?thesis by (auto simp: fake_parts_def s')
qed

lemma complete_ok_fake:
  assumes "completeMultipart key uid m s = (None, s')" and "fake_parts s uid = Some ps"
    and "sorted_wrt (<) (map fst m)" and "dom ps = set (map fst m)"
  shows "objects s' = (objects s)(key := Some (concat (map (\<lambda>n. the (ps n)) (map fst m))))"
proof -
  obtain st where st: "parts s uid = Some st" "distinct (map fst st)" "ps = map_of st"
    using fake_parts_SomeD [OF assms(2)] by blast
  have "sort (map fst st) = map fst m"
    using assms(3,4) st(2,3)
    by (intro sorted_distinct_set_unique) (auto simp: dom_map_of_conv_image_fst strict_sorted_iff)
  with assms(1) st show ?thesis by (auto simp: completeMultipart_def split: if_splits)
qed

interpretation fake: s3_service "fake_api presign" objects fake_parts
proof
  show "fake_parts s' uid = Some (ps(n := Some d))"
    if "api_part (fake_api presign) key uid n d s = (Inr etag, s')" "fake_parts s uid = Some ps"
    for key uid n d s etag s' ps
    using fake_part_ok that by (simp add: fake_api_def)
  show "objects s' = (objects s)(key := Some (concat (map (\<lambda>n. the (ps n)) (map fst m))))"
    if "api_complete (fake_api presign) key uid m s = (None, s')" "fake_parts s uid = Some ps"
      "sorted_wrt (<) (map fst m)" "dom ps = set (map fst m)" for key uid m s s' ps
    using complete_ok_fake that by (simp add: fake_api_def)
qed (auto simp: fake_api_def fake_put_delivers createMultipart_def Let_def fake_parts_def fake_part_def
    completeMultipart_def fake_abort_def fake_delete_def fun_eq_iff
    dest: fake_put_over split: if_splits,
    auto simp: fake_put_def split: prod.splits)


text \<open>The store of the tests (\<open>newStore\<close> with 5 MiB parts), and a small one for examples.\<close>

definition newStore :: store_cfg where
  "newStore = \<lparr>multipartThreshold = 10 * 2 ^ 20, partSize = 5 * 2 ^ 20, partConcurrency = 4\<rparr>"

definition tiny_store :: store_cfg where
  "tiny_store = \<lparr>multipartThreshold = 4, partSize = 2, partConcurrency = 2\<rparr>"

definition no_url :: "string \<Rightarrow> duration \<Rightarrow> goerr + string" where
  "no_url key d = Inl (Opaque ''no signer'')"

interpretation fake_store: s3_store "fake_api presign" objects fake_parts newStore
  by unfold_locales (simp_all add: newStore_def)

interpretation tiny: s3_store "fake_api presign" objects fake_parts tiny_store
  by unfold_locales (simp_all add: tiny_store_def)

lemma fake_service: "s3_service (fake_api presign) objects fake_parts"
  by (rule fake.s3_service_axioms)

section \<open>Properties of the upload path\<close>

text \<open>
  C5. An upload that \<open>Put\<close> reports as successful stored the object byte for byte: whatever the order in
  which the producer and the workers of a multipart upload ran, whatever the sizes of the reads, and
  for each of the three paths (single put, multipart, buffered first part), the object under the key
  is exactly what the body delivered up to its end, the returned size is its length, and the body did
  not end in an error. Every other object is what it was.
\<close>
theorem put_stores_exact_bytes:
  assumes "s3_service api objs mparts" and "1 \<le> partSize c" and "1 \<le> partConcurrency c"
    and "delivers body bs e" and "Put api c sched key body sz ct s = ((Inr n, b), s')"
  shows "errors_is e EOF \<and> n = int (length bs) \<and> objs s' = (objs s)(key := Some bs)"
  using object_store.put_stores [OF store_of_service [OF assms(1-3)] assms(5,4)] .

theorem put_stores_exact_bytes_witness:
  "\<exists>b s'. Put (fake_api no_url) tiny_store [MSend, MTake 1, MFill, MSend, MTake 0, MUpload 0, MUpload 1] ''k''
      (Stream [Data ''abc'' None, Data ''de'' None]) 0 ''image/png'' newFakeS3 = ((Inr 5, b), s') \<and>
     objects s' = (objects newFakeS3)(''k'' := Some ''abcde'')"
proof -
  have ev: "case Put (fake_api no_url) tiny_store [MSend, MTake 1, MFill, MSend, MTake 0, MUpload 0, MUpload 1] ''k''
      (Stream [Data ''abc'' None, Data ''de'' None]) 0 ''image/png'' newFakeS3 of ((r, _), s') \<Rightarrow> r = Inr 5"
    by code_simp
  then obtain b s' where p: "Put (fake_api no_url) tiny_store
      [MSend, MTake 1, MFill, MSend, MTake 0, MUpload 0, MUpload 1] ''k''
      (Stream [Data ''abc'' None, Data ''de'' None]) 0 ''image/png'' newFakeS3 = ((Inr 5, b), s')"
    by (auto split: prod.splits)
  have "delivers (Stream [Data ''abc'' None, Data ''de'' None]) ''abcde'' (Sentinel EOF)" by simp
  from put_stores_exact_bytes [OF fake_service _ _ this p] p show ?thesis by (simp add: tiny_store_def)
qed

text \<open>
  C25. A body that runs past its limit is never stored under a success: \<open>Put\<close> returns an error on every
  path and for every schedule, even when the excess arrives only after parts have been uploaded.
\<close>
theorem put_rejects_oversized_body:
  assumes "s3_service api objs mparts" and "1 \<le> partSize c" and "1 \<le> partConcurrency c"
    and "overflows body"
  shows "\<exists>x. fst (fst (Put api c sched key body sz ct s)) = Inl x"
  using object_store.put_over [OF store_of_service [OF assms(1-3)] _ assms(4)]
  by (metis prod.collapse)

theorem put_rejects_oversized_body_witness:
  "\<exists>x. fst (fst (Put (fake_api no_url) tiny_store [] ''k''
     (Capped (Stream [Data ''abc'' None, Data ''de'' None]) 4 0 False) 0 ''image/png'' newFakeS3)) = Inl x"
proof -
  have "overflows (Capped (Stream [Data ''abc'' None, Data ''de'' None]) 4 0 False)"
    by (auto simp: max_int64_def)
  from put_rejects_oversized_body [OF fake_service _ _ this] show ?thesis by (simp add: tiny_store_def)
qed

text \<open>
  C26. No schedule of a multipart upload runs for ever and none gets stuck. In every run of the pipeline (any
  moves of its goroutines, each possible where it is made, the request cancelled at any points, any answers of
  the service) the goroutines make at most a fixed number of moves, five for each byte or read event of the
  body and a constant per goroutine; the run can be continued by a goroutine exactly as long as one of them
  has not returned; and completing any schedule by moves that are possible, as \<open>run_pipe\<close> does, brings all of
  them back.
\<close>
theorem multipart_always_finishes:
  assumes "1 \<le> partSize c" and "1 \<le> partConcurrency c"
    and "pipe_run api key uid c ms (pipe_init c first body s) = Some q"
  shows "length (filter (\<lambda>m. m \<noteq> MCancel) ms) \<le> 5 * weight body + 10 + nat (partConcurrency c) \<and>
    (pipe_done q \<longleftrightarrow> (\<forall>m. m \<noteq> MCancel \<longrightarrow> pipe_step api key uid c m q = None)) \<and>
    pipe_done (run_pipe api key uid c sched (pipe_init c first body s))"
proof (intro conjI)
  show "length (filter (\<lambda>m. m \<noteq> MCancel) ms) \<le> 5 * weight body + 10 + nat (partConcurrency c)"
    using pipe_run_cost [OF assms(1,3)] potential_init [of c first body s] by simp
  show "pipe_done q \<longleftrightarrow> (\<forall>m. m \<noteq> MCancel \<longrightarrow> pipe_step api key uid c m q = None)"
    using pipe_run_inv [OF assms(3) shape_init [OF assms(2)] exit_inv_init] by (intro done_iff_stuck assms(2)) auto
  show "pipe_done (run_pipe api key uid c sched (pipe_init c first body s))"
    by (rule run_pipe_done [OF assms(1,2)])
qed

text \<open>The second part is cancelled on its way while the producer still holds the third.\<close>

theorem multipart_always_finishes_witness:
  "\<exists>q. pipe_run (fake_api no_url) ''k'' ''upload-1'' tiny_store [MFill, MSend, MTake 0, MFill, MCancel, MAbandon 0, MGiveUp, MExit 1]
      (pipe_init tiny_store None (Stream [Data ''abc'' None]) newFakeS3) = Some q \<and>
     length (filter (\<lambda>m. m \<noteq> MCancel) [MFill, MSend, MTake 0, MFill, MCancel, MAbandon 0, MGiveUp, MExit 1]) \<le>
       5 * weight (Stream [Data ''abc'' None]) + 10 + nat (partConcurrency tiny_store) \<and>
     pipe_done q \<and> (\<nexists>m. m \<noteq> MCancel \<and> pipe_step (fake_api no_url) ''k'' ''upload-1'' tiny_store m q \<noteq> None)"
proof -
  let ?ms = "[MFill, MSend, MTake 0, MFill, MCancel, MAbandon 0, MGiveUp, MExit 1]"
  let ?p = "pipe_init tiny_store None (Stream [Data ''abc'' None]) newFakeS3"
  have "case pipe_run (fake_api no_url) ''k'' ''upload-1'' tiny_store ?ms ?p of None \<Rightarrow> False | Some q \<Rightarrow> pipe_done q"
    by code_simp
  then obtain q where q: "pipe_run (fake_api no_url) ''k'' ''upload-1'' tiny_store ?ms ?p = Some q" "pipe_done q"
    using case_SomeD by metis
  have c: "1 \<le> partSize tiny_store" "1 \<le> partConcurrency tiny_store" by (simp_all add: tiny_store_def)
  note res = multipart_always_finishes [OF c q(1)]
  have "\<nexists>m. m \<noteq> MCancel \<and> pipe_step (fake_api no_url) ''k'' ''upload-1'' tiny_store m q \<noteq> None"
    using conjunct1 [OF conjunct2 [OF res]] q(2) by metis
  with q conjunct1 [OF res] show ?thesis by (intro exI [of _ q] conjI)
qed

text \<open>
  The documented memory bound: at every point of every schedule an upload holds at most
  \<open>1 + 2 * partConcurrency\<close> part buffers (one with the producer, \<open>partConcurrency\<close> in the channel and
  one with each worker), and each part in flight has at most \<open>partSize\<close> bytes.
\<close>
theorem multipart_buffers_bounded:
  assumes "1 \<le> partConcurrency c" and "\<forall>d. first = Some d \<longrightarrow> length d \<le> nat (partSize c)"
    and "p = run_sched api key uid c sched (pipe_init c first body s)"
  shows "int (buffers_held p) \<le> 1 + 2 * partConcurrency c \<and>
    (\<forall>j \<in> set (in_flight p). length (pj_data j) \<le> nat (partSize c))"
proof
  have "shape_ok c p" unfolding assms(3) by (rule run_sched_shape [OF shape_init [OF assms(1)]])
  with shape_buffers assms(1) show "int (buffers_held p) \<le> 1 + 2 * partConcurrency c" by blast
  have "sizes_ok c p"
    unfolding assms(3) by (rule run_sched_sizes [OF sizes_init]) (use assms(2) in blast)
  then show "\<forall>j \<in> set (in_flight p). length (pj_data j) \<le> nat (partSize c)"
    by (simp add: sizes_ok_def)
qed

theorem multipart_buffers_bounded_witness:
  "int (buffers_held (run_sched (fake_api no_url) ''k'' ''upload-1'' tiny_store [MSend, MFill, MSend, MTake 0]
     (pipe_init tiny_store (Some ''ab'') (Stream [Data ''cde'' None]) newFakeS3))) \<le> 1 + 2 * partConcurrency tiny_store"
proof -
  have "1 \<le> partConcurrency tiny_store" "\<forall>d. Some ''ab'' = Some d \<longrightarrow> length d \<le> nat (partSize tiny_store)"
    by (simp_all add: tiny_store_def)
  from multipart_buffers_bounded [OF this refl] show ?thesis by (rule conjunct1)
qed

text \<open>
  A multipart upload that fails after it was created is aborted: the last thing \<open>Put\<close> does with the
  service is \<open>AbortMultipartUpload\<close> for that upload, so no parts are left behind.
\<close>
theorem failed_multipart_is_aborted:
  assumes "putMultipartFromFirst api c sched key first body ct s = ((Inl x, b), s')"
    and "api_create api key ct s = (Inr uid, s1)"
  shows "\<exists>s2. s' = api_abort api key uid s2"
  using assms
  by (auto simp: putMultipartFromFirst_def finish_pipe_def Let_def split: producer.splits option.splits prod.splits)

theorem failed_multipart_is_aborted_witness:
  "\<exists>s2 b x s'. putMultipartFromFirst (fake_api no_url) tiny_store [] ''k'' None (Stream [Data ''abc'' None])
      ''image/png'' (newFakeS3\<lparr>failPart := 1\<rparr>) = ((Inl x, b), s') \<and>
    s' = api_abort (fake_api no_url) ''k'' ''upload-1'' s2"
proof -
  have "case putMultipartFromFirst (fake_api no_url) tiny_store [] ''k'' None (Stream [Data ''abc'' None])
      ''image/png'' (newFakeS3\<lparr>failPart := 1\<rparr>) of ((r, _), _) \<Rightarrow> isl r"
    by code_simp
  then obtain x b s' where p: "putMultipartFromFirst (fake_api no_url) tiny_store [] ''k'' None
      (Stream [Data ''abc'' None]) ''image/png'' (newFakeS3\<lparr>failPart := 1\<rparr>) = ((Inl x, b), s')"
    by (auto simp: isl_def split: prod.splits)
  have "fst (api_create (fake_api no_url) ''k'' ''image/png'' (newFakeS3\<lparr>failPart := 1\<rparr>)) = Inr ''upload-1''"
    by code_simp
  then have "api_create (fake_api no_url) ''k'' ''image/png'' (newFakeS3\<lparr>failPart := 1\<rparr>) =
      (Inr ''upload-1'', snd (api_create (fake_api no_url) ''k'' ''image/png'' (newFakeS3\<lparr>failPart := 1\<rparr>)))"
    by (metis prod.collapse)
  from failed_multipart_is_aborted [OF p this] p show ?thesis by blast
qed

text \<open>
  The error that \<open>Put\<close> reports need not be the one that failed the upload: when a part is refused by
  the service while the producer is waiting to send the next one, the producer returns the
  cancellation of the group's context, which takes precedence over the worker's error. No request was
  cancelled here, yet the caller is told \<open>context.Canceled\<close>.
\<close>
theorem part_failure_reported_as_cancellation:
  "\<exists>sched. MCancel \<notin> set sched \<and>
     fst (fst (Put (fake_api no_url) tiny_store sched ''k'' (Stream [Data ''abc'' None, Data ''de'' None]) 0
       ''image/png'' (newFakeS3\<lparr>failPart := 1\<rparr>))) = Inl (Sentinel Canceled)"
proof (rule exI, intro conjI)
  show "fst (fst (Put (fake_api no_url) tiny_store [MSend, MTake 0, MUpload 0, MFill, MGiveUp] ''k''
      (Stream [Data ''abc'' None, Data ''de'' None]) 0 ''image/png'' (newFakeS3\<lparr>failPart := 1\<rparr>))) =
      Inl (Sentinel Canceled)"
    by code_simp
qed simp

end
