(* ===== verification/ServiceSpec.thy ===== *)
theory ServiceSpec
  imports Service Lifecycle FakeS3
begin

text \<open>
  What the job service promises. The locale \<open>job_repository\<close> says what it relies on of the repository,
  the locale \<open>object_store\<close> (theory \<open>S3Contract\<close>) what it relies on of the store; \<open>job_service\<close> is both.
  \<open>sys_step\<close> then puts drafts, table and objects together: requests and workers interleave at the
  granularity of the service's operations.
\<close>

section \<open>The repository the service relies on\<close>

text \<open>
  \<open>healthy\<close>: the server answers. \<open>reliable\<close>: an error of the next call means that it wrote nothing.
\<close>

locale job_repository =
  fixes create :: "job \<Rightarrow> 'p \<Rightarrow> (goerr option \<times> job) \<times> 'p"
    and getkey :: "string \<Rightarrow> 'p \<Rightarrow> (goerr + job) \<times> 'p"
    and rows_of :: "'p \<Rightarrow> job list"
    and healthy :: "'p \<Rightarrow> bool"
    and reliable :: "'p \<Rightarrow> bool"
  assumes create_fills: "create j p = ((x, j'), p') \<Longrightarrow> ID j \<noteq> '''' \<Longrightarrow>
      \<exists>t. j' = j\<lparr>CreatedAt := t, UpdatedAt := t\<rparr>"
    and create_ok: "create j p = ((None, j'), p') \<Longrightarrow>
      rows_of p' = rows_of p @ [j'] \<and> \<not> unique_violation j' (rows_of p)"
    and create_reliable: "reliable p \<Longrightarrow> create j p = ((Some e, j'), p') \<Longrightarrow> rows_of p' = rows_of p"
    and create_healthy: "healthy p \<Longrightarrow> create j p = ((x, j'), p') \<Longrightarrow> ID j \<noteq> '''' \<Longrightarrow>
      healthy p' \<and> x = (if unique_violation j (rows_of p) then Some (Sentinel ErrDuplicateKey) else None)"
    and healthy_reliable: "healthy p \<Longrightarrow> reliable p"
    and getkey_rows: "getkey k p = (y, p') \<Longrightarrow> rows_of p' = rows_of p"
    and getkey_ok: "getkey k p = (Inr j, p') \<Longrightarrow> j \<in> set (rows_of p) \<and> IdempotencyKey j = k"
    and getkey_healthy: "healthy p \<Longrightarrow> r \<in> set (rows_of p) \<Longrightarrow> IdempotencyKey r = k \<Longrightarrow> k \<noteq> '''' \<Longrightarrow>
      \<exists>j p'. getkey k p = (Inr j, p')"

locale job_service = job_repository create getkey rows_of healthy reliable + object_store put del objs
  for create :: "job \<Rightarrow> 'p \<Rightarrow> (goerr option \<times> job) \<times> 'p"
    and getkey :: "string \<Rightarrow> 'p \<Rightarrow> (goerr + job) \<times> 'p"
    and rows_of :: "'p \<Rightarrow> job list"
    and healthy :: "'p \<Rightarrow> bool"
    and reliable :: "'p \<Rightarrow> bool"
    and put :: "'n \<Rightarrow> string \<Rightarrow> reader \<Rightarrow> int \<Rightarrow> string \<Rightarrow> 's \<Rightarrow> ((goerr + int) \<times> reader) \<times> 's"
    and del :: "string \<Rightarrow> 's \<Rightarrow> goerr option \<times> 's"
    and objs :: "'s \<Rightarrow> string \<Rightarrow> bytes option"

section \<open>Keys and drafts\<close>

text \<open>The keys that belong to one job id.\<close>

definition own_key :: "string \<Rightarrow> string \<Rightarrow> bool" where
  "own_key i k \<longleftrightarrow> (\<exists>n. k = join_with slash [''jobs'', i, n])"

lemma own_key_unique: "own_key i k \<Longrightarrow> own_key j k \<Longrightarrow> plain_elem i \<Longrightarrow> plain_elem j \<Longrightarrow> i = j"
  unfolding own_key_def plain_elem_def using join_three_inj by blast

lemma own_key_nonempty: "own_key i k \<Longrightarrow> k \<noteq> ''''"
  by (auto simp: own_key_def)

lemma objectKey_own: "plain_elem (ID (d_job d)) \<Longrightarrow> own_key (ID (d_job d)) (objectKey now name d)"
  unfolding own_key_def using objectKey_form by blast

text \<open>A job's record of its file is right: nothing, or the key of an object of that size.\<close>

definition file_ok :: "(string \<Rightarrow> bytes option) \<Rightarrow> job \<Rightarrow> bool" where
  "file_ok os j \<longleftrightarrow> ObjectKey j = '''' \<or>
     (own_key (ID j) (ObjectKey j) \<and> (\<exists>bs. os (ObjectKey j) = Some bs \<and> SizeBytes j = int (length bs)))"

definition draft_ok :: "(string \<Rightarrow> bytes option) \<Rightarrow> draft \<Rightarrow> bool" where
  "draft_ok os d \<longleftrightarrow> \<not> committed d \<and> file_ok os (d_job d) \<and> (uploaded d \<longleftrightarrow> ObjectKey (d_job d) \<noteq> '''')"

lemma file_ok_frame:
  assumes "file_ok os j" and "\<And>k. own_key i k \<or> os' k = os k" and "ID j \<noteq> i"
    and "plain_elem i" and "plain_elem (ID j)"
  shows "file_ok os' j"
  using assms own_key_unique unfolding file_ok_def by metis

lemma file_ok_payload: "file_ok os j \<Longrightarrow> same_payload j k \<Longrightarrow> file_ok os k"
  by (simp add: file_ok_def same_payload_def)

context job_service begin

lemma deleteQuietly_frame: "k \<noteq> key \<Longrightarrow> objs (deleteQuietly del key st) k = objs st k"
  unfolding deleteQuietly_def by (metis del_frame prod.collapse)

lemma delete_own_frame:
  "own_key i key \<Longrightarrow> own_key i k \<or> objs (deleteQuietly del key st) k = objs st k"
  by (cases "k = key") (simp_all add: deleteQuietly_frame)

text \<open>Attaching a file, on every branch.\<close>

lemma attach_step:
  assumes "AttachFile (put n) del now name ct hint body d st = ((r, b), d', st')"
    and "plain_elem (ID (d_job d))" and "draft_ok (objs st) d" and "delivers body bs e \<or> overflows body"
  shows "draft_ok (objs st') d' \<and> ID (d_job d') = ID (d_job d) \<and>
    (\<forall>k. own_key (ID (d_job d)) k \<or> objs st' k = objs st k)"
proof (cases "uploaded d")
  case True
  with assms(1,3) show ?thesis by (auto simp: AttachFile_def)
next
  case False
  let ?key = "objectKey now name d"
  have own: "own_key (ID (d_job d)) ?key" using objectKey_own [OF assms(2)] .
  obtain x b1 st1 where p: "put n ?key body hint ct st = ((x, b1), st1)" by (metis prod.exhaust)
  have fr: "objs st1 k = objs st k" if "k \<noteq> ?key" for k using put_frame [OF p that] .
  show ?thesis
  proof (cases x)
    case (Inl z)
    then have "d' = d" "st' = deleteQuietly del ?key st1"
      using assms(1) False p by (auto simp: AttachFile_def)
    moreover have "ObjectKey (d_job d) = ''''" using assms(3) False by (simp add: draft_ok_def)
    ultimately show ?thesis
      using fr own deleteQuietly_frame assms(3) by (metis draft_ok_def file_ok_def)
  next
    case (Inr w)
    then have d': "d' = d\<lparr>uploaded := True, d_job := (d_job d)\<lparr>ObjectKey := ?key, FileName := name,
        ContentType := ct, SizeBytes := w\<rparr>\<rparr>" and st': "st' = st1"
      using assms(1) False p by (auto simp: AttachFile_def Let_def)
    have "\<not> overflows body" using put_over [OF p] Inr by blast
    with assms(4) have "delivers body bs e" by blast
    from put_stores [OF p [unfolded Inr] this] have w: "w = int (length bs)"
      "objs st1 = (objs st)(?key := Some bs)" by auto
    have "draft_ok (objs st') d'"
      using assms(3) own own_key_nonempty [OF own] w by (auto simp: draft_ok_def file_ok_def d' st')
    moreover have "\<forall>k. own_key (ID (d_job d)) k \<or> objs st' k = objs st k"
      using own fr st' by metis
    ultimately show ?thesis by (simp add: d')
  qed
qed

text \<open>Committing, on every branch.\<close>

lemma commit_step:
  assumes "Commit create getkey del d p st = (r, d', p', st')"
    and "plain_elem (ID (d_job d))" and "draft_ok (objs st) d" and "reliable p"
  shows "ID (d_job d') = ID (d_job d) \<and> ObjectKey (d_job d') = ObjectKey (d_job d) \<and> uploaded d' = uploaded d \<and>
    (if committed d'
     then st' = st \<and> rows_of p' = rows_of p @ [d_job d'] \<and> SizeBytes (d_job d') = SizeBytes (d_job d) \<and>
       \<not> unique_violation (d_job d') (rows_of p) \<and> r = Inr (d_job d', False)
     else rows_of p' = rows_of p \<and> (\<nexists>j. r = Inr (j, False)) \<and>
       (\<forall>k. own_key (ID (d_job d)) k \<or> objs st' k = objs st k))"
proof (cases "Text (d_job d) = '''' \<and> \<not> uploaded d")
  case True
  with assms(1,3) show ?thesis by (auto simp: Commit_def draft_ok_def)
next
  case False
  have id: "ID (d_job d) \<noteq> ''''" using assms(2) by (simp add: plain_elem_def)
  obtain x j p1 where c: "create (d_job d) p = ((x, j), p1)" by (metis prod.exhaust)
  obtain t where j: "j = (d_job d)\<lparr>CreatedAt := t, UpdatedAt := t\<rparr>" using create_fills [OF c id] by blast
  show ?thesis
  proof (cases x)
    case None
    then have "d' = d\<lparr>d_job := j, committed := True\<rparr>" "p' = p1" "st' = st" "r = Inr (j, False)"
      using assms(1) False c unfolding Commit_def by auto
    with create_ok [OF c [unfolded None]] show ?thesis by (simp add: j)
  next
    case (Some z)
    let ?st1 = "if uploaded d then deleteQuietly del (ObjectKey j) st else st"
    have fr: "own_key (ID (d_job d)) k \<or> objs ?st1 k = objs st k" for k
      using assms(3) delete_own_frame [of "ID (d_job d)" "ObjectKey j"] by (auto simp: draft_ok_def file_ok_def j)
    have rows1: "rows_of p1 = rows_of p" using create_reliable [OF assms(4) c [unfolded Some]] .
    obtain y p2 where g: "getkey (IdempotencyKey j) p1 = (y, p2)" by (metis prod.exhaust)
    have "d' = d\<lparr>d_job := j\<rparr>" "st' = ?st1" "p' = p1 \<or> p' = p2" "\<nexists>j. r = Inr (j, False)"
      using assms(1) False c Some g unfolding Commit_def
      by (auto simp: Let_def split: if_splits sum.splits)
    moreover have "rows_of p2 = rows_of p1" using getkey_rows [OF g] .
    ultimately show ?thesis using fr rows1 assms(3) by (auto simp: draft_ok_def j)
  qed
qed

lemma discard_frame: "own_key i (ObjectKey (d_job d)) \<or> \<not> uploaded d \<Longrightarrow>
    own_key i k \<or> objs (Discard del d st) k = objs st k"
  using delete_own_frame by (auto simp: Discard_def)

end

section \<open>JobRepo is such a repository\<close>

definition pg_healthy :: "pg \<Rightarrow> bool" where
  "pg_healthy p \<longleftrightarrow> faults p = []"

definition pg_reliable :: "pg \<Rightarrow> bool" where
  "pg_reliable p \<longleftrightarrow> (case next_fault p of ReplyLost _ \<Rightarrow> False | _ \<Rightarrow> True)"

lemma Create_cases:
  "Create fresh j p = ((x, j'), p') \<Longrightarrow> ID j \<noteq> '''' \<Longrightarrow>
    j' = j\<lparr>CreatedAt := app_now p, UpdatedAt := app_now p\<rparr>"
  by (auto simp: Create_def Let_def split: prod.splits sum.splits)

lemma unique_violation_times [simp]:
  "unique_violation (j\<lparr>CreatedAt := s, UpdatedAt := t\<rparr>) rs = unique_violation j rs"
  by (simp add: unique_violation_def)

interpretation pg_repo: job_repository "Create fresh" GetByIdempotencyKey rows pg_healthy pg_reliable
proof
  fix j p x j' p' assume "Create fresh j p = ((x, j'), p')" "ID j \<noteq> ''''"
  then show "\<exists>t. j' = j\<lparr>CreatedAt := t, UpdatedAt := t\<rparr>" using Create_cases by blast
next
  fix j p j' p' assume "Create fresh j p = ((None, j'), p')"
  then show "rows p' = rows p @ [j'] \<and> \<not> unique_violation j' (rows p)"
    by (auto simp: Create_def Let_def round_trip_def sql_insert_def pop_fault_def
        split: prod.splits sum.splits fault.splits if_splits)
next
  fix p j e j' p' assume "pg_reliable p" "Create fresh j p = ((Some e, j'), p')"
  then show "rows p' = rows p"
    by (auto simp: Create_def Let_def round_trip_def sql_insert_def pop_fault_def pg_reliable_def
        split: prod.splits sum.splits fault.splits if_splits)
next
  fix p j x j' p'
  assume "pg_healthy p" "Create fresh j p = ((x, j'), p')" "ID j \<noteq> ''''"
  then show "pg_healthy p' \<and>
      x = (if unique_violation j (rows p) then Some (Sentinel ErrDuplicateKey) else None)"
    by (auto simp: Create_def Let_def round_trip_def sql_insert_def pop_fault_def pg_healthy_def
        next_fault_def split: prod.splits sum.splits fault.splits if_splits)
next
  fix p assume "pg_healthy p"
  then show "pg_reliable p" by (simp add: pg_healthy_def pg_reliable_def next_fault_def)
next
  fix k p y p' assume "GetByIdempotencyKey k p = (y, p')"
  then show "rows p' = rows p"
    by (auto simp: GetByIdempotencyKey_def read_row_def round_trip_def pop_fault_def Let_def
        split: if_splits fault.splits prod.splits)
next
  fix k p j p' assume "GetByIdempotencyKey k p = (Inr j, p')"
  then show "j \<in> set (rows p) \<and> IdempotencyKey j = k"
    by (auto simp: GetByIdempotencyKey_def read_row_def round_trip_def Let_def
        split: if_splits fault.splits prod.splits option.splits dest: find_Some_in)
next
  fix p r k assume "pg_healthy p" "r \<in> set (rows p)" "IdempotencyKey r = k" "k \<noteq> ''''"
  then have "find (\<lambda>j. IdempotencyKey j = k) (rows p) \<noteq> None" by (auto simp: find_None_all)
  with \<open>pg_healthy p\<close> \<open>k \<noteq> ''''\<close> show "\<exists>j p'. GetByIdempotencyKey k p = (Inr j, p')"
    by (auto simp: GetByIdempotencyKey_def read_row_def round_trip_def Let_def pg_healthy_def
        next_fault_def)
qed

sublocale object_store \<subseteq> svc: job_service "Create fresh" GetByIdempotencyKey rows pg_healthy pg_reliable
  put del objs for fresh
  by unfold_locales

section \<open>Drafts, table and objects together\<close>

text \<open>
  A request's draft is open until it is committed; \<open>Closing\<close> is the draft between \<open>Commit\<close> and the
  deferred \<open>Discard\<close>. An open draft may also be discarded straight away, when its request fails.
\<close>

datatype stage = Open draft | Closing draft

fun draft_of :: "stage \<Rightarrow> draft" where
  "draft_of (Open d) = d"
| "draft_of (Closing d) = d"

record 's sys =
  repo :: pg
  store :: 's
  drafts :: "string \<Rightarrow> stage option"

definition set_draft :: "string \<Rightarrow> stage option \<Rightarrow> 's sys \<Rightarrow> 's sys" where
  "set_draft i x s = s\<lparr>drafts := (drafts s)(i := x)\<rparr>"

text \<open>
  One step. \<open>start\<close> relies on \<open>uuid.NewString\<close> never repeating an id. \<open>commit\<close> asks that an error of the
  insert means that nothing was written (\<open>lost_reply_dangles\<close> shows what happens otherwise). \<open>server\<close>
  is everything else that happens to the database: clocks, faults to come, and the workers' and
  reapers' statements.
\<close>

inductive sys_step ::
  "('n \<Rightarrow> string \<Rightarrow> reader \<Rightarrow> int \<Rightarrow> string \<Rightarrow> 's \<Rightarrow> ((goerr + int) \<times> reader) \<times> 's) \<Rightarrow>
   (string \<Rightarrow> 's \<Rightarrow> goerr option \<times> 's) \<Rightarrow> 's sys \<Rightarrow> 's sys \<Rightarrow> bool"
  for put del where
  start: "drafts s i = None \<Longrightarrow> i \<notin> ID ` set (rows (repo s)) \<Longrightarrow> plain_elem i \<Longrightarrow>
    sys_step put del s (set_draft i (Some (Open (SetIdempotencyKey key (NewDraft i tc)))) s)"
| settext: "drafts s i = Some (Open d) \<Longrightarrow>
    sys_step put del s (set_draft i (Some (Open (SetText t d))) s)"
| attach: "drafts s i = Some (Open d) \<Longrightarrow>
    AttachFile (put n) del now name ct hint body d (store s) = ((r, b), d', st') \<Longrightarrow>
    delivers body bs e \<or> overflows body \<Longrightarrow>
    sys_step put del s (set_draft i (Some (Open d')) (s\<lparr>store := st'\<rparr>))"
| commit: "drafts s i = Some (Open d) \<Longrightarrow> pg_reliable (repo s) \<Longrightarrow>
    Commit (Create fresh) GetByIdempotencyKey del d (repo s) (store s) = (r, d', p', st') \<Longrightarrow>
    sys_step put del s (set_draft i (Some (Closing d')) (s\<lparr>repo := p', store := st'\<rparr>))"
| discard: "drafts s i = Some x \<Longrightarrow>
    sys_step put del s (set_draft i None (s\<lparr>store := Discard del (draft_of x) (store s)\<rparr>))"
| server: "rows p' = rows (repo s) \<or> (\<exists>op. (\<nexists>j. op = OpInsert j) \<and> rows p' = apply_op op (rows (repo s))) \<Longrightarrow>
    sys_step put del s (s\<lparr>repo := p'\<rparr>)"

inductive sys_reachable ::
  "('n \<Rightarrow> string \<Rightarrow> reader \<Rightarrow> int \<Rightarrow> string \<Rightarrow> 's \<Rightarrow> ((goerr + int) \<times> reader) \<times> 's) \<Rightarrow>
   (string \<Rightarrow> 's \<Rightarrow> goerr option \<times> 's) \<Rightarrow> 's sys \<Rightarrow> bool"
  for put del where
  init: "rows (repo s) = [] \<Longrightarrow> drafts s = (\<lambda>_. None) \<Longrightarrow> sys_reachable put del s"
| step: "sys_reachable put del s \<Longrightarrow> sys_step put del s s' \<Longrightarrow> sys_reachable put del s'"

definition stage_ok :: "(string \<Rightarrow> bytes option) \<Rightarrow> job list \<Rightarrow> string \<Rightarrow> stage \<Rightarrow> bool" where
  "stage_ok os rs i x \<longleftrightarrow> plain_elem i \<and> ID (d_job (draft_of x)) = i \<and>
     (case x of
        Open d \<Rightarrow> i \<notin> ID ` set rs \<and> draft_ok os d
      | Closing d \<Rightarrow> committed d \<or>
          (i \<notin> ID ` set rs \<and> (uploaded d \<longrightarrow> own_key i (ObjectKey (d_job d)))))"

definition sys_inv :: "('s \<Rightarrow> string \<Rightarrow> bytes option) \<Rightarrow> 's sys \<Rightarrow> bool" where
  "sys_inv objs s \<longleftrightarrow> distinct (map ID (rows (repo s))) \<and>
     (\<forall>r \<in> set (rows (repo s)). plain_elem (ID r) \<and> file_ok (objs (store s)) r) \<and>
     (\<forall>i x. drafts s i = Some x \<longrightarrow> stage_ok (objs (store s)) (rows (repo s)) i x)"


lemma draft_ok_frame:
  assumes "draft_ok os d" and "\<And>k. own_key j k \<or> os' k = os k" and "ID (d_job d) \<noteq> j"
    and "plain_elem j" and "plain_elem (ID (d_job d))"
  shows "draft_ok os' d"
  using assms file_ok_frame [OF _ assms(2-5)] by (simp add: draft_ok_def)

lemma stage_ok_frame:
  assumes "stage_ok os rs i x" and "\<And>k. own_key j k \<or> os' k = os k" and "i \<noteq> j" and "plain_elem j"
  shows "stage_ok os' rs i x"
  using assms draft_ok_frame [OF _ assms(2)] by (auto simp: stage_ok_def split: stage.splits)

lemma stage_ok_rows:
  "stage_ok os rs i x \<Longrightarrow> (i \<in> ID ` set rs' \<Longrightarrow> i \<in> ID ` set rs) \<Longrightarrow> stage_ok os rs' i x"
  by (auto simp: stage_ok_def split: stage.splits)

lemma sys_inv_stage:
  "sys_inv objs s \<Longrightarrow> drafts s i = Some x \<Longrightarrow> stage_ok (objs (store s)) (rows (repo s)) i x"
  by (simp add: sys_inv_def)

text \<open>A step of draft \<open>i\<close> that leaves the rows alone and touches only keys of \<open>i\<close>.\<close>

lemma sys_inv_local:
  assumes "sys_inv objs s" and "plain_elem i" and "i \<notin> ID ` set (rows (repo s))"
    and "\<And>k. own_key i k \<or> objs st' k = objs (store s) k"
    and "\<And>y. x' = Some y \<Longrightarrow> stage_ok (objs st') (rows (repo s)) i y"
  shows "sys_inv objs (set_draft i x' (s\<lparr>store := st'\<rparr>))"
proof -
  have "plain_elem (ID r) \<and> file_ok (objs st') r" if "r \<in> set (rows (repo s))" for r
    using assms that file_ok_frame [OF _ assms(4)] by (fastforce simp: sys_inv_def)
  moreover have "stage_ok (objs st') (rows (repo s)) j y" if "drafts s j = Some y" "j \<noteq> i" for j y
    using assms that by (intro stage_ok_frame [OF _ assms(4)]) (auto simp: sys_inv_def)
  ultimately show ?thesis using assms by (auto simp: sys_inv_def set_draft_def)
qed

text \<open>A step of the database: rows change in place and keep their payload.\<close>

lemma sys_inv_rows:
  assumes "sys_inv objs s" and "rows p' = update_where q f (rows (repo s))"
    and "\<And>j. j \<in> set (rows (repo s)) \<Longrightarrow> q j \<Longrightarrow> same_payload j (f j)"
  shows "sys_inv objs (s\<lparr>repo := p'\<rparr>)"
proof -
  have ids: "map ID (rows p') = map ID (rows (repo s))"
    unfolding assms(2) update_where_def using assms(3) by (auto simp: same_payload_def)
  have "plain_elem (ID r) \<and> file_ok (objs (store s)) r" if "r \<in> set (rows p')" for r
  proof -
    obtain j where j: "j \<in> set (rows (repo s))" "r = (if q j then f j else j)"
      using \<open>r \<in> set (rows p')\<close> unfolding assms(2) by (auto simp: update_where_def)
    then have "same_payload j r" using assms(3) by auto
    with assms(1) j(1) file_ok_payload show ?thesis by (fastforce simp: sys_inv_def same_payload_def)
  qed
  moreover have sub: "ID ` set (rows p') = ID ` set (rows (repo s))"
    using arg_cong [OF ids, of set] by simp
  moreover have "stage_ok (objs (store s)) (rows p') i x" if "drafts s i = Some x" for i x
    by (rule stage_ok_rows [OF sys_inv_stage [OF assms(1) that]]) (simp only: sub)
  ultimately show ?thesis
    using assms(1) ids unfolding sys_inv_def by simp
qed

lemma sys_inv_server:
  assumes "sys_inv objs s"
    and "rows p' = rows (repo s) \<or> (\<exists>op. (\<nexists>j. op = OpInsert j) \<and> rows p' = apply_op op (rows (repo s)))"
  shows "sys_inv objs (s\<lparr>repo := p'\<rparr>)"
proof (cases "rows p' = rows (repo s)")
  case True
  then have "rows p' = update_where (\<lambda>_. False) id (rows (repo s))" by (simp add: update_where_none)
  from sys_inv_rows [OF assms(1) this] show ?thesis by simp
next
  case False
  with assms(2) obtain op where op: "\<nexists>j. op = OpInsert j" "rows p' = apply_op op (rows (repo s))" by blast
  have "distinct (map ID (rows (repo s)))" using assms(1) by (simp add: sys_inv_def)
  then show ?thesis
  proof (cases rule: apply_op_cases [of _ op])
    case (update q f)
    then show ?thesis
      using op row_step_payload by (intro sys_inv_rows [OF assms(1), of _ q f]) auto
  qed (use op(1) in blast)
qed

lemma SetText_sel [simp]:
  "ID (d_job (SetText t d)) = ID (d_job d)" "uploaded (SetText t d) = uploaded d"
  "committed (SetText t d) = committed d" "ObjectKey (d_job (SetText t d)) = ObjectKey (d_job d)"
  "SizeBytes (d_job (SetText t d)) = SizeBytes (d_job d)"
  by (simp_all add: SetText_def)

lemma set_draft_store [simp]: "set_draft i x (s\<lparr>store := store s\<rparr>) = set_draft i x s"
  by (simp add: set_draft_def)

context object_store begin

lemma sys_step_inv:
  assumes "sys_inv objs s" and "sys_step put del s s'"
  shows "sys_inv objs s'"
  using assms(2)
proof cases
  case (start i key tc)
  have "sys_inv objs (set_draft i (Some (Open (SetIdempotencyKey key (NewDraft i tc)))) (s\<lparr>store := store s\<rparr>))"
    using start by (intro sys_inv_local [OF assms(1)])
      (auto simp: stage_ok_def draft_ok_def file_ok_def SetIdempotencyKey_def NewDraft_def zero_job_def)
  with start(1) show ?thesis by simp
next
  case (settext i d t)
  have st: "stage_ok (objs (store s)) (rows (repo s)) i (Open d)"
    using assms(1) settext(2) by (simp add: sys_inv_def)
  have "sys_inv objs (set_draft i (Some (Open (SetText t d))) (s\<lparr>store := store s\<rparr>))"
    using st by (intro sys_inv_local [OF assms(1)]) (auto simp: stage_ok_def draft_ok_def file_ok_def)
  with settext(1) show ?thesis by simp
next
  case (attach i d n now name ct hint body r b d' st' bs e)
  have st: "stage_ok (objs (store s)) (rows (repo s)) i (Open d)"
    using assms(1) attach(2) by (simp add: sys_inv_def)
  then have pl: "plain_elem (ID (d_job d))" and dok: "draft_ok (objs (store s)) d" and i: "ID (d_job d) = i"
    by (auto simp: stage_ok_def)
  note a = svc.attach_step [OF attach(3) pl dok attach(4)]
  show ?thesis
    unfolding attach(1) using a st i by (intro sys_inv_local [OF assms(1)]) (auto simp: stage_ok_def)
next
  case (discard i x)
  have st: "stage_ok (objs (store s)) (rows (repo s)) i x"
    using assms(1) discard(2) by (simp add: sys_inv_def)
  show ?thesis
  proof (cases "committed (draft_of x)")
    case True
    then have "Discard del (draft_of x) (store s) = store s" by (simp add: Discard_def)
    moreover have "sys_inv objs (set_draft i None s)"
      using assms(1) by (simp add: sys_inv_def set_draft_def)
    ultimately show ?thesis unfolding discard(1) by simp
  next
    case False
    have "own_key i (ObjectKey (d_job (draft_of x))) \<or> \<not> uploaded (draft_of x)"
      using st False by (auto simp: stage_ok_def draft_ok_def file_ok_def split: stage.splits)
    note fr = svc.discard_frame [OF this]
    show ?thesis
      unfolding discard(1) using fr st False
      by (intro sys_inv_local [OF assms(1)]) (auto simp: stage_ok_def split: stage.splits)
  qed
next
  case (server p')
  with sys_inv_server [OF assms(1)] show ?thesis by simp
next
  case (commit i d fresh r d' p' st')
  have st: "stage_ok (objs (store s)) (rows (repo s)) i (Open d)"
    using assms(1) commit(2) by (simp add: sys_inv_def)
  then have pl: "plain_elem (ID (d_job d))" and dok: "draft_ok (objs (store s)) d" and i: "ID (d_job d) = i"
    and new: "i \<notin> ID ` set (rows (repo s))"
    by (auto simp: stage_ok_def)
  note c = svc.commit_step [OF commit(4) pl dok commit(3)]
  show ?thesis
  proof (cases "committed d'")
    case False
    have "sys_inv objs (set_draft i (Some (Closing d')) (s\<lparr>store := st'\<rparr>))"
      using c False st i dok by (intro sys_inv_local [OF assms(1)])
        (auto simp: stage_ok_def draft_ok_def file_ok_def)
    then have "sys_inv objs ((set_draft i (Some (Closing d')) (s\<lparr>store := st'\<rparr>))\<lparr>repo := p'\<rparr>)"
      using c False by (intro sys_inv_server) (simp_all add: set_draft_def)
    with commit(1) show ?thesis by (simp add: set_draft_def sys_inv_def)
  next
    case True
    have rs: "rows p' = rows (repo s) @ [d_job d']" "st' = store s" "ID (d_job d') = i"
      "ObjectKey (d_job d') = ObjectKey (d_job d)" "SizeBytes (d_job d') = SizeBytes (d_job d)"
      using c True i by auto
    have "stage_ok (objs (store s)) (rows p') j y" if "drafts s j = Some y" "j \<noteq> i" for j y
    proof (rule stage_ok_rows [OF sys_inv_stage [OF assms(1) that(1)]])
      show "j \<in> ID ` set (rows p') \<Longrightarrow> j \<in> ID ` set (rows (repo s))"
        using rs(3) that(2) by (simp add: rs(1))
    qed
    moreover have "stage_ok (objs (store s)) (rows p') i (Closing d')"
      using True st rs by (simp add: stage_ok_def)
    moreover have "file_ok (objs (store s)) (d_job d')"
      using dok i rs by (simp add: draft_ok_def file_ok_def)
    moreover have "\<forall>r \<in> set (rows (repo s)). plain_elem (ID r) \<and> file_ok (objs (store s)) r"
      "distinct (map ID (rows (repo s)))" using assms(1) by (simp_all add: sys_inv_def)
    ultimately show ?thesis
      using new rs(1-3) pl i unfolding commit(1) sys_inv_def by (auto simp: set_draft_def)
  qed
qed

lemma abandon_deletes:
  assumes "\<And>k st. fst (del k st) = None"
    and "uploaded d" and "\<not> committed d" and "ID (d_job d) \<noteq> ''''" and "ObjectKey (d_job d) \<noteq> ''''"
    and "Commit (Create fresh) GetByIdempotencyKey del d p st = (r, d', p', st')"
    and "\<nexists>j. r = Inr (j, False)"
  shows "objs (Discard del d' st') = (objs st)(ObjectKey (d_job d) := None)"
proof -
  have gone: "objs (deleteQuietly del (ObjectKey (d_job d)) st0) = (objs st0)(ObjectKey (d_job d) := None)" for st0
    using del_removes [OF _ assms(5)] assms(1) unfolding deleteQuietly_def by (metis prod.collapse)
  obtain x j p1 where c: "Create fresh (d_job d) p = ((x, j), p1)" by (metis prod.exhaust)
  have j: "ObjectKey j = ObjectKey (d_job d)" using Create_cases [OF c assms(4)] by simp
  obtain z where z: "x = Some z"
    using assms(2,6,7) c by (cases x) (auto simp: Commit_def)
  have "d' = d\<lparr>d_job := j\<rparr>" "st' = deleteQuietly del (ObjectKey j) st"
    using assms(2,6) c z unfolding Commit_def by (auto simp: Let_def split: if_splits sum.splits prod.splits)
  then show ?thesis using assms(2,3) gone by (simp add: Discard_def j)
qed

lemma sys_reachable_inv: "sys_reachable put del s \<Longrightarrow> sys_inv objs s"
proof (induction rule: sys_reachable.induct)
  case (init s)
  then show ?case by (simp add: sys_inv_def)
next
  case (step s s')
  from sys_step_inv [OF step(3,2)] show ?case .
qed

end


section \<open>Properties of the service\<close>

lemma key_row_unique:
  assumes "table_ok rs" and "a \<in> set rs" and "b \<in> set rs"
    and "IdempotencyKey a = IdempotencyKey b" and "IdempotencyKey b \<noteq> ''''"
  shows "a = b"
proof -
  have "distinct (filter (\<lambda>k. k \<noteq> '''') (map IdempotencyKey rs))" using assms(1) by (simp add: table_ok_def)
  then have "distinct (map IdempotencyKey (filter (\<lambda>j. IdempotencyKey j \<noteq> '''') rs))"
    by (simp add: filter_map comp_def)
  from distinct_map_eq [OF this, of a b] assms(2-5) show ?thesis by simp
qed

text \<open>A table, a store and a draft to try them on.\<close>

definition empty_pg :: pg where
  "empty_pg = \<lparr>rows = [], db_now = 100, app_now = 100, faults = []\<rparr>"

definition file_draft :: "string \<Rightarrow> draft" where
  "file_draft key = (NewDraft ''u1'' '''')\<lparr>uploaded := True,
     d_job := (d_job (NewDraft ''u1'' ''''))\<lparr>ObjectKey := ''jobs/u1/a.png'', SizeBytes := 3,
       IdempotencyKey := key\<rparr>\<rparr>"

definition file_store :: fake_s3 where
  "file_store = newFakeS3\<lparr>objects := (\<lambda>k. if k = ''jobs/u1/a.png'' then Some ''abc'' else None)\<rparr>"

lemma tiny_object_store: "object_store (Put (fake_api no_url) tiny_store) (Delete (fake_api no_url)) objects"
  by (rule tiny.is_object_store)

text \<open>
  C3. A job never references an object that does not exist. In every state that any interleaving of
  requests (drafts started, given text, given files, committed, discarded) and of the database's own
  statements can reach, a row of the table that names an object names one that is there, has the
  size the row records, and lies under the job's own prefix. The database's part in this is that a
  failed insert has written nothing.
\<close>
theorem no_dangling_object:
  assumes "object_store put del objs" and "sys_reachable put del s"
    and "r \<in> set (rows (repo s))" and "ObjectKey r \<noteq> ''''"
  shows "own_key (ID r) (ObjectKey r) \<and>
    (\<exists>bs. objs (store s) (ObjectKey r) = Some bs \<and> SizeBytes r = int (length bs))"
proof -
  have "sys_inv objs s" using object_store.sys_reachable_inv [OF assms(1,2)] .
  with assms(3,4) show ?thesis by (auto simp: sys_inv_def file_ok_def)
qed

theorem no_dangling_object_witness:
  "\<exists>(s :: fake_s3 sys) r. r \<in> set (rows (repo s)) \<and> ObjectKey r = ''jobs/u1/a.png'' \<and>
     objects (store s) (ObjectKey r) \<noteq> None"
proof -
  let ?put = "Put (fake_api no_url) tiny_store" and ?del = "Delete (fake_api no_url)"
  let ?d = "SetIdempotencyKey '''' (NewDraft ''u1'' '''')"
  let ?body = "Stream [Data ''abc'' None]"
  have dl: "delivers ?body ''abc'' (Sentinel EOF)" by simp
  define s0 where "s0 = \<lparr>repo = empty_pg, store = newFakeS3, drafts = (\<lambda>_. None)\<rparr>"
  define s1 where "s1 = set_draft ''u1'' (Some (Open ?d)) s0"
  obtain r b d2 st2 where a: "AttachFile (?put []) ?del 0 ''a.png'' ''image/png'' 0 ?body ?d newFakeS3 =
      ((r, b), d2, st2)" by (metis prod.exhaust)
  have "case AttachFile (?put []) ?del 0 ''a.png'' ''image/png'' 0 ?body ?d newFakeS3 of
      (_, d, _) \<Rightarrow> uploaded d \<and> ObjectKey (d_job d) = ''jobs/u1/a.png'' \<and> \<not> committed d \<and> ID (d_job d) = ''u1''"
    by code_simp
  then have d2: "uploaded d2" "ObjectKey (d_job d2) = ''jobs/u1/a.png''" "ID (d_job d2) = ''u1''"
    by (simp_all add: a)
  have d1: "drafts s1 ''u1'' = Some (Open ?d)" by (simp add: s1_def set_draft_def)
  define s2 where "s2 = set_draft ''u1'' (Some (Open d2)) (s1\<lparr>store := st2\<rparr>)"
  let ?j = "(d_job d2)\<lparr>CreatedAt := 100, UpdatedAt := 100\<rparr>"
  have c: "Commit (Create ''f'') GetByIdempotencyKey ?del d2 empty_pg st2 =
      (Inr (?j, False), d2\<lparr>d_job := ?j, committed := True\<rparr>, empty_pg\<lparr>rows := [?j]\<rparr>, st2)"
    using d2 by (simp add: Commit_def Create_def round_trip_def sql_insert_def empty_pg_def
        next_fault_def pop_fault_def unique_violation_def Let_def)
  define s3 where "s3 = set_draft ''u1'' (Some (Closing (d2\<lparr>d_job := ?j, committed := True\<rparr>)))
      (s2\<lparr>repo := empty_pg\<lparr>rows := [?j]\<rparr>, store := st2\<rparr>)"
  have "sys_reachable ?put ?del s0"
    by (rule sys_reachable.init) (simp_all add: s0_def empty_pg_def)
  moreover have "sys_step ?put ?del s0 s1"
    unfolding s1_def by (rule sys_step.start) (simp_all add: s0_def empty_pg_def plain_elem_def slash_def)
  moreover have "sys_step ?put ?del s1 s2"
    unfolding s2_def
    by (rule sys_step.attach [OF _ _ disjI1 [OF dl]], rule d1) (use a in \<open>simp add: s1_def s0_def set_draft_def\<close>)
  moreover have "sys_step ?put ?del s2 s3"
    unfolding s3_def
    by (rule sys_step.commit [where d = d2])
       (use c in \<open>simp_all add: s2_def s1_def s0_def set_draft_def pg_reliable_def next_fault_def empty_pg_def\<close>)
  ultimately have "sys_reachable ?put ?del s3" by (meson sys_reachable.step)
  moreover have "?j \<in> set (rows (repo s3))" by (simp add: s3_def set_draft_def)
  ultimately show ?thesis
    using no_dangling_object [OF tiny_object_store, of s3 ?j] d2(2) by fastforce
qed

lemma find_append_None: "find p xs = None \<Longrightarrow> find p (xs @ ys) = find p ys"
  by (induction xs) (auto split: if_splits)

text \<open>
  C39. Without that proviso the promise fails, for every draft with an uploaded file. When the insert commits and
  its reply is lost, and the deletes go through, \<open>Commit\<close> takes the error for a failure: it answers with it, deletes
  the object, and leaves the draft uncommitted; the table has the draft's row, which names an object that is gone,
  and \<open>Discard\<close> does not bring it back. A retry of the request that carried an idempotency key finds that row and
  is told its job was accepted.
\<close>
theorem lost_reply_dangles:
  assumes "object_store put del objs" and "\<And>k st. fst (del k st) = None"
    and "uploaded d" and "\<not> committed d" and "ID (d_job d) \<noteq> ''''" and "ObjectKey (d_job d) \<noteq> ''''"
    and "faults p = ReplyLost e # fs" and "\<not> errors_is e ErrDuplicateKey"
    and "\<not> unique_violation (d_job d) (rows p)"
    and "Commit (Create fresh) GetByIdempotencyKey del d p st = (r, d', p', st')"
  shows "\<exists>row. rows p' = rows p @ [row] \<and> row = (d_job d)\<lparr>CreatedAt := app_now p, UpdatedAt := app_now p\<rparr> \<and>
    r = Inl (wrap ''persist job'' (wrap ''insert job'' e)) \<and> \<not> committed d' \<and>
    objs st' = (objs st)(ObjectKey row := None) \<and>
    objs (Discard del d' st') = (objs st)(ObjectKey row := None) \<and>
    (IdempotencyKey row \<noteq> '''' \<and> fs = [] \<longrightarrow>
       fst (FindByIdempotencyKey GetByIdempotencyKey (IdempotencyKey row) p') = Inr row)"
proof -
  let ?row = "(d_job d)\<lparr>CreatedAt := app_now p, UpdatedAt := app_now p\<rparr>"
  have cr: "Create fresh (d_job d) p = ((Some (wrap ''insert job'' e), ?row), p\<lparr>rows := rows p @ [?row], faults := fs\<rparr>)"
    using assms(5,7,9) by (simp add: Create_def round_trip_def sql_insert_def next_fault_def pop_fault_def Let_def)
  have "\<not> errors_is (wrap ''insert job'' e) ErrDuplicateKey" using assms(8) by (simp add: wrap_def)
  with assms(3,10) cr have res: "r = Inl (wrap ''persist job'' (wrap ''insert job'' e))" "d' = d\<lparr>d_job := ?row\<rparr>"
    "p' = p\<lparr>rows := rows p @ [?row], faults := fs\<rparr>" "st' = deleteQuietly del (ObjectKey (d_job d)) st"
    by (simp_all add: Commit_def Let_def)
  have "objs st' = (objs st)(ObjectKey (d_job d) := None)"
    using object_store.del_removes [OF assms(1) _ assms(6)] assms(2) unfolding res(4) deleteQuietly_def
    by (metis prod.collapse)
  moreover have "objs (Discard del d' st') = (objs st)(ObjectKey (d_job d) := None)"
    by (rule object_store.abandon_deletes [OF assms(1) assms(2-6) assms(10)]) (simp add: res(1))
  moreover have "fst (FindByIdempotencyKey GetByIdempotencyKey (IdempotencyKey ?row) p') = Inr ?row"
    if "IdempotencyKey ?row \<noteq> ''''" "fs = []"
  proof -
    have "find (\<lambda>j. IdempotencyKey j = IdempotencyKey ?row) (rows p) = None"
      using assms(9) that(1) by (auto simp: find_None_all unique_violation_def list_ex_iff)
    then have "find (\<lambda>j. IdempotencyKey j = IdempotencyKey ?row) (rows p @ [?row]) = Some ?row"
      by (simp add: find_append_None)
    with that show ?thesis
      by (simp add: FindByIdempotencyKey_def GetByIdempotencyKey_def read_row_def round_trip_def next_fault_def res(3))
  qed
  ultimately show ?thesis using assms(4) by (intro exI [of _ ?row]) (simp add: res)
qed

theorem lost_reply_dangles_witness:
  "\<exists>r d' p' st'. Commit (Create ''f'') GetByIdempotencyKey (Delete (fake_api no_url)) (file_draft ''key'')
      (empty_pg\<lparr>faults := [ReplyLost (Opaque ''conn closed'')]\<rparr>) file_store = (Inl r, d', p', st') \<and>
     map ObjectKey (rows p') = [''jobs/u1/a.png''] \<and> objects file_store ''jobs/u1/a.png'' = Some ''abc'' \<and>
     objects (Discard (Delete (fake_api no_url)) d' st') ''jobs/u1/a.png'' = None"
proof -
  let ?p = "empty_pg\<lparr>faults := [ReplyLost (Opaque ''conn closed'')]\<rparr>" and ?d = "file_draft ''key''"
  let ?del = "Delete (fake_api no_url)"
  obtain r d' p' st' where c: "Commit (Create ''f'') GetByIdempotencyKey ?del ?d ?p file_store = (r, d', p', st')"
    by (metis prod.exhaust)
  have del: "fst (?del k st) = None" for k st
    by (simp add: Delete_def fake_api_def fake_delete_def)
  have d: "uploaded ?d" "\<not> committed ?d" "ID (d_job ?d) \<noteq> ''''" "ObjectKey (d_job ?d) \<noteq> ''''"
    "ObjectKey (d_job ?d) = ''jobs/u1/a.png''"
    by (simp_all add: file_draft_def NewDraft_def)
  have "\<exists>row. rows p' = rows ?p @ [row] \<and> row = (d_job ?d)\<lparr>CreatedAt := app_now ?p, UpdatedAt := app_now ?p\<rparr> \<and>
    r = Inl (wrap ''persist job'' (wrap ''insert job'' (Opaque ''conn closed''))) \<and> \<not> committed d' \<and>
    objects st' = (objects file_store)(ObjectKey row := None) \<and>
    objects (Discard ?del d' st') = (objects file_store)(ObjectKey row := None) \<and>
    (IdempotencyKey row \<noteq> '''' \<and> [] = ([] :: fault list) \<longrightarrow>
       fst (FindByIdempotencyKey GetByIdempotencyKey (IdempotencyKey row) p') = Inr row)"
    by (rule lost_reply_dangles [OF tiny_object_store del d(1-4) _ _ _ c])
       (simp_all add: empty_pg_def unique_violation_def)
  with c d(5) show ?thesis by (auto simp: empty_pg_def file_store_def)
qed

text \<open>
  An upload whose job does not come to be is removed: when \<open>Commit\<close> of a draft with a file does not
  create the job (the insert failed, or the idempotency key was taken and the earlier job is
  returned), the object is gone after \<open>Commit\<close> and \<open>Discard\<close>, provided the store deletes what it is
  asked to; objects under other keys stay.
\<close>
theorem abandoned_upload_deleted:
  assumes "object_store put del objs" and "\<And>k st. fst (del k st) = None"
    and "uploaded d" and "\<not> committed d" and "ID (d_job d) \<noteq> ''''" and "ObjectKey (d_job d) \<noteq> ''''"
    and "Commit (Create fresh) GetByIdempotencyKey del d p st = (r, d', p', st')"
    and "\<nexists>j. r = Inr (j, False)"
  shows "objs (Discard del d' st') (ObjectKey (d_job d)) = None \<and>
    (\<forall>k. k \<noteq> ObjectKey (d_job d) \<longrightarrow> objs (Discard del d' st') k = objs st k)"
  using object_store.abandon_deletes [OF assms] by simp

theorem abandoned_upload_deleted_witness:
  "\<exists>r d' p' st'. Commit (Create ''f'') GetByIdempotencyKey (Delete (fake_api no_url)) (file_draft '''')
      (empty_pg\<lparr>faults := [NotSent (Opaque ''conn refused'')]\<rparr>) file_store = (r, d', p', st') \<and>
     objects (Discard (Delete (fake_api no_url)) d' st') ''jobs/u1/a.png'' = None"
proof -
  let ?p = "empty_pg\<lparr>faults := [NotSent (Opaque ''conn refused'')]\<rparr>"
  let ?del = "Delete (fake_api no_url)"
  obtain r d' p' st' where c: "Commit (Create ''f'') GetByIdempotencyKey ?del (file_draft '''') ?p file_store =
      (r, d', p', st')" by (metis prod.exhaust)
  have "case Commit (Create ''f'') GetByIdempotencyKey ?del (file_draft '''') ?p file_store of
      (r, _) \<Rightarrow> isl r" by code_simp
  then have r: "\<nexists>j. r = Inr (j, False)" by (auto simp: c)
  have del: "fst (?del k st) = None" for k st
    by (simp add: Delete_def fake_api_def fake_delete_def)
  have d: "uploaded (file_draft '''')" "\<not> committed (file_draft '''')" "ID (d_job (file_draft '''')) \<noteq> ''''"
    "ObjectKey (d_job (file_draft '''')) = ''jobs/u1/a.png''"
    by (simp_all add: file_draft_def NewDraft_def)
  have "objects (Discard ?del d' st') (ObjectKey (d_job (file_draft ''''))) = None"
    using abandoned_upload_deleted [OF tiny_object_store del d(1-3) _ c r] d(4) by simp
  with c d(4) show ?thesis by metis
qed

text \<open>
  C28. A retried submission gets the job it created the first time: with the database answering, when a
  row already carries the draft's (non-empty) idempotency key, \<open>Commit\<close> returns that row, flagged as a
  replay, and the table is unchanged.
\<close>
theorem idempotent_replay:
  assumes "pg_healthy p" and "table_ok (rows p)" and "r \<in> set (rows p)"
    and "IdempotencyKey (d_job d) = IdempotencyKey r" and "IdempotencyKey r \<noteq> ''''"
    and "ID (d_job d) \<noteq> ''''" and "Text (d_job d) \<noteq> '''' \<or> uploaded d"
  shows "\<exists>d' p' st'. Commit (Create fresh) GetByIdempotencyKey del d p st = (Inr (r, True), d', p', st') \<and>
    rows p' = rows p"
proof -
  obtain x j p1 where c: "Create fresh (d_job d) p = ((x, j), p1)" by (metis prod.exhaust)
  have "unique_violation (d_job d) (rows p)"
    using assms(3-5) by (auto simp: unique_violation_def list_ex_iff)
  then have x: "pg_healthy p1" "x = Some (Sentinel ErrDuplicateKey)"
    using pg_repo.create_healthy [OF assms(1) c assms(6)] by auto
  have rows1: "rows p1 = rows p"
    using pg_repo.create_reliable [OF pg_repo.healthy_reliable [OF assms(1)] c [unfolded x(2)]] .
  have key: "IdempotencyKey j = IdempotencyKey r"
    using Create_cases [OF c assms(6)] assms(4) by simp
  obtain k p2 where g: "GetByIdempotencyKey (IdempotencyKey r) p1 = (Inr k, p2)"
    using pg_repo.getkey_healthy [OF x(1) _ refl assms(5)] assms(3) rows1 by metis
  have k: "k \<in> set (rows p)" "IdempotencyKey k = IdempotencyKey r"
    using pg_repo.getkey_ok [OF g] rows1 by auto
  then have "k = r" using key_row_unique [OF assms(2)] assms(3,5) by simp
  moreover have "rows p2 = rows p" using pg_repo.getkey_rows [OF g] rows1 by simp
  ultimately show ?thesis using assms(7) c x(2) g key by (auto simp: Commit_def Let_def)
qed

definition seen_row :: job where
  "seen_row = zero_job\<lparr>ID := ''u0'', IdempotencyKey := ''key''\<rparr>"

theorem idempotent_replay_witness:
  "\<exists>d' p' st'. Commit (Create ''f'') GetByIdempotencyKey (Delete (fake_api no_url)) (file_draft ''key'')
      (empty_pg\<lparr>rows := [seen_row]\<rparr>) file_store = (Inr (seen_row, True), d', p', st') \<and> rows p' = [seen_row]"
proof -
  have "pg_healthy (empty_pg\<lparr>rows := [seen_row]\<rparr>)" "table_ok (rows (empty_pg\<lparr>rows := [seen_row]\<rparr>))"
    by (simp_all add: pg_healthy_def empty_pg_def table_ok_def row_ok_def seen_row_def zero_job_def)
  from idempotent_replay [OF this, of seen_row "file_draft ''key''" "''f''"]
  show ?thesis by (simp add: seen_row_def file_draft_def NewDraft_def)
qed

text \<open>
  Object keys are confined: whatever the client calls its file, the key is \<open>jobs/\<close>, the job's id,
  \<open>/\<close> and one path element of 1 to 128 characters out of letters, digits, underscore, dot and dash
  that is neither \<open>.\<close> nor \<open>..\<close>; keys of different jobs differ.
\<close>
theorem object_key_confined:
  assumes "plain_elem (ID (d_job d))" and "- (2 ^ 63) \<le> now" and "now < 2 ^ 63"
  shows "\<exists>n. objectKey now name d = ''jobs/'' @ ID (d_job d) @ ''/'' @ n \<and>
    1 \<le> length n \<and> length n \<le> 128 \<and> list_all safe_char n \<and> n \<noteq> ''.'' \<and> n \<noteq> ''..'' \<and>
    (\<forall>d2 now2 name2. plain_elem (ID (d_job d2)) \<and> ID (d_job d2) \<noteq> ID (d_job d) \<longrightarrow>
       objectKey now2 name2 d2 \<noteq> objectKey now name d)"
proof -
  let ?n = "sanitizeFileName now name"
  have "objectKey now name d = ''jobs/'' @ ID (d_job d) @ ''/'' @ ?n"
    using objectKey_form [OF assms(1)] by (simp add: slash_def)
  moreover have "?n \<noteq> ''''" "?n \<noteq> ''.''" "?n \<noteq> ''..''" using sanitize_plain by (auto simp: plain_elem_def)
  moreover have "list_all safe_char ?n" by (auto simp: list_all_iff sanitize_safe)
  moreover have "length ?n \<le> 128" using sanitize_length assms(2,3) by blast
  moreover have "objectKey now2 name2 d2 \<noteq> objectKey now name d"
    if "plain_elem (ID (d_job d2))" "ID (d_job d2) \<noteq> ID (d_job d)" for d2 now2 name2
    using own_key_unique objectKey_own that assms(1) by metis
  ultimately show ?thesis by (cases ?n) auto
qed

theorem object_key_confined_witness:
  "\<exists>n. objectKey 7 ''../../etc/pass wd.png'' (NewDraft ''u1'' '''') = ''jobs/u1/'' @ n \<and> length n \<le> 128"
  using object_key_confined [of "NewDraft ''u1'' ''''" 7 "''../../etc/pass wd.png''"]
  by (auto simp: NewDraft_def plain_elem_def slash_def)

end
