(* ===== verification/HandlersSpec.thy ===== *)
theory HandlersSpec
  imports Handlers ServiceSpec
begin

text \<open>
  What a request for a new job does, end to end: the row that \<open>CreateJob\<close> adds is what the client
  sent, and a request that is refused leaves no trace in the table or the object store.
\<close>

section \<open>What the client sent\<close>

fun body_bytes :: "reader \<Rightarrow> bytes" where
  "body_bytes (Stream es) = fst (stream_content es)"
| "body_bytes _ = []"

fun parts_sent :: "part_ev list \<Rightarrow> form_part list" where
  "parts_sent (Part x # evs) = x # parts_sent evs"
| "parts_sent _ = []"

definition texts :: "part_ev list \<Rightarrow> form_part list" where
  "texts evs = filter (\<lambda>x. FormName x = ''text'') (parts_sent evs)"

definition files :: "part_ev list \<Rightarrow> form_part list" where
  "files evs = filter (\<lambda>x. FormName x = ''file'') (parts_sent evs)"

text \<open>A part's body is a stream of a size that fits 63 bits.\<close>

definition body_ok :: "form_part \<Rightarrow> bool" where
  "body_ok x \<longleftrightarrow> (\<exists>es. PartBody x = Stream es) \<and> int (length (body_bytes (PartBody x))) < max_int64"

definition limits_ok :: "config \<Rightarrow> bool" where
  "limits_ok cfg \<longleftrightarrow> (\<forall>n \<in> {MaxTextBytes cfg, MaxDocBytes cfg, MaxImageBytes cfg, MaxVideoBytes cfg}.
     0 \<le> n \<and> n < max_int64)"

lemma body_delivers: "body_ok x \<Longrightarrow> \<exists>e. delivers (PartBody x) (body_bytes (PartBody x)) e"
  by (auto simp: body_ok_def) (metis prod.collapse)

lemma limits_kind: "limits_ok cfg \<Longrightarrow> 0 \<le> maxForKind cfg k \<and> maxForKind cfg k < max_int64"
  by (cases k) (simp_all add: limits_ok_def maxForKind_def)

section \<open>Text parts\<close>

lemma readTextPart_Inr:
  assumes "readTextPart body mx = Inr t" and "delivers body bs e" and "0 \<le> mx" and "mx < max_int64"
  shows "t = bs \<and> int (length bs) \<le> mx"
proof -
  have i: "i64 (mx + 1) = mx + 1" using assms(3,4) by (intro i64_id) (auto simp: max_int64_def)
  obtain out x r where rl: "read_loop (nat (mx + 1)) body = ((out, x), r)" by (metis prod.exhaust)
  have "x = None \<or> x = Some (Sentinel EOF)" and t: "t = out" "int (length out) \<le> mx"
    using assms(1) rl unfolding readTextPart_def ReadAllLimit_def i by (auto split: if_splits option.splits)
  moreover have law: "read_law bs e out x r" "x = None \<longrightarrow> length out = nat (mx + 1)"
    using read_loop_delivers [OF assms(2) rl] by auto
  have "x \<noteq> None" using law(2) t(2) assms(3) by (auto split: if_splits)
  ultimately have "x = Some (Sentinel EOF)" by blast
  with law(1) t show ?thesis by (simp add: read_law_def)
qed

section \<open>File parts and the loop\<close>

text \<open>What the draft keeps from before the loop.\<close>

definition same_request :: "draft \<Rightarrow> draft \<Rightarrow> bool" where
  "same_request d d' \<longleftrightarrow> ID (d_job d') = ID (d_job d) \<and> committed d' = committed d \<and>
     IdempotencyKey (d_job d') = IdempotencyKey (d_job d) \<and> TraceContext (d_job d') = TraceContext (d_job d) \<and>
     (new_row (d_job d) \<longrightarrow> new_row (d_job d'))"

definition same_file :: "draft \<Rightarrow> draft \<Rightarrow> bool" where
  "same_file d d' \<longleftrightarrow> uploaded d' = uploaded d \<and> ObjectKey (d_job d') = ObjectKey (d_job d) \<and>
     FileName (d_job d') = FileName (d_job d) \<and> SizeBytes (d_job d') = SizeBytes (d_job d) \<and>
     ContentType (d_job d') = ContentType (d_job d)"

text \<open>The draft holds the file of a part, and the store its bytes.\<close>

definition holds_file :: "config \<Rightarrow> (string \<Rightarrow> bytes option) \<Rightarrow> draft \<Rightarrow> form_part \<Rightarrow> bool" where
  "holds_file cfg os d f \<longleftrightarrow> uploaded d \<and> FileName (d_job d) = PartFileName f \<and>
     own_key (ID (d_job d)) (ObjectKey (d_job d)) \<and>
     os (ObjectKey (d_job d)) = Some (body_bytes (PartBody f)) \<and>
     SizeBytes (d_job d) = int (length (body_bytes (PartBody f))) \<and>
     (\<exists>kind verify. allowed (ContentType (d_job d)) = Some (kind, verify) \<and>
        verify (take 64 (body_bytes (PartBody f))) \<and> SizeBytes (d_job d) \<le> maxForKind cfg kind)"

lemma same_request_trans: "same_request a b \<Longrightarrow> same_request b c \<Longrightarrow> same_request a c"
  by (simp add: same_request_def)

lemma SetText_same [simp]: "same_request d (SetText t d)" "same_file d (SetText t d)"
  by (simp_all add: same_request_def same_file_def SetText_def new_row_def)

lemma holds_file_same: "holds_file cfg os d f \<Longrightarrow> same_file d d' \<Longrightarrow> ID (d_job d') = ID (d_job d) \<Longrightarrow>
    holds_file cfg os d' f"
  unfolding holds_file_def same_file_def by metis

context object_store begin

lemma attachFile_ok:
  assumes "attachFile uni cfg (ports\<lparr>P_put := put n, P_del := del\<rparr>) q f d st = (None, d', st')"
    and "body_ok f" and "limits_ok cfg" and "plain_elem (ID (d_job d))"
  shows "\<not> uploaded d \<and> same_request d d' \<and> Text (d_job d') = Text (d_job d) \<and>
    holds_file cfg (objs st') d' f \<and> (\<forall>k. own_key (ID (d_job d)) k \<or> objs st' k = objs st k)"
proof -
  obtain e where del: "delivers (PartBody f) (body_bytes (PartBody f)) e" using body_delivers [OF assms(2)] by blast
  obtain x r1 where vf: "ValidateFile uni cfg (PartFileName f) (PartCT f) (PartBody f) = (x, r1)"
    by (metis prod.exhaust)
  obtain v where x: "x = Inr v"
    using assms(1) vf by (auto simp: attachFile_def split: if_splits sum.splits)
  obtain kind verify head e2 where
    al: "allowed (resolveContentType uni (PartFileName f) (PartCT f)) = Some (kind, verify)"
    and rf: "ReadFull sniffLen (PartBody f) = ((head, e2), r1)" and ok: "verify head"
    and v: "v = \<lparr>VF_ContentType = resolveContentType uni (PartFileName f) (PartCT f), VF_Kind = kind,
               VF_MaxBytes = maxForKind cfg kind, VF_FileName = PartFileName f,
               VF_Reader = Capped (Replay head r1) (maxForKind cfg kind) 0 False\<rparr>"
    using ValidateFile_InrD [OF vf [unfolded x]] by metis
  let ?bs = "body_bytes (PartBody f)"
  let ?key = "objectKey (Q_now q) (PartFileName f) d"
  have head: "head = take 64 ?bs" and r1: "delivers r1 (drop 64 ?bs) e"
    using ReadFull_delivers [OF del rf] by (auto simp: sniffLen_def)
  have rep: "delivers (Replay head r1) ?bs e"
    using r1 by (cases "64 \<le> length ?bs") (auto simp: head min_def)
  have len: "int (length ?bs) < max_int64" using assms(2) by (simp add: body_ok_def)
  obtain y b d1 st1 where af: "AttachFile (put n) del (Q_now q) (PartFileName f) (VF_ContentType v) 0
      (VF_Reader v) d st = ((y, b), d1, st1)" by (metis prod.exhaust)
  have y: "y = None" and d1: "d' = d1" "st' = st1"
    using assms(1) vf x v af by (auto simp: attachFile_def split: if_splits option.splits)
  have up: "\<not> uploaded d" using af y by (auto simp: AttachFile_def)
  obtain w b2 where p: "put n ?key (VF_Reader v) 0 (VF_ContentType v) st = ((Inr w, b2), st1)"
    and dd: "d1 = d\<lparr>uploaded := True, d_job := (d_job d)\<lparr>ObjectKey := ?key, FileName := PartFileName f,
        ContentType := VF_ContentType v, SizeBytes := w\<rparr>\<rparr>"
    using af y up by (auto simp: AttachFile_def Let_def split: prod.splits sum.splits)
  note cf = capped_fresh [OF rep _ _ len, of "maxForKind cfg kind"]
  have "\<not> overflows (VF_Reader v)" using put_over [OF p] by blast
  then have le: "int (length ?bs) \<le> maxForKind cfg kind" and dv: "delivers (VF_Reader v) ?bs e"
    using cf limits_kind [OF assms(3), of kind] v by (auto simp del: overflows.simps delivers.simps split: if_splits)
  from put_stores [OF p dv] have w: "w = int (length ?bs)" "objs st1 = (objs st)(?key := Some ?bs)" by auto
  have own: "own_key (ID (d_job d)) ?key" using objectKey_own [OF assms(4)] .
  have "holds_file cfg (objs st') d' f"
    using w own le al ok head by (simp add: holds_file_def d1 dd v)
  moreover have "\<forall>k. own_key (ID (d_job d)) k \<or> objs st' k = objs st k"
    using own put_frame [OF p] by (metis d1(2))
  ultimately show ?thesis
    using up by (simp add: d1 dd same_request_def new_row_def)
qed

lemma attachFile_err:
  assumes "attachFile uni cfg (ports\<lparr>P_put := put n, P_del := del\<rparr>) q f d st = (Some e, d', st')"
    and "plain_elem (ID (d_job d))"
  shows "d' = d \<and> (st' = st \<or> \<not> uploaded d \<and> (\<exists>st1 key. own_key (ID (d_job d)) key \<and>
      st' = deleteQuietly del key st1 \<and> (\<forall>k. k \<noteq> key \<longrightarrow> objs st1 k = objs st k)))"
proof -
  obtain x r1 where vf: "ValidateFile uni cfg (PartFileName f) (PartCT f) (PartBody f) = (x, r1)"
    by (metis prod.exhaust)
  show ?thesis
  proof (cases "PartFileName f = '''' \<or> isl x \<or> Q_slot q \<noteq> None")
    case True
    with assms(1) vf show ?thesis
      by (auto simp: attachFile_def isl_def split: if_splits sum.splits option.splits)
  next
    case False
    then obtain v where x: "x = Inr v" by (cases x) auto
    let ?key = "objectKey (Q_now q) (VF_FileName v) d"
    obtain y b d1 st1 where af: "AttachFile (put n) del (Q_now q) (VF_FileName v) (VF_ContentType v) 0
        (VF_Reader v) d st = ((y, b), d1, st1)" by (metis prod.exhaust)
    have y: "y \<noteq> None" "d' = d1" "st' = st1"
      using assms(1) vf x False af by (auto simp: attachFile_def split: option.splits)
    obtain z b2 st2 where p: "put n ?key (VF_Reader v) 0 (VF_ContentType v) st = ((z, b2), st2)"
      by (metis prod.exhaust)
    have own: "own_key (ID (d_job d)) ?key" using objectKey_own [OF assms(2)] .
    show ?thesis
    proof (cases "uploaded d")
      case True
      with af y show ?thesis by (auto simp: AttachFile_def)
    next
      case False
      with af y p have "d1 = d" "st1 = deleteQuietly del ?key st2"
        by (auto simp: AttachFile_def Let_def split: sum.splits)
      moreover have "\<forall>k. k \<noteq> ?key \<longrightarrow> objs st2 k = objs st k" using put_frame [OF p] by blast
      ultimately show ?thesis using False own y by blast
    qed
  qed
qed

lemma read_parts_ok:
  assumes "read_parts uni cfg (ports\<lparr>P_put := put n, P_del := del\<rparr>) q evs d st = (None, d', st')"
    and "\<forall>x \<in> set (parts_sent evs). body_ok x" and "limits_ok cfg" and "plain_elem (ID (d_job d))"
  shows "same_request d d' \<and> (\<forall>k. own_key (ID (d_job d)) k \<or> objs st' k = objs st k) \<and>
    Text (d_job d') = (if texts evs = [] then Text (d_job d)
      else trim_space (body_bytes (PartBody (last (texts evs))))) \<and>
    (if files evs = [] then same_file d d' \<and> st' = st
     else \<not> uploaded d \<and> (\<exists>f. files evs = [f] \<and> holds_file cfg (objs st') d' f))"
  using assms
proof (induction evs arbitrary: d st)
  case Nil
  then show ?case by (simp add: texts_def files_def same_request_def same_file_def)
next
  case (Cons ev evs)
  show ?case
  proof (cases ev)
    case (PartErr e)
    with Cons.prems(1) show ?thesis
      by (auto simp: texts_def files_def same_request_def same_file_def split: if_splits)
  next
    case (Part x)
    have ok: "body_ok x" "\<forall>x \<in> set (parts_sent evs). body_ok x" using Cons.prems(2) Part by auto
    consider (is_text) "FormName x = ''text''" | (is_file) "FormName x = ''file''"
      | (other) "FormName x \<noteq> ''text''" "FormName x \<noteq> ''file''" by blast
    then show ?thesis
    proof cases
      case is_text
      then obtain t where t: "readTextPart (PartBody x) (MaxTextBytes cfg) = Inr t"
        and r: "read_parts uni cfg (ports\<lparr>P_put := put n, P_del := del\<rparr>) q evs (SetText t d) st = (None, d', st')"
        using Cons.prems(1) Part by (auto split: sum.splits)
      obtain e where "delivers (PartBody x) (body_bytes (PartBody x)) e" using body_delivers [OF ok(1)] by blast
      with readTextPart_Inr [OF t] assms(3) have tx: "t = body_bytes (PartBody x)" by (simp add: limits_ok_def)
      have l: "texts (ev # evs) = x # texts evs" "files (ev # evs) = files evs"
        using Part is_text by (simp_all add: texts_def files_def)
      have "Text (d_job (SetText t d)) = trim_space t" by (simp add: SetText_def)
      with Cons.IH [OF r ok(2) assms(3)] Cons.prems(4) tx show ?thesis
        unfolding l by (auto simp: same_request_def same_file_def SetText_def new_row_def split: if_splits)
    next
      case is_file
      then obtain d1 st1 where a: "attachFile uni cfg (ports\<lparr>P_put := put n, P_del := del\<rparr>) q x d st = (None, d1, st1)"
        and r: "read_parts uni cfg (ports\<lparr>P_put := put n, P_del := del\<rparr>) q evs d1 st1 = (None, d', st')"
        using Cons.prems(1) Part by (auto split: option.splits prod.splits)
      note at = attachFile_ok [OF a ok(1) assms(3) Cons.prems(4)]
      have id: "ID (d_job d1) = ID (d_job d)" using at by (simp add: same_request_def)
      with Cons.prems(4) have pl: "plain_elem (ID (d_job d1))" by simp
      note ih = Cons.IH [OF r ok(2) assms(3) pl]
      have up: "uploaded d1" using at by (simp add: holds_file_def)
      with ih have fs: "files evs = []" "same_file d1 d'" "st' = st1" by (auto split: if_splits)
      have l: "texts (ev # evs) = texts evs" "files (ev # evs) = [x]"
        using Part is_file fs(1) by (simp_all add: texts_def files_def)
      have "same_request d1 d'" using ih by blast
      then have "holds_file cfg (objs st') d' x"
        using at fs(2,3) holds_file_same by (auto simp: same_request_def)
      moreover have "same_request d d'" using at ih same_request_trans by blast
      ultimately show ?thesis unfolding l using at ih fs(3) by (auto split: if_splits)
    next
      case other
      then have "texts (ev # evs) = texts evs" "files (ev # evs) = files evs"
        using Part by (simp_all add: texts_def files_def)
      moreover have "read_parts uni cfg (ports\<lparr>P_put := put n, P_del := del\<rparr>) q evs d st = (None, d', st')"
        using Cons.prems(1) Part other by simp
      ultimately show ?thesis using Cons.IH [OF _ ok(2) assms(3) Cons.prems(4)] by simp
    qed
  qed
qed

end

section \<open>Leaving nothing behind\<close>

text \<open>
  Between the parts of a request for job \<open>i\<close> the store is what it was when the request came in, apart
  from the object that the draft holds.
\<close>

definition clean_draft :: "('s \<Rightarrow> string \<Rightarrow> bytes option) \<Rightarrow> string \<Rightarrow> 's \<Rightarrow> draft \<Rightarrow> 's \<Rightarrow> bool" where
  "clean_draft objs i st0 d st \<longleftrightarrow> ID (d_job d) = i \<and> \<not> committed d \<and>
     (uploaded d \<longrightarrow> own_key i (ObjectKey (d_job d))) \<and>
     (\<forall>k. (uploaded d \<and> k = ObjectKey (d_job d)) \<or> objs st k = objs st0 k)"

text \<open>No insert of the request is lost after it was committed.\<close>

fun reply_lost :: "fault \<Rightarrow> bool" where
  "reply_lost (ReplyLost _) = True"
| "reply_lost _ = False"

definition pg_sound :: "pg \<Rightarrow> bool" where
  "pg_sound p \<longleftrightarrow> list_all (\<lambda>f. \<not> reply_lost f) (faults p)"

lemma pg_sound_reliable: "pg_sound p \<Longrightarrow> pg_reliable p"
  by (cases "faults p"; cases "next_fault p") (auto simp: pg_sound_def pg_reliable_def next_fault_def)

lemma pg_sound_tl: "pg_sound p \<Longrightarrow> faults q = faults p \<or> faults q = tl (faults p) \<Longrightarrow> pg_sound q"
  by (cases "faults p") (auto simp: pg_sound_def)

lemma getkey_sound:
  assumes "GetByIdempotencyKey k p = (x, p')" and "pg_sound p"
  shows "pg_sound p'"
proof (rule pg_sound_tl [OF assms(2)])
  show "faults p' = faults p \<or> faults p' = tl (faults p)"
    using assms(1) by (auto simp: GetByIdempotencyKey_def read_row_def round_trip_def Let_def pop_fault_def
        split: if_splits fault.splits prod.splits)
qed

context object_store begin

lemma deletes:
  "(\<And>k st. fst (del k st) = None) \<Longrightarrow> key \<noteq> '''' \<Longrightarrow>
    objs (deleteQuietly del key st) = (objs st)(key := None)"
  unfolding deleteQuietly_def using del_removes by (metis prod.collapse)

lemma clean_attachFile:
  assumes "attachFile uni cfg (ports\<lparr>P_put := put n, P_del := del\<rparr>) q f d st = (x, d', st')"
    and "\<And>k st. fst (del k st) = None" and "\<And>k. own_key i k \<Longrightarrow> objs st0 k = None"
    and "clean_draft objs i st0 d st" and "plain_elem i"
  shows "clean_draft objs i st0 d' st'"
proof (cases x)
  case (Some e)
  have pl: "plain_elem (ID (d_job d))" using assms(4,5) by (simp add: clean_draft_def)
  from attachFile_err [OF assms(1) [unfolded Some] pl] show ?thesis
  proof (elim conjE disjE exE)
    fix st1 key
    assume *: "d' = d" "\<not> uploaded d" "own_key (ID (d_job d)) key" "st' = deleteQuietly del key st1"
      "\<forall>k. k \<noteq> key \<longrightarrow> objs st1 k = objs st k"
    then have "objs st' = (objs st1)(key := None)"
      using deletes [OF assms(2)] own_key_nonempty by blast
    with * assms(3,4) show ?thesis by (auto simp: clean_draft_def)
  qed (use assms(4) in simp)
next
  case None
  obtain y r1 where vf: "ValidateFile uni cfg (PartFileName f) (PartCT f) (PartBody f) = (y, r1)"
    by (metis prod.exhaust)
  obtain v where y: "y = Inr v"
    using assms(1) None vf by (auto simp: attachFile_def split: if_splits sum.splits)
  let ?key = "objectKey (Q_now q) (VF_FileName v) d"
  obtain z b d1 st1 where af: "AttachFile (put n) del (Q_now q) (VF_FileName v) (VF_ContentType v) 0
      (VF_Reader v) d st = ((z, b), d1, st1)" by (metis prod.exhaust)
  have z: "z = None" "d' = d1" "st' = st1"
    using assms(1) None vf y af by (auto simp: attachFile_def split: if_splits option.splits)
  have up: "\<not> uploaded d" using af z by (auto simp: AttachFile_def)
  obtain w b2 where p: "put n ?key (VF_Reader v) 0 (VF_ContentType v) st = ((Inr w, b2), st1)"
    and dd: "d1 = d\<lparr>uploaded := True, d_job := (d_job d)\<lparr>ObjectKey := ?key, FileName := VF_FileName v,
        ContentType := VF_ContentType v, SizeBytes := w\<rparr>\<rparr>"
    using af z up by (auto simp: AttachFile_def Let_def split: prod.splits sum.splits)
  have "own_key i ?key" using objectKey_own [of d] assms(4,5) by (simp add: clean_draft_def)
  with assms(4) up put_frame [OF p] show ?thesis
    by (auto simp: clean_draft_def z dd)
qed

lemma clean_read_parts:
  assumes "\<And>k st. fst (del k st) = None" and "\<And>k. own_key i k \<Longrightarrow> objs st0 k = None" and "plain_elem i"
  shows "read_parts uni cfg (ports\<lparr>P_put := put n, P_del := del\<rparr>) q evs d st = (x, d', st') \<Longrightarrow>
    clean_draft objs i st0 d st \<Longrightarrow> clean_draft objs i st0 d' st'"
proof (induction evs arbitrary: d st)
  case (Cons ev evs)
  show ?case
  proof (cases ev)
    case (Part f)
    have t: "clean_draft objs i st0 (SetText t d) st" for t
      using Cons.prems(2) by (simp add: clean_draft_def)
    obtain y d1 st1 where a: "attachFile uni cfg (ports\<lparr>P_put := put n, P_del := del\<rparr>) q f d st = (y, d1, st1)"
      by (metis prod.exhaust)
    note c = clean_attachFile [OF a assms(1,2) Cons.prems(2) assms(3)]
    show ?thesis
      using Cons.prems Cons.IH [OF _ t] Cons.IH [OF _ c] Cons.IH c Part a
      by (auto split: if_splits sum.splits option.splits)
  qed (use Cons.prems in \<open>auto split: if_splits\<close>)
qed simp

lemma clean_discard:
  assumes "\<And>k st. fst (del k st) = None" and "\<And>k. own_key i k \<Longrightarrow> objs st0 k = None"
    and "clean_draft objs i st0 d st"
  shows "objs (Discard del d st) = objs st0"
proof (cases "uploaded d")
  case True
  with assms(3) have "own_key i (ObjectKey (d_job d))" by (simp add: clean_draft_def)
  with deletes [OF assms(1) own_key_nonempty] assms(2,3) True show ?thesis
    by (auto simp: clean_draft_def Discard_def fun_eq_iff)
next
  case False
  with assms(3) show ?thesis by (auto simp: clean_draft_def Discard_def fun_eq_iff)
qed

lemma clean_commit:
  assumes "Commit (Create fresh) GetByIdempotencyKey del d p st = (r, d', p', st')"
    and "clean_draft objs i st0 d st" and "\<And>k st. fst (del k st) = None"
    and "\<And>k. own_key i k \<Longrightarrow> objs st0 k = None" and "plain_elem i" and "pg_reliable p"
    and "\<nexists>j. r = Inr (j, False)"
  shows "objs (Discard del d' st') = objs st0 \<and> rows p' = rows p"
proof -
  have id: "ID (d_job d) \<noteq> ''''" using assms(2,5) by (auto simp: clean_draft_def plain_elem_def)
  have rows: "rows p' = rows p"
  proof (cases "Text (d_job d) = '''' \<and> \<not> uploaded d")
    case False
    obtain x j p1 where c: "Create fresh (d_job d) p = ((x, j), p1)" by (metis prod.exhaust)
    obtain e where e: "x = Some e" using assms(1,7) c False by (cases x) (auto simp: Commit_def)
    have r1: "rows p1 = rows p" using pg_repo.create_reliable [OF assms(6) c [unfolded e]] .
    obtain y p2 where g: "GetByIdempotencyKey (IdempotencyKey j) p1 = (y, p2)" by (metis prod.exhaust)
    have "p' = p1 \<or> p' = p2"
      using assms(1) c e g False by (auto simp: Commit_def Let_def split: if_splits sum.splits)
    with pg_repo.getkey_rows [OF g] r1 show ?thesis by auto
  qed (use assms(1) in \<open>auto simp: Commit_def\<close>)
  have "objs (Discard del d' st') = objs st0"
  proof (cases "uploaded d")
    case True
    have nc: "\<not> committed d" and own: "own_key i (ObjectKey (d_job d))"
      using assms(2) True by (auto simp: clean_draft_def)
    have "objs (Discard del d' st') = (objs st)(ObjectKey (d_job d) := None)"
      using abandon_deletes [OF assms(3) True nc id own_key_nonempty [OF own] assms(1,7)] .
    with assms(2,4) own show ?thesis by (auto simp: clean_draft_def fun_eq_iff)
  next
    case False
    have "st' = st" "\<not> uploaded d'"
      using assms(1) False unfolding Commit_def
      by (auto simp: Let_def split: if_splits sum.splits prod.splits option.splits)
    then show ?thesis using assms(2) False by (auto simp: clean_draft_def Discard_def fun_eq_iff)
  qed
  with rows show ?thesis by blast
qed

end

section \<open>CreateJob\<close>

definition svc_ports ::
  "string \<Rightarrow> (string \<Rightarrow> bool) \<Rightarrow> (string \<Rightarrow> string option) \<Rightarrow>
   (string \<Rightarrow> reader \<Rightarrow> int \<Rightarrow> string \<Rightarrow> 's \<Rightarrow> ((goerr + int) \<times> reader) \<times> 's) \<Rightarrow>
   (string \<Rightarrow> 's \<Rightarrow> goerr option \<times> 's) \<Rightarrow> (pg, 's) ports" where
  "svc_ports fresh uuid_ok pg_uuid put del =
     \<lparr>P_create = Create fresh, P_getkey = GetByIdempotencyKey, P_get = Get uuid_ok pg_uuid,
      P_put = put, P_del = del\<rparr>"

lemma svc_ports_upd: "(svc_ports fresh uuid_ok pg_uuid put del)\<lparr>P_put := put, P_del := del\<rparr> =
    svc_ports fresh uuid_ok pg_uuid put del"
  by (simp add: svc_ports_def)

lemma svc_ports_sel [simp]:
  "P_create (svc_ports fresh uuid_ok pg_uuid put del) = Create fresh"
  "P_getkey (svc_ports fresh uuid_ok pg_uuid put del) = GetByIdempotencyKey"
  "P_get (svc_ports fresh uuid_ok pg_uuid put del) = Get uuid_ok pg_uuid"
  "P_del (svc_ports fresh uuid_ok pg_uuid put del) = del"
  by (simp_all add: svc_ports_def)

lemma clean_new: "clean_draft objs i st (SetIdempotencyKey key (NewDraft i tc)) st"
  by (simp add: clean_draft_def SetIdempotencyKey_def NewDraft_def)

definition is_new :: "response \<Rightarrow> bool" where
  "is_new r \<longleftrightarrow> R_status r = 202 \<and> \<not> List.member (map fst (R_headers r)) ''Idempotency-Replayed''"

lemma writeError_not_202: "R_status (writeError e) \<noteq> 202"
  by (simp add: writeError_def error_resp_def unwritten_def)

lemma writeError_not_new [simp]: "\<not> is_new (writeError e)"
  by (simp add: is_new_def writeError_not_202)

lemma writeJob_new [simp]: "is_new (writeJob j b) \<longleftrightarrow> \<not> b"
  by (cases b) (simp_all add: is_new_def writeJob_def)

context object_store begin

lemma submit_refused:
  assumes "submit uni cfg (svc_ports fresh uuid_ok pg_uuid (put n) del) q key p st = (resp, p', st')"
    and "\<not> is_new resp" and "\<And>k st. fst (del k st) = None" and "plain_elem (Q_uuid q)"
    and "\<And>k. own_key (Q_uuid q) k \<Longrightarrow> objs st k = None" and "pg_reliable p"
  shows "rows p' = rows p \<and> objs st' = objs st"
proof -
  let ?ports = "svc_ports fresh uuid_ok pg_uuid (put n) del"
  let ?d0 = "SetIdempotencyKey key (NewDraft (Q_uuid q) (Q_trace q))"
  obtain x d1 st1 where rp: "read_parts uni cfg ?ports q (Q_parts q) ?d0 st = (x, d1, st1)"
    by (metis prod.exhaust)
  have cl: "clean_draft objs (Q_uuid q) st d1 st1"
    by (rule clean_read_parts [OF assms(3) _ assms(4) _ clean_new, where ports = ?ports and n = n, unfolded svc_ports_upd])
       (use assms(5) rp in simp_all)
  show ?thesis
  proof (cases x)
    case (Some e)
    with assms(1) rp have "p' = p" "st' = Discard del d1 st1" by (auto simp: submit_def Let_def)
    with clean_discard [OF assms(3,5) cl] show ?thesis by simp
  next
    case None
    obtain r d2 p2 st2 where c: "Commit (Create fresh) GetByIdempotencyKey del d1 p st1 = (r, d2, p2, st2)"
      by (metis prod.exhaust)
    have eq: "p' = p2" "st' = Discard del d2 st2" "\<nexists>j. r = Inr (j, False)"
      using assms(1,2) rp None c by (auto simp: submit_def Let_def split: sum.splits)
    from clean_commit [OF c cl assms(3,5,4,6) eq(3)] eq show ?thesis by simp
  qed
qed

lemma CreateJob_refused:
  assumes "CreateJob uni cfg (svc_ports fresh uuid_ok pg_uuid (put n) del) q p st = (resp, p', st')"
    and "\<not> is_new resp" and "\<And>k st. fst (del k st) = None" and "plain_elem (Q_uuid q)"
    and "\<And>k. own_key (Q_uuid q) k \<Longrightarrow> objs st k = None" and "pg_sound p"
  shows "rows p' = rows p \<and> objs st' = objs st"
proof -
  let ?ports = "svc_ports fresh uuid_ok pg_uuid (put n) del"
  let ?key = "trim_space (Q_idem q)"
  obtain y p1 where g: "GetByIdempotencyKey ?key p = (y, p1)" by (metis prod.exhaust)
  have rows1: "rows p1 = rows p" using pg_repo.getkey_rows [OF g] .
  consider "rows p' = rows p \<and> st' = st" | "submit uni cfg ?ports q ?key p st = (resp, p', st')"
    | "submit uni cfg ?ports q ?key p1 st = (resp, p', st')"
    using assms(1) g rows1 by (auto simp: CreateJob_def Let_def FindByIdempotencyKey_def split: if_splits sum.splits)
  then show ?thesis
  proof cases
    case 2
    from submit_refused [OF 2 assms(2,3,4,5) pg_sound_reliable [OF assms(6)]] show ?thesis .
  next
    case 3
    from submit_refused [OF 3 assms(2,3,4,5) pg_sound_reliable [OF getkey_sound [OF g assms(6)]]] rows1
    show ?thesis by simp
  qed simp
qed

lemma submit_accepted:
  assumes "submit uni cfg (svc_ports fresh uuid_ok pg_uuid (put n) del) q key p st = (resp, p', st')"
    and "is_new resp" and "plain_elem (Q_uuid q)" and "limits_ok cfg"
    and "\<forall>x \<in> set (parts_sent (Q_parts q)). body_ok x"
  shows "\<exists>j d. rows p' = rows p @ [j] \<and> resp = writeJob j False \<and> d_job d = j \<and> ID j = Q_uuid q \<and> new_row j \<and>
    IdempotencyKey j = key \<and> TraceContext j = Q_trace q \<and> (Text j \<noteq> '''' \<or> files (Q_parts q) \<noteq> []) \<and>
    Text j = (if texts (Q_parts q) = [] then ''''
      else trim_space (body_bytes (PartBody (last (texts (Q_parts q)))))) \<and>
    (\<forall>k. own_key (Q_uuid q) k \<or> objs st' k = objs st k) \<and>
    (if files (Q_parts q) = [] then ObjectKey j = '''' \<and> st' = st
     else \<exists>f. files (Q_parts q) = [f] \<and> holds_file cfg (objs st') d f)"
proof -
  let ?ports = "svc_ports fresh uuid_ok pg_uuid (put n) del"
  let ?d0 = "SetIdempotencyKey key (NewDraft (Q_uuid q) (Q_trace q))"
  obtain x d1 st1 where rp: "read_parts uni cfg ?ports q (Q_parts q) ?d0 st = (x, d1, st1)"
    by (metis prod.exhaust)
  have x: "x = None" using assms(1,2) rp by (cases x) (auto simp: submit_def Let_def)
  have id0: "ID (d_job ?d0) = Q_uuid q" by (simp add: SetIdempotencyKey_def NewDraft_def)
  note ok = read_parts_ok [where ports = ?ports and n = n and d = ?d0, unfolded svc_ports_upd id0,
      OF rp [unfolded x] assms(5,4,3)]
  obtain r d2 p2 st2 where c: "Commit (Create fresh) GetByIdempotencyKey del d1 p st1 = (r, d2, p2, st2)"
    by (metis prod.exhaust)
  obtain j where r: "r = Inr (j, False)" and eq: "resp = writeJob j False" "p' = p2" "st' = Discard del d2 st2"
    using assms(1,2) rp x c by (auto simp: submit_def Let_def split: sum.splits)
  have d1: "ID (d_job d1) = Q_uuid q" "IdempotencyKey (d_job d1) = key" "TraceContext (d_job d1) = Q_trace q"
    "new_row (d_job d1)"
    using ok by (auto simp: same_request_def SetIdempotencyKey_def NewDraft_def zero_job_def new_row_def)
  obtain y j1 p1 where cr: "Create fresh (d_job d1) p = ((y, j1), p1)" by (metis prod.exhaust)
  have pay: "\<not> (Text (d_job d1) = '''' \<and> \<not> uploaded d1)" using c r by (auto simp: Commit_def split: if_splits)
  have y1: "y = None"
  proof (cases y)
    case (Some e)
    obtain z p3 where "GetByIdempotencyKey (IdempotencyKey j1) p1 = (z, p3)" by (metis prod.exhaust)
    with c cr r pay Some have False
      unfolding Commit_def by (auto simp: Let_def simp del: de_Morgan_conj split: if_splits sum.splits)
    then show ?thesis ..
  qed simp
  have y: "y = None" "j = j1" "p2 = p1" "st2 = st1" "d2 = d1\<lparr>d_job := j1, committed := True\<rparr>"
    using c cr r pay y1 unfolding Commit_def by (simp_all only: if_False) auto
  have id1: "ID (d_job d1) \<noteq> ''''" using assms(3) d1(1) by (auto simp: plain_elem_def)
  have j: "j = (d_job d1)\<lparr>CreatedAt := app_now p, UpdatedAt := app_now p\<rparr>"
    using Create_cases [OF cr id1] y by simp
  have rows: "rows p' = rows p @ [j]" using pg_repo.create_ok [OF cr [unfolded y(1)]] y eq by simp
  have st': "st' = st1" using eq y by (simp add: Discard_def)
  have "uploaded d1 \<longleftrightarrow> files (Q_parts q) \<noteq> []"
    using ok by (auto simp: same_file_def holds_file_def SetIdempotencyKey_def NewDraft_def split: if_splits)
  moreover have "holds_file cfg (objs st') d2 f" if "holds_file cfg (objs st1) d1 f" for f
    unfolding st' by (rule holds_file_same [OF that]) (simp_all add: same_file_def y(5) y(2) [symmetric] j)
  moreover have "ObjectKey j = '''' \<and> st' = st" if "files (Q_parts q) = []"
    using ok that by (simp add: j st' same_file_def SetIdempotencyKey_def NewDraft_def zero_job_def)
  moreover have "Text j = Text (d_job d1)" "new_row j" using d1(4) by (simp_all add: j new_row_def)
  ultimately show ?thesis
    using rows eq(1) d1 ok pay st' y(2,5)
    by (intro exI [of _ j] exI [of _ d2])
       (auto simp: j SetIdempotencyKey_def NewDraft_def zero_job_def split: if_splits)
qed

lemma CreateJob_accepted:
  assumes "CreateJob uni cfg (svc_ports fresh uuid_ok pg_uuid (put n) del) q p st = (resp, p', st')"
    and "is_new resp" and "plain_elem (Q_uuid q)" and "limits_ok cfg"
    and "\<forall>x \<in> set (parts_sent (Q_parts q)). body_ok x"
  shows "\<exists>j d. rows p' = rows p @ [j] \<and> resp = writeJob j False \<and> d_job d = j \<and> ID j = Q_uuid q \<and> new_row j \<and>
    IdempotencyKey j = trim_space (Q_idem q) \<and> TraceContext j = Q_trace q \<and>
    (Text j \<noteq> '''' \<or> files (Q_parts q) \<noteq> []) \<and>
    Text j = (if texts (Q_parts q) = [] then ''''
      else trim_space (body_bytes (PartBody (last (texts (Q_parts q)))))) \<and>
    (\<forall>k. own_key (Q_uuid q) k \<or> objs st' k = objs st k) \<and>
    (if files (Q_parts q) = [] then ObjectKey j = '''' \<and> st' = st
     else \<exists>f. files (Q_parts q) = [f] \<and> holds_file cfg (objs st') d f)"
proof -
  let ?ports = "svc_ports fresh uuid_ok pg_uuid (put n) del"
  let ?key = "trim_space (Q_idem q)"
  obtain y p1 where g: "GetByIdempotencyKey ?key p = (y, p1)" by (metis prod.exhaust)
  have rows1: "rows p1 = rows p" using pg_repo.getkey_rows [OF g] .
  have "submit uni cfg ?ports q ?key p st = (resp, p', st') \<or> submit uni cfg ?ports q ?key p1 st = (resp, p', st')"
    using assms(1,2) g
    by (auto simp: CreateJob_def Let_def FindByIdempotencyKey_def split: if_splits sum.splits)
  then show ?thesis
  proof
    assume "submit uni cfg ?ports q ?key p st = (resp, p', st')"
    from submit_accepted [OF this assms(2-5)] show ?thesis .
  next
    assume "submit uni cfg ?ports q ?key p1 st = (resp, p', st')"
    from submit_accepted [OF this assms(2-5)] show ?thesis unfolding rows1 .
  qed
qed

end

section \<open>Properties of CreateJob\<close>

text \<open>A request with a text and a small file, and the ports to send it to.\<close>

definition png_part :: "bytes \<Rightarrow> goerr option \<Rightarrow> form_part" where
  "png_part rest e = \<lparr>FormName = ''file'', PartFileName = ''a b.png'', PartCT = ''image/png'',
     PartBody = Stream [Data png_head None, Data rest e]\<rparr>"

definition text_part :: "bytes \<Rightarrow> form_part" where
  "text_part t = \<lparr>FormName = ''text'', PartFileName = '''', PartCT = '''', PartBody = Stream [Data t None]\<rparr>"

definition sample_req :: "part_ev list \<Rightarrow> req" where
  "sample_req evs = \<lparr>Q_multipart = True, Q_idem = '''', Q_parts = evs, Q_trace = '''', Q_uuid = ''u1'',
     Q_now = 7, Q_slot = None\<rparr>"

definition tiny_ports :: "move list \<Rightarrow> (pg, fake_s3) ports" where
  "tiny_ports sched = svc_ports ''f'' (\<lambda>_. True) Some (Put (fake_api no_url) tiny_store sched)
     (Delete (fake_api no_url))"

text \<open>
  C2. The job a client is told was created is the job the client sent. When \<open>CreateJob\<close> answers 202 for a
  new job, exactly one row was added: pending, unattempted, with the id of the response, the trimmed
  idempotency key, the text of the last \<open>text\<close> part trimmed, and, when the request had a \<open>file\<close> part
  (there is then only one), an object under the job's own prefix that holds exactly the bytes of that
  part, opens with the magic bytes of the recorded content type, and is within the limit of its kind.
  No other object changed.
\<close>
theorem accepted_job_is_what_was_sent:
  assumes "object_store put del objs" and "plain_elem (Q_uuid q)" and "limits_ok cfg"
    and "\<forall>x \<in> set (parts_sent (Q_parts q)). body_ok x"
    and "CreateJob uni cfg (svc_ports fresh uuid_ok pg_uuid (put n) del) q p st = (resp, p', st')"
    and "is_new resp"
  shows "\<exists>j d. rows p' = rows p @ [j] \<and> resp = writeJob j False \<and> d_job d = j \<and> ID j = Q_uuid q \<and> new_row j \<and>
    IdempotencyKey j = trim_space (Q_idem q) \<and> TraceContext j = Q_trace q \<and>
    (Text j \<noteq> '''' \<or> files (Q_parts q) \<noteq> []) \<and>
    Text j = (if texts (Q_parts q) = [] then ''''
      else trim_space (body_bytes (PartBody (last (texts (Q_parts q)))))) \<and>
    (\<forall>k. own_key (Q_uuid q) k \<or> objs st' k = objs st k) \<and>
    (if files (Q_parts q) = [] then ObjectKey j = '''' \<and> st' = st
     else \<exists>f. files (Q_parts q) = [f] \<and> holds_file cfg (objs st') d f)"
  using object_store.CreateJob_accepted [OF assms(1,5,6,2-4)] .

lemma plain_u1: "plain_elem ''u1''"
  by (simp add: plain_elem_def slash_def)

lemma small_limits: "limits_ok small_cfg"
  by (simp add: limits_ok_def small_cfg_def derive_config_def env_config_def bare_env_def getenv_with_def
      getenvInt64_def max_int64_def Let_def)

lemma sample_bodies:
  "\<forall>x \<in> set (parts_sent [Part (png_part ''xyz'' None), Part (text_part ''hi'')]). body_ok x"
  by (simp add: body_ok_def png_part_def text_part_def png_head_def max_int64_def)

theorem accepted_job_is_what_was_sent_witness:
  "\<exists>resp p' st' j d. CreateJob id small_cfg (tiny_ports []) (sample_req [Part (png_part ''xyz'' None), Part (text_part ''hi'')])
      empty_pg newFakeS3 = (resp, p', st') \<and> rows p' = [j] \<and>
     holds_file small_cfg (objects st') d (png_part ''xyz'' None) \<and> d_job d = j"
proof -
  let ?q = "sample_req [Part (png_part ''xyz'' None), Part (text_part ''hi'')]"
  obtain resp p' st' where c: "CreateJob id small_cfg (tiny_ports []) ?q empty_pg newFakeS3 = (resp, p', st')"
    by (metis prod.exhaust)
  have "is_new (fst (CreateJob id small_cfg (tiny_ports []) ?q empty_pg newFakeS3))" by code_simp
  then have new: "is_new resp" by (simp add: c)
  have q: "Q_uuid ?q = ''u1''" "Q_parts ?q = [Part (png_part ''xyz'' None), Part (text_part ''hi'')]"
    by (simp_all add: sample_req_def)
  have fs: "files (Q_parts ?q) = [png_part ''xyz'' None]"
    by (simp add: sample_req_def files_def png_part_def text_part_def)
  have b: "\<forall>x \<in> set (parts_sent (Q_parts ?q)). body_ok x" using sample_bodies q(2) by simp
  have pl: "plain_elem (Q_uuid ?q)" using plain_u1 q(1) by simp
  from accepted_job_is_what_was_sent [OF tiny_object_store pl small_limits b c [unfolded tiny_ports_def] new] fs
  obtain j d where "rows p' = rows empty_pg @ [j]" "d_job d = j"
    "\<exists>f. files (Q_parts ?q) = [f] \<and> holds_file small_cfg (objects st') d f" by auto
  moreover have "rows empty_pg = []" by (simp add: empty_pg_def)
  ultimately show ?thesis using c fs by auto
qed

text \<open>
  C17. A request that does not create a job leaves no trace: whatever goes wrong (a bad part, a file over
  its limit or of the wrong type, a second file, no free slot, a failed insert, a replayed key), the
  table is unchanged and every object is what it was before, provided deletions go through, inserts
  that fail wrote nothing and the keys of the fresh id were unused.
\<close>
theorem refused_request_leaves_nothing:
  assumes "object_store put del objs" and "\<And>k st. fst (del k st) = None" and "plain_elem (Q_uuid q)"
    and "\<And>k. own_key (Q_uuid q) k \<Longrightarrow> objs st k = None" and "pg_sound p"
    and "CreateJob uni cfg (svc_ports fresh uuid_ok pg_uuid (put n) del) q p st = (resp, p', st')"
    and "\<not> is_new resp"
  shows "rows p' = rows p \<and> objs st' = objs st"
  using object_store.CreateJob_refused [OF assms(1,6,7,2,3,4,5)] by simp

theorem refused_request_leaves_nothing_witness:
  "objects (snd (snd (CreateJob id small_cfg (tiny_ports []) (sample_req [Part (png_part ''123456789'' None)])
     empty_pg newFakeS3))) = objects newFakeS3"
proof -
  let ?q = "sample_req [Part (png_part ''123456789'' None)]"
  obtain resp p' st' where c: "CreateJob id small_cfg (tiny_ports []) ?q empty_pg newFakeS3 = (resp, p', st')"
    by (metis prod.exhaust)
  have "\<not> is_new (fst (CreateJob id small_cfg (tiny_ports []) ?q empty_pg newFakeS3))" by code_simp
  then have new: "\<not> is_new resp" by (simp add: c)
  have q: "Q_uuid ?q = ''u1''" by (simp add: sample_req_def)
  have del: "fst (Delete (fake_api no_url) k st) = None" for k and st :: fake_s3
    by (simp add: Delete_def fake_api_def fake_delete_def)
  have pg: "pg_sound empty_pg" by (simp add: pg_sound_def empty_pg_def)
  have "objects st' = objects newFakeS3"
    using refused_request_leaves_nothing [OF tiny_object_store del, of ?q newFakeS3, unfolded q,
      OF plain_u1 _ pg c [unfolded tiny_ports_def] new] by (simp add: newFakeS3_def)
  then show ?thesis by (simp add: c)
qed

definition file_over_request :: "bytes \<Rightarrow> form_part" where
  "file_over_request rest = \<lparr>FormName = ''file'', PartFileName = ''a.png'', PartCT = ''image/png'',
     PartBody = Stream [Data png_head None, Data rest (Some (MaxBytesError 100))]\<rparr>"

definition mid_cfg :: config where
  "mid_cfg = small_cfg\<lparr>MaxImageBytes := 1000\<rparr>"

definition mid_ports :: "(pg, fake_s3) ports" where
  "mid_ports = svc_ports ''f'' (\<lambda>_. True) Some
     (Put (fake_api no_url) \<lparr>multipartThreshold = 256, partSize = 128, partConcurrency = 1\<rparr> [])
     (Delete (fake_api no_url))"

text \<open>
  One excess, three answers. When the limit on the whole request (\<open>http.MaxBytesReader\<close>) is hit
  inside a \<open>text\<close> part the client gets 413, the documented answer. Inside the first 64 bytes of a
  \<open>file\<close> part it gets 400, and after them 500 with no explanation, because neither \<open>ValidateFile\<close> nor
  \<open>attachFile\<close> maps the read error.
\<close>
theorem request_limit_answers_differ:
  "R_status (fst (CreateJob id mid_cfg mid_ports
      (sample_req [Part \<lparr>FormName = ''text'', PartFileName = '''', PartCT = '''',
         PartBody = Stream [Data ''a'' (Some (MaxBytesError 100))]\<rparr>]) empty_pg newFakeS3)) = 413 \<and>
   R_status (fst (CreateJob id mid_cfg mid_ports
      (sample_req [Part (file_over_request ''x'')]) empty_pg newFakeS3)) = 400 \<and>
   R_status (fst (CreateJob id mid_cfg mid_ports
      (sample_req [Part (file_over_request (replicate 60 (CHR ''x'')))]) empty_pg newFakeS3)) = 500"
  by (intro conjI; code_simp)

text \<open>
  C40. A client whose upload failed can be told 200. For every request whose first part is an acceptable file that
  fills one part of the multipart upload and has more, every service that creates the upload and refuses its first
  part, and every number of workers, there is a schedule in which nobody cancels anything and the producer is waiting
  to send the next part when the first is refused: \<open>Put\<close> then reports \<open>context.Canceled\<close>, \<open>writeError\<close> takes that for
  a client that hung up and writes nothing, so \<open>net/http\<close> sends an empty 200; the database was never asked to create
  a job.
\<close>
theorem failed_upload_answered_200:
  assumes "Q_multipart q" and "trim_space (Q_idem q) = ''''" and "Q_slot q = None"
    and "Q_parts q = Part part # evs" and "FormName part = ''file''" and "PartFileName part \<noteq> ''''"
    and "fst (ValidateFile uni cfg (PartFileName part) (PartCT part) (PartBody part)) = Inr v"
    and "fill (nat (partSize c)) (VF_Reader v) = ((b1, None), r1)"
    and "fill (nat (partSize c)) r1 = ((b2, y), r2)" and "b2 \<noteq> []" and "\<not> Exceeded r2" and "1 \<le> partConcurrency c"
    and "key = objectKey (Q_now q) (VF_FileName v) (NewDraft (Q_uuid q) (Q_trace q))"
    and "api_create api key (VF_ContentType v) st = (Inr uid, s1)" and "api_part api key uid 1 b1 s1 = (Inl x, s2)"
  shows "\<exists>sched. MCancel \<notin> set sched \<and>
    (\<exists>st'. CreateJob uni cfg (svc_ports fresh uuid_ok pg_uuid (Put api c sched) del) q p st = (unwritten, p, st'))"
proof (intro exI [of _ refusal_schedule] conjI)
  let ?ports = "svc_ports fresh uuid_ok pg_uuid (Put api c refusal_schedule) del"
  let ?d = "SetIdempotencyKey '''' (NewDraft (Q_uuid q) (Q_trace q))"
  have k: "objectKey (Q_now q) (VF_FileName v) ?d = key" by (simp add: assms(13) objectKey_def SetIdempotencyKey_def)
  obtain st1 where put: "Put api c refusal_schedule key (VF_Reader v) 0 (VF_ContentType v) st = ((Inl (Sentinel Canceled), r2), st1)"
    using refused_part_is_canceled [OF assms(8-10,12,14,15)] by blast
  have "AttachFile (P_put ?ports) (P_del ?ports) (Q_now q) (VF_FileName v) (VF_ContentType v) 0 (VF_Reader v) ?d st =
      ((Some (wrap ''upload object'' (Sentinel Canceled)), r2), ?d, deleteQuietly del key st1)"
    by (simp add: AttachFile_def k put svc_ports_def) (simp add: SetIdempotencyKey_def NewDraft_def)
  then have "attachFile uni cfg ?ports q part ?d st =
      (Some (wrap ''upload object'' (Sentinel Canceled)), ?d, deleteQuietly del key st1)"
    using assms(3,6,7,11) by (simp add: attachFile_def)
  moreover have "writeError (wrap ''upload object'' (Sentinel Canceled)) = unwritten"
    by (simp add: writeError_def wrap_def)
  ultimately show "\<exists>st'. CreateJob uni cfg ?ports q p st = (unwritten, p, st')"
    using assms(1,2,4,5) by (simp add: CreateJob_def submit_def Let_def)
qed (simp add: refusal_schedule_def)

theorem failed_upload_answered_200_witness:
  "\<exists>sched. MCancel \<notin> set sched \<and>
    (\<exists>st'. CreateJob id small_cfg (tiny_ports sched) (sample_req [Part (png_part ''xyz'' None)]) empty_pg
       (newFakeS3\<lparr>failPart := 1\<rparr>) = (unwritten, empty_pg, st'))"
proof -
  let ?q = "sample_req [Part (png_part ''xyz'' None)]" and ?st = "newFakeS3\<lparr>failPart := 1\<rparr>"
  let ?part = "png_part ''xyz'' None"
  have "case fst (ValidateFile id small_cfg (PartFileName ?part) (PartCT ?part) (PartBody ?part)) of
      Inl _ \<Rightarrow> False
    | Inr v \<Rightarrow> (case fill 2 (VF_Reader v) of ((_, e), r1) \<Rightarrow> e = None \<and>
        (case fill 2 r1 of ((b2, _), r2) \<Rightarrow> b2 \<noteq> [] \<and> \<not> Exceeded r2))"
    by code_simp
  from case_InrD [OF this] obtain v where v: "fst (ValidateFile id small_cfg (PartFileName ?part) (PartCT ?part) (PartBody ?part)) = Inr v"
    "case fill 2 (VF_Reader v) of ((_, e), r1) \<Rightarrow> e = None \<and> (case fill 2 r1 of ((b2, _), r2) \<Rightarrow> b2 \<noteq> [] \<and> \<not> Exceeded r2)"
    by (elim exE conjE)
  then obtain b1 r1 b2 y r2 where f: "fill 2 (VF_Reader v) = ((b1, None), r1)" "fill 2 r1 = ((b2, y), r2)" "b2 \<noteq> []" "\<not> Exceeded r2"
    by (auto split: prod.splits)
  have sz: "nat (partSize tiny_store) = 2" "1 \<le> partConcurrency tiny_store" by (simp_all add: tiny_store_def)
  have q: "Q_multipart ?q" "trim_space (Q_idem ?q) = ''''" "Q_slot ?q = None" "Q_parts ?q = Part ?part # []"
    by (simp_all add: sample_req_def)
  have part: "FormName ?part = ''file''" "PartFileName ?part \<noteq> ''''" by (simp_all add: png_part_def)
  have create: "api_create (fake_api no_url) key ct ?st =
      (Inr (''upload-'' @ itoa 1), ?st\<lparr>nextID := 1, parts := (parts ?st)(''upload-'' @ itoa 1 := Some [])\<rparr>)" for key ct
    by (simp add: fake_api_def createMultipart_def newFakeS3_def Let_def)
  have refuse: "api_part (fake_api no_url) key uid 1 b1 (?st\<lparr>nextID := 1, parts := ps\<rparr>) =
      (Inl (Opaque ''InternalServerError''), ?st\<lparr>nextID := 1, parts := ps\<rparr>)" for key uid ps
    by (simp add: fake_api_def fake_part_def)
  show ?thesis
    unfolding tiny_ports_def
    by (rule failed_upload_answered_200 [OF q part v(1) f(1,2) [folded sz(1)] f(3,4) sz(2) refl create refuse])
qed

end
