(* ===== verification/Auth.thy ===== *)
theory Auth
  imports Handlers
begin

text \<open>
  \<open>internal/api/http/auth.go\<close> and the routes of \<open>router.go\<close>. SHA-256 is a parameter; what the check
  relies on is that the presented key collides with no configured one.
\<close>

section \<open>The key\<close>

definition cut_prefix :: "string \<Rightarrow> string \<Rightarrow> string option" where
  "cut_prefix p s = (if has_prefix p s then Some (drop (length p) s) else None)"

text \<open>The two headers, each empty when absent.\<close>

definition presentedKey :: "string \<Rightarrow> string \<Rightarrow> string" where
  "presentedKey authorization xApiKey =
     (if authorization \<noteq> ''''
      then case cut_prefix ''Bearer '' authorization of Some key \<Rightarrow> trim_space key | None \<Rightarrow> ''''
      else trim_space xApiKey)"

text \<open>\<open>subtle.ConstantTimeCompare\<close> of two digests, 1 for equal; the loop runs over all of them.\<close>

definition constantTimeCompare :: "'d \<Rightarrow> 'd \<Rightarrow> int" where
  "constantTimeCompare a b = (if a = b then 1 else 0)"

definition authorised :: "(string \<Rightarrow> 'd) \<Rightarrow> 'd list \<Rightarrow> string \<Rightarrow> bool" where
  "authorised sha digests presented =
     (if presented = '''' then False
      else let got = sha presented
           in fold (\<lambda>want ok. or ok (constantTimeCompare got want)) digests 0 = 1)"

definition key_digests :: "(string \<Rightarrow> 'd) \<Rightarrow> string list \<Rightarrow> 'd list" where
  "key_digests sha keys = map sha (filter (\<lambda>k. k \<noteq> '''') (map trim_space keys))"

text \<open>The middleware around a handler.\<close>

definition apiKeyAuth ::
  "(string \<Rightarrow> 'd) \<Rightarrow> string list \<Rightarrow> string \<Rightarrow> string \<Rightarrow> ('w \<Rightarrow> response \<times> 'w) \<Rightarrow> 'w \<Rightarrow> response \<times> 'w" where
  "apiKeyAuth sha keys authorization xApiKey next w =
     (let digests = key_digests sha keys
      in if digests = [] then next w
         else if \<not> authorised sha digests (presentedKey authorization xApiKey)
         then ((writeError (Sentinel ErrUnauthorized))
                 \<lparr>R_headers := [(''WWW-Authenticate'', ''Bearer realm=\"payload-service\"'')]\<rparr>, w)
         else next w)"

section \<open>Routes\<close>

datatype route = RHealthz | RReadyz | RVersion | RMetrics | RCreateJob | RGetJob string | RNone

text \<open>
  \<open>NewRouter\<close>: method and path to handler. The pattern \<open>/jobs/{id}\<close> takes one non-empty segment; a
  known path with another method is a 405 of the router, which counts as no route here.
\<close>

definition jobs_prefix :: string where
  "jobs_prefix = ''/api/v1/jobs''"

definition route_of :: "string \<Rightarrow> string \<Rightarrow> route" where
  "route_of meth path =
     (if path = ''/metrics'' then RMetrics
      else if meth = ''GET'' \<and> path = ''/healthz'' then RHealthz
      else if meth = ''GET'' \<and> path = ''/readyz'' then RReadyz
      else if meth = ''GET'' \<and> path = ''/version'' then RVersion
      else if meth = ''POST'' \<and> path = jobs_prefix then RCreateJob
      else if meth = ''GET'' then
        (case cut_prefix (jobs_prefix @ ''/'') path of
           Some i \<Rightarrow> if i \<noteq> '''' \<and> slash \<notin> set i then RGetJob i else RNone
         | None \<Rightarrow> RNone)
      else RNone)"

text \<open>
  \<open>r.Route(\"/api/v1\", ...)\<close> mounts a sub-router whose middleware runs before its own routing, so it
  also guards the paths below it that have no handler.
\<close>

definition guarded :: "string \<Rightarrow> bool" where
  "guarded path \<longleftrightarrow> path = ''/api/v1'' \<or> has_prefix ''/api/v1/'' path"

text \<open>A request, routed, through the middleware where the path has it.\<close>

definition serve ::
  "(string \<Rightarrow> 'd) \<Rightarrow> string list \<Rightarrow> (route \<Rightarrow> 'w \<Rightarrow> response \<times> 'w) \<Rightarrow>
   string \<Rightarrow> string \<Rightarrow> string \<Rightarrow> string \<Rightarrow> 'w \<Rightarrow> response \<times> 'w" where
  "serve sha keys handlers meth path authorization xApiKey w =
     (let next = handlers (route_of meth path)
      in if guarded path then apiKeyAuth sha keys authorization xApiKey next w else next w)"

section \<open>Properties\<close>

lemma or_bit: "a \<in> {0, 1} \<Longrightarrow> or a (constantTimeCompare x y) = (if a = 1 \<or> x = y then 1 else (0 :: int))"
  by (auto simp: constantTimeCompare_def)

lemma fold_compare:
  "a \<in> {0, 1} \<Longrightarrow> fold (\<lambda>want ok. or ok (constantTimeCompare got want)) ds a =
    (if a = 1 \<or> got \<in> set ds then 1 else (0 :: int))"
proof (induction ds arbitrary: a)
  case (Cons d ds)
  have "or a (constantTimeCompare got d) \<in> {0, 1}" using or_bit [OF Cons.prems, of got d] by auto
  from Cons.IH [OF this] show ?case by (simp add: or_bit [OF Cons.prems])
qed auto

lemma authorised_iff: "authorised sha ds k \<longleftrightarrow> k \<noteq> '''' \<and> sha k \<in> set ds"
  by (simp add: authorised_def fold_compare Let_def)

text \<open>
  C23. Access is exactly membership. With keys configured, a request below \<open>/api/v1\<close> reaches its
  handler if and only if the key it presents (a bearer token, or the X-API-Key header when there is no
  Authorization header), trimmed, is one of the configured keys, trimmed; otherwise the answer is 401
  and the handler's state is untouched. The loop that looks at every digest decides the same as a set
  lookup.
\<close>
theorem auth_is_membership:
  assumes "guarded path" and "\<exists>k \<in> set keys. trim_space k \<noteq> ''''"
    and "\<forall>k \<in> set keys. sha (presentedKey a x) = sha (trim_space k) \<longrightarrow> presentedKey a x = trim_space k"
  shows "serve sha keys handlers meth path a x w =
    (if presentedKey a x \<noteq> '''' \<and> presentedKey a x \<in> trim_space ` set keys
     then handlers (route_of meth path) w
     else (\<lparr>R_status = 401, R_headers = [(''WWW-Authenticate'', ''Bearer realm=\"payload-service\"'')],
            R_body = ErrorBody ''unauthorized'' ''valid API key required''\<rparr>, w))"
proof -
  have ne: "key_digests sha keys \<noteq> []"
    using assms(2) by (auto simp: key_digests_def filter_empty_conv)
  have "sha (presentedKey a x) \<in> set (key_digests sha keys) \<longleftrightarrow> presentedKey a x \<in> trim_space ` set keys"
    if "presentedKey a x \<noteq> ''''"
    using that assms(3) by (auto simp: key_digests_def image_iff)
  then show ?thesis
    using assms(1) ne
    by (auto simp: serve_def apiKeyAuth_def Let_def authorised_iff writeError_def error_resp_def)
qed

theorem auth_is_membership_witness:
  "serve id ['' secret '', ''other''] (\<lambda>r w. (Healthz, Suc w)) ''GET'' ''/api/v1/jobs/17'' ''Bearer secret'' ''''
     (0 :: nat) = (Healthz, 1)"
proof -
  have k: "presentedKey ''Bearer secret'' '''' = ''secret''" "trim_space '' secret '' = ''secret''"
    "trim_space ''other'' = ''other''" by code_simp+
  have r: "guarded ''/api/v1/jobs/17''" by code_simp
  show ?thesis
    by (subst auth_is_membership) (simp_all add: k r)
qed

end
