(* ===== verification/Processor.thy ===== *)
theory Processor
  imports Domain GoStrings
begin

text \<open>
  \<open>internal/processor/http.go\<close>: the client of the external processor. One attempt (\<open>doOnce\<close>) classifies
  the answer; \<open>Process\<close> retries the retryable ones with a doubling wait and jitter. The network, the
  JSON codec, the clock, the random source and the cancellation of the context are parameters: what
  the n-th attempt gets back, the jitter drawn after it, and whether the context ends during the wait.
\<close>

section \<open>One attempt\<close>

text \<open>An error of \<open>Do\<close>, or a response with its status and body.\<close>

datatype http_reply = DoErr goerr | Resp int bytes

text \<open>The JSON decoder on the body: an error, or the summary and the time (\<open>None\<close>: the zero time).\<close>

type_synonym decoder = "bytes \<Rightarrow> goerr + (string \<times> time option)"

definition maxErrorBody :: nat where "maxErrorBody = 4 * 2 ^ 10"

definition doOnce ::
  "decoder \<Rightarrow> time \<Rightarrow> goerr option \<Rightarrow> http_reply \<Rightarrow> (goerr + ProcessResult) \<times> bool" where
  "doOnce decode now build reply =
     (case build of
        Some e \<Rightarrow> (Inl (Wrapped (sentinel_text ErrPermanent @ '': build request: '' @ err_text e)
                       [Sentinel ErrPermanent, e]), False)
      | None \<Rightarrow>
          (case reply of
             DoErr e \<Rightarrow> (Inl (wrap ''processor request'' e), True)
           | Resp code body \<Rightarrow>
               (if code \<ge> 500 \<or> code = 429
                then (Inl (Opaque (''processor status '' @ itoa code @ '': '' @ take maxErrorBody body)), True)
                else if code \<ge> 400
                then (Inl (werr ErrPermanent
                        (''processor rejected job with '' @ itoa code @ '': '' @ take maxErrorBody body)), False)
                else case decode (take (2 ^ 20) body) of
                       Inl e \<Rightarrow> (Inl (wrap ''decode processor response'' e), True)
                     | Inr (summary, at) \<Rightarrow>
                         (Inr \<lparr>Summary = summary,
                               ProcessedAt = (case at of None \<Rightarrow> now | Some t \<Rightarrow> t)\<rparr>, False))))"

section \<open>The retry loop\<close>

record http_env =
  E_decode :: decoder
  E_now :: "nat \<Rightarrow> time"
  E_build :: "goerr option" \<comment> \<open>the error of building the request, which depends on the URL only\<close>
  E_reply :: "nat \<Rightarrow> http_reply"
  E_jitter :: "nat \<Rightarrow> int" \<comment> \<open>\<open>rand.Int64N(n)\<close> with \<open>n\<close> taken from the model\<close>
  E_cancel :: "nat \<Rightarrow> goerr option" \<comment> \<open>\<open>ctx.Err()\<close> if the context ends during the n-th wait\<close>

definition attempt_result :: "http_env \<Rightarrow> nat \<Rightarrow> (goerr + ProcessResult) \<times> bool" where
  "attempt_result env n = doOnce (E_decode env) (E_now env n) (E_build env) (E_reply env n)"

definition new_retries :: "int \<Rightarrow> int" where
  "new_retries n = (if n < 1 then 1 else n)"

text \<open>\<open>rand.Int64N\<close> returns a value below its argument; the environment's draw is reduced to that.\<close>

definition jitter_wait :: "duration \<Rightarrow> int \<Rightarrow> duration" where
  "jitter_wait backoff r = backoff + r mod (backoff div 2 + 1)"

text \<open>
  The result, with the waits that were begun. \<open>backoff\<close> is an \<open>int64\<close> in the code; it would pass
  \<open>2^63\<close> at the 36th doubling, after waits of more than two centuries, so no wrap-around is modelled.
\<close>

function process_loop :: "http_env \<Rightarrow> int \<Rightarrow> nat \<Rightarrow> duration \<Rightarrow> (goerr + ProcessResult) \<times> duration list" where
  "process_loop env maxRetries attempt backoff =
     (case attempt_result env attempt of
        (Inr res, _) \<Rightarrow> (Inr res, [])
      | (Inl e, retryable) \<Rightarrow>
          (if \<not> retryable \<or> int attempt \<ge> maxRetries then (Inl e, [])
           else let w = jitter_wait backoff (E_jitter env attempt)
                in case E_cancel env attempt of
                     Some c \<Rightarrow> (Inl c, [w])
                   | None \<Rightarrow>
                       (case process_loop env maxRetries (attempt + 1) (2 * backoff) of
                          (r, ws) \<Rightarrow> (r, w # ws))))"
  by pat_completeness auto
termination
  by (relation "measure (\<lambda>(env, m, a, b). nat (m - int a))") auto

declare process_loop.simps [simp del]

definition first_backoff :: duration where "first_backoff = 200000000"

text \<open>\<open>enc\<close>: the error of \<open>json.Marshal\<close>, if any.\<close>

definition Process :: "http_env \<Rightarrow> int \<Rightarrow> goerr option \<Rightarrow> (goerr + ProcessResult) \<times> duration list" where
  "Process env maxRetries enc =
     (case enc of
        Some e \<Rightarrow> (Inl (Wrapped (sentinel_text ErrPermanent @ '': encode request: '' @ err_text e)
                       [Sentinel ErrPermanent, e]), [])
      | None \<Rightarrow> process_loop env (new_retries maxRetries) 1 first_backoff)"

section \<open>Reference: the first attempt that settles it\<close>

definition settles :: "http_env \<Rightarrow> nat \<Rightarrow> bool" where
  "settles env n \<longleftrightarrow> \<not> snd (attempt_result env n) \<or> (\<exists>r. fst (attempt_result env n) = Inr r)"

definition settling :: "http_env \<Rightarrow> nat \<Rightarrow> nat \<Rightarrow> nat" where
  "settling env a m = (case find (settles env) [a..<m] of Some n \<Rightarrow> n | None \<Rightarrow> m)"

lemma settling_step: "a < m \<Longrightarrow> settling env a m = (if settles env a then a else settling env (Suc a) m)"
  by (simp add: settling_def upt_conv_Cons)

lemma settling_range: "a \<le> m \<Longrightarrow> a \<le> settling env a m \<and> settling env a m \<le> m"
  by (auto simp: settling_def find_Some_iff split: option.splits)

definition waits_from :: "http_env \<Rightarrow> nat \<Rightarrow> duration \<Rightarrow> nat \<Rightarrow> duration list" where
  "waits_from env a b n = map (\<lambda>i. jitter_wait (2 ^ i * b) (E_jitter env (a + i))) [0..<n]"

lemma waits_from_Suc: "waits_from env a b (Suc n) = jitter_wait b (E_jitter env a) # waits_from env (Suc a) (2 * b) n"
proof -
  have "[0..<Suc n] = 0 # map Suc [0..<n]" by (simp add: upt_conv_Cons map_Suc_upt del: upt_Suc)
  then show ?thesis by (simp add: waits_from_def comp_def mult.assoc mult.left_commute)
qed

lemma waits_from_0: "waits_from env a b 0 = []"
  by (simp add: waits_from_def)

lemma process_loop_settled:
  "settles env a \<or> m \<le> a \<Longrightarrow> process_loop env (int m) a b = (fst (attempt_result env a), [])"
  by (subst process_loop.simps)
     (auto simp: settles_def split: prod.splits sum.splits)

lemma process_loop_step:
  assumes "\<not> settles env a" and "a < m" and "E_cancel env a = None"
  shows "process_loop env (int m) a b =
    (case process_loop env (int m) (Suc a) (2 * b) of (r, ws) \<Rightarrow> (r, jitter_wait b (E_jitter env a) # ws))"
proof -
  obtain e where "attempt_result env a = (Inl e, True)"
    using assms(1) by (cases "attempt_result env a"; cases "fst (attempt_result env a)") (auto simp: settles_def)
  with assms(2,3) show ?thesis by (subst process_loop.simps) simp
qed

lemma process_loop_reference:
  assumes "\<forall>n. E_cancel env n = None"
  shows "a \<le> m \<Longrightarrow> process_loop env (int m) a b =
    (fst (attempt_result env (settling env a m)), waits_from env a b (settling env a m - a))"
proof (induction "m - a" arbitrary: a b)
  case 0
  then have "a = m" by simp
  then show ?case
    using process_loop_settled [of env a m] by (simp add: settling_def waits_from_0)
next
  case (Suc k)
  then have lt: "a < m" by simp
  show ?case
  proof (cases "settles env a")
    case True
    with process_loop_settled [of env a m] lt show ?thesis by (simp add: settling_step waits_from_0)
  next
    case False
    have ih: "process_loop env (int m) (Suc a) (2 * b) =
        (fst (attempt_result env (settling env (Suc a) m)), waits_from env (Suc a) (2 * b) (settling env (Suc a) m - Suc a))"
      using Suc.hyps(2) lt by (intro Suc.hyps(1)) simp_all
    have s: "settling env a m = settling env (Suc a) m" using settling_step [OF lt] False by simp
    have "settling env a m - a = Suc (settling env (Suc a) m - Suc a)"
      using settling_range [of "Suc a" m env] lt unfolding s by arith
    with ih s process_loop_step [OF False lt] assms show ?thesis by (simp add: waits_from_Suc)
  qed
qed

section \<open>Properties\<close>

lemma doOnce_class:
  "snd (doOnce decode now build (Resp code body)) \<Longrightarrow> build = None \<and> (code < 400 \<or> code = 429 \<or> 500 \<le> code)"
  by (auto simp: doOnce_def split: option.splits if_splits sum.splits)

text \<open>
  C24. The retry loop does what its reference says. As long as the context lives, \<open>Process\<close> returns the
  outcome of the first attempt that settles the call (a decoded answer, or an error that is not
  retryable), or of the last allowed attempt when none does; it makes at most \<open>max 1 maxRetries\<close>
  attempts, and before each retry it waits: the i-th wait lies between \<open>200 ms * 2^i\<close> and one and a
  half times that.
\<close>
theorem process_is_first_settling_attempt:
  assumes "\<forall>n. E_cancel env n = None"
  shows "\<exists>k ws. Process env maxRetries None = (fst (attempt_result env k), ws) \<and>
    1 \<le> k \<and> int k \<le> max 1 maxRetries \<and> (settles env k \<or> int k = max 1 maxRetries) \<and>
    (\<forall>i \<in> {1..<k}. \<not> settles env i) \<and> length ws = k - 1 \<and>
    (\<forall>i < length ws. first_backoff * 2 ^ i \<le> ws ! i \<and> 2 * (ws ! i) \<le> 3 * (first_backoff * 2 ^ i))"
proof -
  obtain M where m: "1 \<le> M" "int M = max 1 maxRetries" "new_retries maxRetries = int M"
    by (rule that [of "nat (new_retries maxRetries)"]) (auto simp: new_retries_def)
  let ?k = "settling env 1 M"
  have eq: "Process env maxRetries None = (fst (attempt_result env ?k), waits_from env 1 first_backoff (?k - 1))"
    using process_loop_reference [OF assms m(1), of first_backoff] by (simp add: Process_def m(3))
  have rg: "1 \<le> ?k" "?k \<le> M" using settling_range [OF m(1)] by auto
  have set: "settles env ?k \<or> ?k = M"
    by (auto simp: settling_def find_Some_iff split: option.splits)
  have "\<forall>i \<in> {1..<?k}. \<not> settles env i"
  proof (cases "find (settles env) [1..<M]")
    case None
    then have "\<forall>x \<in> {1..<M}. \<not> settles env x" by (auto simp: find_None_iff)
    with None show ?thesis by (simp add: settling_def)
  next
    case (Some n)
    then obtain j where "j < length [1..<M]" "n = [1..<M] ! j" "\<forall>i < j. \<not> settles env ([1..<M] ! i)"
      by (auto simp: find_Some_iff)
    then have n: "n = Suc j" "\<forall>i < j. \<not> settles env (Suc i)" by auto
    have "\<forall>i \<in> {1..<n}. \<not> settles env i"
    proof
      fix i
      assume "i \<in> {1..<n}"
      then show "\<not> settles env i" using n by (cases i) auto
    qed
    with Some show ?thesis by (simp add: settling_def)
  qed
  note early = this
  have wait: "first_backoff * 2 ^ i \<le> jitter_wait (2 ^ i * first_backoff) r \<and>
      2 * jitter_wait (2 ^ i * first_backoff) r \<le> 3 * (first_backoff * 2 ^ i)" for i r
  proof -
    let ?b = "2 ^ i * first_backoff"
    have "0 \<le> ?b div 2" by (simp add: first_backoff_def)
    then have "0 < ?b div 2 + 1" by simp
    then have "0 \<le> r mod (?b div 2 + 1)" "r mod (?b div 2 + 1) < ?b div 2 + 1"
      by (rule pos_mod_sign, intro pos_mod_bound)
    then show ?thesis unfolding jitter_wait_def by (simp add: mult.commute)
  qed
  let ?ws = "waits_from env 1 first_backoff (?k - 1)"
  have "length ?ws = ?k - 1"
    and "\<forall>i < length ?ws. first_backoff * 2 ^ i \<le> ?ws ! i \<and> 2 * (?ws ! i) \<le> 3 * (first_backoff * 2 ^ i)"
    using wait by (simp_all add: waits_from_def)
  moreover have "int ?k \<le> max 1 maxRetries" "settles env ?k \<or> int ?k = max 1 maxRetries"
    using rg(2) set unfolding m(2) [symmetric] by auto
  ultimately show ?thesis using eq rg(1) early by blast
qed

definition flaky_env :: http_env where
  "flaky_env = \<lparr>E_decode = (\<lambda>b. Inr (b, None)), E_now = (\<lambda>_. 5), E_build = None,
     E_reply = (\<lambda>n. if n = 1 then Resp 503 ''busy'' else Resp 200 ''done''), E_jitter = (\<lambda>_. 7),
     E_cancel = (\<lambda>_. None)\<rparr>"

theorem process_is_first_settling_attempt_witness:
  "\<exists>k ws. Process flaky_env 3 None = (fst (attempt_result flaky_env k), ws) \<and> length ws = k - 1 \<and>
     Process flaky_env 3 None = (Inr \<lparr>Summary = ''done'', ProcessedAt = 5\<rparr>, [200000007])"
proof -
  have "attempt_result flaky_env 1 = (Inl (Opaque (''processor status '' @ itoa 503 @ '': '' @ take maxErrorBody ''busy'')), True)"
    and "attempt_result flaky_env 2 = (Inr \<lparr>Summary = ''done'', ProcessedAt = 5\<rparr>, False)"
    by (simp_all add: attempt_result_def doOnce_def flaky_env_def)
  moreover have "E_cancel flaky_env 1 = None" "jitter_wait first_backoff (E_jitter flaky_env 1) = 200000007"
    by (simp_all add: flaky_env_def jitter_wait_def first_backoff_def)
  ultimately have "Process flaky_env 3 None = (Inr \<lparr>Summary = ''done'', ProcessedAt = 5\<rparr>, [200000007])"
    unfolding Process_def new_retries_def
    by (simp add: process_loop.simps [of _ _ 1] process_loop.simps [of _ _ 2] numeral_2_eq_2 [symmetric] del: One_nat_def)
  moreover have "\<forall>n. E_cancel flaky_env n = None" by (simp add: flaky_env_def)
  ultimately show ?thesis using process_is_first_settling_attempt [of flaky_env 3] by blast
qed

text \<open>
  A rejected payload is not sent again: a 4xx answer other than 429 makes \<open>Process\<close> return at once,
  with no wait and an error that \<open>errors.Is\<close> takes for \<open>ErrPermanent\<close>, whatever the retry budget.
\<close>
theorem rejection_is_permanent:
  assumes "E_build env = None" and "E_reply env 1 = Resp code body"
    and "400 \<le> code" and "code < 500" and "code \<noteq> 429"
  shows "\<exists>e. Process env maxRetries None = (Inl e, []) \<and> errors_is e ErrPermanent"
proof -
  let ?e = "werr ErrPermanent (''processor rejected job with '' @ itoa code @ '': '' @ take maxErrorBody body)"
  have "attempt_result env 1 = (Inl ?e, False)"
    using assms by (simp add: attempt_result_def doOnce_def)
  then have "Process env maxRetries None = (Inl ?e, [])"
    unfolding Process_def by (subst process_loop.simps) simp
  then show ?thesis by simp
qed

theorem rejection_is_permanent_witness:
  "\<exists>e. Process (flaky_env\<lparr>E_reply := (\<lambda>_. Resp 422 ''no'')\<rparr>) 5 None = (Inl e, []) \<and> errors_is e ErrPermanent"
  by (rule rejection_is_permanent [where code = 422 and body = "''no''"]) (simp_all add: flaky_env_def)

end
