(* ===== verification/MockProcessor.thy ===== *)
theory MockProcessor
  imports Domain GoStrings
begin

text \<open>
  \<open>cmd/mockprocessor/main.go\<close>: the stand-in for the external processor. Its state is the bounded
  memory of the jobs it has answered (a map and the order of insertion); \<open>process\<close> is its handler.
  The JSON decoder, the clock and what the presigned GET returns are parameters. Every access to the
  memory is under the mutex, so \<open>cached\<close> and \<open>remember\<close> are single steps.
\<close>

section \<open>The memory of answered jobs\<close>

record server =
  results :: "string \<rightharpoonup> string"
  order :: "string list"

definition new_server :: server where
  "new_server = \<lparr>results = Map.empty, order = []\<rparr>"

definition maxRememberedJobs :: nat where
  "maxRememberedJobs = 10000"

definition cached :: "server \<Rightarrow> string \<Rightarrow> string option" where
  "cached s jobID = results s jobID"

definition remember :: "string \<Rightarrow> string \<Rightarrow> server \<Rightarrow> server" where
  "remember jobID summary s =
     (if results s jobID \<noteq> None then s
      else let s1 = (if length (order s) \<ge> maxRememberedJobs
                     then s\<lparr>results := (results s)(hd (order s) := None), order := tl (order s)\<rparr>
                     else s)
           in s1\<lparr>order := order s1 @ [jobID], results := (results s1)(jobID \<mapsto> summary)\<rparr>)"

section \<open>The handler\<close>

record processRequest =
  PR_JobID :: string
  PR_Text :: string
  PR_ContentType :: string
  PR_SizeBytes :: int
  PR_DownloadURL :: string

text \<open>
  The presigned GET: an error of building the request or of \<open>Do\<close>, or a status, the bytes the body
  delivers, and the error after them, if any.
\<close>

datatype get_reply = GetErr goerr | GetResp int nat "goerr option"

definition maxDownloadBytes :: nat where
  "maxDownloadBytes = 512 * 2 ^ 20"

text \<open>\<open>io.Copy\<close> from a \<open>LimitReader\<close>: an error past the limit is never seen.\<close>

definition download :: "get_reply \<Rightarrow> goerr + nat" where
  "download g =
     (case g of
        GetErr e \<Rightarrow> Inl e
      | GetResp code n err \<Rightarrow>
          (if code \<ge> 400 then Inl (Opaque (''presigned GET returned '' @ itoa code))
           else if n \<ge> maxDownloadBytes then Inr maxDownloadBytes
           else case err of Some e \<Rightarrow> Inl e | None \<Rightarrow> Inr n))"

definition buildSummary :: "processRequest \<Rightarrow> nat \<Rightarrow> string" where
  "buildSummary req downloaded =
     ''processed'' @
     (if PR_Text req \<noteq> '''' then '' text_len='' @ itoa (int (length (PR_Text req))) else '''') @
     (if PR_ContentType req \<noteq> '''' then '' content_type='' @ PR_ContentType req else '''') @
     (if downloaded > 0 then '' downloaded_bytes='' @ itoa (int downloaded) else '''')"

text \<open>
  An HTTP request: the two fault injection fields, the delay, whether the client goes away during
  the delay, and the body. The answer to a client that is gone is not written.
\<close>

record mock_request =
  Q_fail_header :: string
  Q_fail :: string
  Q_delay_ms :: string
  Q_gone :: bool
  Q_body :: bytes

datatype mock_response =
    NoAnswer
  | MockError int string
  | MockOk string time

definition process ::
  "(bytes \<Rightarrow> processRequest option) \<Rightarrow> (string \<Rightarrow> get_reply) \<Rightarrow> time \<Rightarrow>
   mock_request \<Rightarrow> server \<Rightarrow> mock_response \<times> server" where
  "process decode get now r s =
     (if Q_fail_header r = ''1'' \<or> Q_fail r = ''1'' then (MockError 500 ''forced failure'', s)
      else if (case parse_int (Q_delay_ms r) of Some ms \<Rightarrow> ms > 0 \<and> Q_gone r | None \<Rightarrow> False)
      then (NoAnswer, s)
      else case decode (take (2 ^ 20) (Q_body r)) of
        None \<Rightarrow> (MockError 400 ''malformed json'', s)
      | Some req \<Rightarrow>
          (if PR_JobID req = '''' then (MockError 400 ''job_id is required'', s)
           else case cached s (PR_JobID req) of
             Some summary \<Rightarrow> (MockOk summary now, s)
           | None \<Rightarrow>
               (case (if PR_DownloadURL req = '''' then Inr 0 else download (get (PR_DownloadURL req))) of
                  Inl _ \<Rightarrow> (MockError 502 ''payload download failed'', s)
                | Inr downloaded \<Rightarrow>
                    (let summary = buildSummary req downloaded
                     in (MockOk summary now, remember (PR_JobID req) summary s)))))"

text \<open>
  The server under load: handlers interleave, and what they do to the shared memory is their calls of
  \<open>remember\<close>, in some order. Two requests for one job may both find nothing and both call it.
\<close>

definition remember_all :: "(string \<times> string) list \<Rightarrow> server \<Rightarrow> server" where
  "remember_all ws s = fold (\<lambda>(i, m). remember i m) ws s"

section \<open>A window over the insertions\<close>

text \<open>The memory as a list of pairs, oldest first; and insertion into such a window.\<close>

definition window_of :: "server \<Rightarrow> (string \<times> string) list" where
  "window_of s = map (\<lambda>i. (i, the (results s i))) (order s)"

definition window_insert :: "string \<times> string \<Rightarrow> (string \<times> string) list \<Rightarrow> (string \<times> string) list" where
  "window_insert p w =
     (if fst p \<in> fst ` set w then w
      else drop (length w + 1 - maxRememberedJobs) w @ [p])"

definition memory_ok :: "server \<Rightarrow> bool" where
  "memory_ok s \<longleftrightarrow> distinct (order s) \<and> dom (results s) = set (order s) \<and> length (order s) \<le> maxRememberedJobs"

lemma fst_window_of: "fst ` set (window_of s) = set (order s)" "map fst (window_of s) = order s"
  by (auto simp: window_of_def image_image comp_def)

lemma memory_ok_new: "memory_ok new_server"
  by (simp add: memory_ok_def new_server_def)

lemma maxRememberedJobs_pos: "0 < maxRememberedJobs"
  by (simp add: maxRememberedJobs_def)

text \<open>How many entries make room for a new one: none, or the oldest.\<close>

definition surplus :: "server \<Rightarrow> nat" where
  "surplus s = length (order s) + 1 - maxRememberedJobs"

lemma remember_fresh:
  assumes "memory_ok s" and "results s i = None"
  shows "order (remember i m s) = drop (surplus s) (order s) @ [i]"
    and "results (remember i m s) = (results s |` set (drop (surplus s) (order s)))(i \<mapsto> m)"
proof -
  have d: "dom (results s) = set (order s)" and len: "length (order s) \<le> maxRememberedJobs"
    and dist: "distinct (order s)" using assms(1) by (auto simp: memory_ok_def)
  have "order (remember i m s) = drop (surplus s) (order s) @ [i] \<and>
    results (remember i m s) = (results s |` set (drop (surplus s) (order s)))(i \<mapsto> m)"
  proof (cases "length (order s) < maxRememberedJobs")
    case True
    have "results s |` set (order s) = results s" by (rule ext) (metis d domIff restrict_in restrict_out)
    with True assms(2) show ?thesis by (simp add: remember_def surplus_def)
  next
    case False
    with len maxRememberedJobs_pos obtain x xs where o: "order s = x # xs" "surplus s = 1"
      by (cases "order s") (auto simp: surplus_def)
    have "(results s)(x := None) = results s |` set xs"
      using d dist o(1) by (auto simp: fun_eq_iff restrict_map_def dom_def)
    with False o assms(2) show ?thesis by (simp add: remember_def Let_def)
  qed
  then show "order (remember i m s) = drop (surplus s) (order s) @ [i]"
    and "results (remember i m s) = (results s |` set (drop (surplus s) (order s)))(i \<mapsto> m)" by simp_all
qed

lemma remember_known: "results s i \<noteq> None \<Longrightarrow> remember i m s = s"
  by (simp add: remember_def)

lemma memory_ok_remember:
  assumes "memory_ok s"
  shows "memory_ok (remember i m s)"
proof (cases "results s i = None")
  case False
  with assms show ?thesis by (simp add: remember_known)
next
  case True
  have i: "i \<notin> set (order s)" and d: "distinct (order s)" "dom (results s) = set (order s)"
    using assms True by (auto simp: memory_ok_def)
  have "set (drop (surplus s) (order s)) \<subseteq> set (order s)" by (rule set_drop_subset)
  with i d show ?thesis
    using maxRememberedJobs_pos
    by (auto simp: memory_ok_def remember_fresh [OF assms True] surplus_def split: if_splits)
qed

lemma memory_ok_remember_all: "memory_ok s \<Longrightarrow> memory_ok (remember_all ws s)"
  by (induction ws arbitrary: s) (auto simp: remember_all_def memory_ok_remember)

lemma window_remember:
  assumes "memory_ok s"
  shows "window_of (remember i m s) = window_insert (i, m) (window_of s)"
proof (cases "results s i = None")
  case False
  then have "i \<in> set (order s)" using assms by (auto simp: memory_ok_def)
  with False show ?thesis by (simp add: remember_known window_insert_def fst_window_of)
next
  case True
  have i: "i \<notin> set (order s)" using assms True by (auto simp: memory_ok_def)
  then have "map (\<lambda>j. (j, the (results (remember i m s) j))) (drop (surplus s) (order s))
      = map (\<lambda>j. (j, the (results s j))) (drop (surplus s) (order s))"
    by (auto simp: remember_fresh [OF assms True] dest: in_set_dropD)
  then show ?thesis
    using i remember_fresh [OF assms True, of m]
    by (simp add: window_of_def window_insert_def drop_map image_image surplus_def)
qed

text \<open>An entry survives as long as fewer than \<open>maxRememberedJobs\<close> insertions follow it.\<close>

definition held :: "string \<Rightarrow> string \<Rightarrow> nat \<Rightarrow> server \<Rightarrow> bool" where
  "held i m k s \<longleftrightarrow> memory_ok s \<and> results s i = Some m \<and>
     (\<exists>xs ys. order s = xs @ i # ys \<and> length ys \<le> k)"

lemma held_first: "memory_ok s \<Longrightarrow> results s i = None \<Longrightarrow> held i m 0 (remember i m s)"
  by (auto simp: held_def memory_ok_remember remember_fresh)

lemma held_weaken: "held i m k s \<Longrightarrow> k \<le> k' \<Longrightarrow> held i m k' s"
  unfolding held_def by (metis le_trans)

lemma held_remember:
  assumes h: "held i m k s" and k: "Suc k < maxRememberedJobs"
  shows "held i m (Suc k) (remember j n s)"
proof (cases "results s j = None")
  case False
  with h show ?thesis by (simp add: remember_known held_weaken)
next
  case True
  obtain xs ys where o: "order s = xs @ i # ys" "length ys \<le> k" and ok: "memory_ok s"
    and r: "results s i = Some m" using h by (auto simp: held_def)
  have "surplus s \<le> length xs" using o k ok by (simp add: memory_ok_def surplus_def)
  then have d: "drop (surplus s) (order s) = drop (surplus s) xs @ i # ys" using o by simp
  have "i \<noteq> j" using r True by auto
  then have "results (remember j n s) i = Some m" using r by (simp add: remember_fresh [OF ok True] d)
  moreover have "order (remember j n s) = drop (surplus s) xs @ i # (ys @ [j])" "length (ys @ [j]) \<le> Suc k"
    using o(2) by (simp_all add: remember_fresh [OF ok True] d)
  ultimately show ?thesis using memory_ok_remember [OF ok, of j n] unfolding held_def by blast
qed

lemma held_remember_all: "held i m k s \<Longrightarrow> k + length ws < maxRememberedJobs \<Longrightarrow>
    results (remember_all ws s) i = Some m"
proof (induction ws arbitrary: k s)
  case Nil
  then show ?case by (simp add: remember_all_def held_def)
next
  case (Cons p ws)
  obtain j n where p: "p = (j, n)" by (cases p)
  have "held i m (Suc k) (remember j n s)" using Cons.prems by (intro held_remember) auto
  from Cons.IH [OF this] Cons.prems(2) show ?case by (simp add: remember_all_def p)
qed

section \<open>Properties\<close>

text \<open>
  C36. The memory of the processor is a bounded first-in first-out window. Whatever the requests and
  their interleaving, the map and the order list it keeps represent the window that inserts each new
  job id at the end and drops the oldest once there are \<open>maxRememberedJobs\<close>: a lookup in the map is a
  lookup in the window, no id occurs twice, and the map holds no entry the order list has forgotten.
\<close>
theorem mock_memory_is_fifo_window:
  "window_of (remember_all ws new_server) = fold window_insert ws [] \<and>
   cached (remember_all ws new_server) = map_of (fold window_insert ws []) \<and>
   distinct (map fst (fold window_insert ws [])) \<and> length (fold window_insert ws []) \<le> maxRememberedJobs"
proof -
  have fold_w: "memory_ok s \<Longrightarrow> window_of (remember_all ws s) = fold window_insert ws (window_of s)" for s
    by (induction ws arbitrary: s) (auto simp: remember_all_def memory_ok_remember window_remember)
  let ?s = "remember_all ws new_server"
  have w: "window_of ?s = fold window_insert ws []"
    using fold_w [OF memory_ok_new] by (simp add: window_of_def new_server_def)
  have ok: "memory_ok ?s" by (intro memory_ok_remember_all memory_ok_new)
  have "cached ?s i = map_of (window_of ?s) i" for i
  proof (cases "i \<in> set (order ?s)")
    case True
    then have "(i, the (results ?s i)) \<in> set (window_of ?s)" by (auto simp: window_of_def)
    moreover have "distinct (map fst (window_of ?s))" using ok by (simp add: fst_window_of memory_ok_def)
    ultimately have "map_of (window_of ?s) i = Some (the (results ?s i))" by (rule map_of_is_SomeI [rotated])
    moreover have "results ?s i \<noteq> None" using True ok by (auto simp: memory_ok_def)
    ultimately show ?thesis by (auto simp: cached_def)
  next
    case False
    then have "map_of (window_of ?s) i = None" by (simp add: map_of_eq_None_iff fst_window_of)
    with False ok show ?thesis by (auto simp: cached_def memory_ok_def)
  qed
  moreover have "distinct (map fst (window_of ?s))" "length (window_of ?s) \<le> maxRememberedJobs"
    using ok by (simp_all add: fst_window_of memory_ok_def) (simp add: window_of_def)
  ultimately show ?thesis using w by auto
qed

text \<open>
  The processor is idempotent within its window. After the first answered request for a job, any
  later request for that job that is not made to fail and whose client stays gets the same summary,
  without a download and without a change of the memory, as long as the calls of \<open>remember\<close> in between
  are fewer than \<open>maxRememberedJobs\<close>, whatever jobs they are for.
\<close>
theorem mock_replays_first_answer:
  assumes "memory_ok s" and "cached s (PR_JobID req) = None"
    and "decode (take (2 ^ 20) (Q_body r)) = Some req"
    and "process decode get now r s = (MockOk summary at, s1)"
    and "length ws < maxRememberedJobs"
    and "decode (take (2 ^ 20) (Q_body r')) = Some req'" and "PR_JobID req' = PR_JobID req"
    and "Q_fail_header r' \<noteq> ''1''" and "Q_fail r' \<noteq> ''1''" and "\<not> Q_gone r'"
  shows "process decode get' now' r' (remember_all ws s1) = (MockOk summary now', remember_all ws s1)"
proof -
  have s1: "s1 = remember (PR_JobID req) summary s" and ne: "PR_JobID req \<noteq> ''''"
    using assms(2-4) by (auto simp: process_def Let_def split: if_splits sum.splits option.splits)
  have "held (PR_JobID req) summary 0 s1"
    unfolding s1 using assms(1,2) by (intro held_first) (simp_all add: cached_def)
  then have "cached (remember_all ws s1) (PR_JobID req) = Some summary"
    using held_remember_all assms(5) by (fastforce simp: cached_def)
  then show ?thesis using assms(6-10) ne by (simp add: process_def split: option.split)
qed

definition text_request :: mock_request where
  "text_request = \<lparr>Q_fail_header = '''', Q_fail = '''', Q_delay_ms = '''', Q_gone = False, Q_body = ''job-1''\<rparr>"

definition text_decode :: "bytes \<Rightarrow> processRequest option" where
  "text_decode b = Some \<lparr>PR_JobID = b, PR_Text = ''hello'', PR_ContentType = '''', PR_SizeBytes = 0, PR_DownloadURL = ''''\<rparr>"

theorem mock_replays_first_answer_witness:
  "process text_decode (\<lambda>_. GetErr (Opaque ''down'')) 9 text_request
     (remember_all [(''job-2'', ''x'')] (snd (process text_decode (\<lambda>_. GetErr (Opaque ''down'')) 5 text_request new_server)))
   = (MockOk ''processed text_len=5'' 9,
      remember_all [(''job-2'', ''x'')] (snd (process text_decode (\<lambda>_. GetErr (Opaque ''down'')) 5 text_request new_server)))"
proof -
  let ?req = "\<lparr>PR_JobID = ''job-1'', PR_Text = ''hello'', PR_ContentType = '''', PR_SizeBytes = 0, PR_DownloadURL = ''''\<rparr>"
  have d: "text_decode (take (2 ^ 20) (Q_body text_request)) = Some ?req"
    by (simp add: text_decode_def text_request_def)
  have i: "itoa 5 = ''5''" by code_simp
  have "process text_decode (\<lambda>_. GetErr (Opaque ''down'')) 5 text_request new_server =
      (MockOk ''processed text_len=5'' 5,
       snd (process text_decode (\<lambda>_. GetErr (Opaque ''down'')) 5 text_request new_server))"
    by (simp add: process_def text_decode_def text_request_def cached_def new_server_def buildSummary_def
        Let_def i parse_int_def)
  from mock_replays_first_answer [OF memory_ok_new _ d this _ d, of "[(''job-2'', ''x'')]"]
  show ?thesis by (simp add: cached_def new_server_def maxRememberedJobs_def text_request_def)
qed

end
