(* ===== verification/Worker.thy ===== *)
theory Worker
  imports JobRepoSpec Config Handlers
begin

text \<open>
  \<open>internal/worker/worker.go\<close>, goroutine by goroutine: what the poller claims and queues, what one
  worker does with a job, the heartbeat, the reaper's call, and the release at shutdown. The repository
  is the model of \<open>JobRepo\<close>; the object store's \<open>PresignGet\<close> and the processor are arguments, the
  interfaces \<open>Worker\<close> is given. The interleaving of the goroutines is in theory WorkerPool.

  Spans, metrics and logs are left out. An error of \<open>ReapExpired\<close>, \<open>ExtendLease\<close> or \<open>Retry\<close> that is only
  logged is a result the caller drops.
\<close>

section \<open>The trace of the request\<close>

text \<open>\<open>None\<close>: the context is returned as it is. The carrier goes to the propagator's \<open>Extract\<close>.\<close>

definition restoreTrace :: "string \<Rightarrow> (string \<rightharpoonup> string) option" where
  "restoreTrace stored =
     (if stored = '''' then None
      else Some (foldl (\<lambda>carrier pair. case cut_at (CHR ''='') pair of
                                         Some (k, v) \<Rightarrow> carrier(k \<mapsto> v)
                                       | None \<Rightarrow> carrier)
                   Map.empty (split_on (CHR '';'') stored)))"

section \<open>One job\<close>

definition process_input :: "job \<Rightarrow> string \<Rightarrow> ProcessInput" where
  "process_input job url =
     \<lparr>PI_JobID = ID job, PI_Text = Text job, PI_ContentType = ContentType job,
      PI_SizeBytes = SizeBytes job, PI_DownloadURL = url, PI_TraceContext = TraceContext job\<rparr>"

definition runJob ::
  "config \<Rightarrow> (string \<Rightarrow> duration \<Rightarrow> goerr + string) \<Rightarrow> (ProcessInput \<Rightarrow> goerr + ProcessResult) \<Rightarrow>
   job \<Rightarrow> goerr + ProcessResult" where
  "runJob cfg presign proc job =
     (if ObjectKey job \<noteq> ''''
      then case presign (ObjectKey job) (S3PresignTTL cfg) of
             Inl e \<Rightarrow> Inl (wrap ''presign object'' e)
           | Inr url \<Rightarrow> proc (process_input job url)
      else proc (process_input job ''''))"

definition recordFailure :: "config \<Rightarrow> job \<Rightarrow> goerr \<Rightarrow> pg \<Rightarrow> goerr \<times> pg" where
  "recordFailure cfg job cause p =
     (if errors_is cause ErrPermanent
      then case Fail (ID job) (err_text cause) p of
             (Some e, q) \<Rightarrow> (wrap2 ''mark failed'' cause e, q)
           | (None, q) \<Rightarrow> (cause, q)
      else case Retry (ID job) (err_text cause) (MaxAttempts cfg) (RetryBackoffBase cfg) (RetryBackoffMax cfg) p of
             (Inl e, q) \<Rightarrow> (wrap2 ''reschedule'' cause e, q)
           | (Inr rescheduled, q) \<Rightarrow> (cause, q))"

text \<open>
  The context for the final statement is made before \<open>runJob\<close>, with 15 seconds: \<open>took\<close> is how long
  \<open>runJob\<close> ran, and once the deadline has passed the driver sends nothing.
\<close>

definition final_timeout :: duration where "final_timeout = 15000000000"

definition final_pg :: "duration \<Rightarrow> pg \<Rightarrow> pg" where
  "final_pg took p =
     (if took \<ge> final_timeout then p\<lparr>faults := NotSent (Sentinel DeadlineExceeded) # faults p\<rparr> else p)"

text \<open>
  \<open>res\<close> is what \<open>runJob\<close> returned; \<open>p\<close> the server when it did, after whatever other statements ran
  meanwhile.
\<close>

definition process :: "config \<Rightarrow> job \<Rightarrow> goerr + ProcessResult \<Rightarrow> duration \<Rightarrow> pg \<Rightarrow> goerr option \<times> pg" where
  "process cfg job res took p =
     (case res of
        Inl e \<Rightarrow> (case recordFailure cfg job e (final_pg took p) of (err, q) \<Rightarrow> (Some err, q))
      | Inr r \<Rightarrow> (case Complete (ID job) (Summary r) (final_pg took p) of
                   (Some e, q) \<Rightarrow> (Some (wrap ''complete job'' e), q)
                 | (None, q) \<Rightarrow> (None, q)))"

section \<open>The poller\<close>

text \<open>The room the channel has, cut to the batch size; 0 or less: nothing is claimed.\<close>

definition claim_size :: "config \<Rightarrow> nat \<Rightarrow> int" where
  "claim_size cfg queued =
     (let free = WorkerConcurrency cfg - int queued
      in if free \<le> 0 then free else if free > WorkerClaimBatch cfg then WorkerClaimBatch cfg else free)"

text \<open>
  \<open>pollOnce\<close> with the workers standing still: \<open>halted k\<close> is the outcome of the k-th check of the
  contexts, \<open>sent k\<close> the number of jobs sent in round \<open>k\<close> before the context ended (\<open>None\<close>: all).
  \<open>locked\<close> are the rows other transactions hold. The channel and the server are the state.
\<close>

function pollOnce ::
  "config \<Rightarrow> (nat \<Rightarrow> bool) \<Rightarrow> (nat \<Rightarrow> nat option) \<Rightarrow> (nat \<Rightarrow> string \<Rightarrow> bool) \<Rightarrow> nat \<Rightarrow>
   job list \<Rightarrow> pg \<Rightarrow> job list \<times> pg" where
  "pollOnce cfg halted sent locked k queue p =
     (if halted k then (queue, p)
      else let n = claim_size cfg (length queue)
           in if n \<le> 0 then (queue, p)
              else case ClaimBatch (locked k) (WorkerID cfg) (WorkerLease cfg) n p of
                     (Inl e, q) \<Rightarrow> (queue, q)
                   | (Inr jobs, q) \<Rightarrow>
                       (if jobs = [] then (queue, q)
                        else case sent k of
                               Some m \<Rightarrow> (queue @ take m jobs, q)
                             | None \<Rightarrow> pollOnce cfg halted sent locked (k + 1) (queue @ jobs) q))"
  by pat_completeness auto
termination
  by (relation "measure (\<lambda>(cfg, _, _, _, _, queue, _). nat (WorkerConcurrency cfg - int (length queue)))")
     (auto simp: claim_size_def Let_def neq_Nil_conv split: if_splits)

declare pollOnce.simps [simp del]

section \<open>Heartbeat and release\<close>

definition heartbeat_interval :: "config \<Rightarrow> duration" where
  "heartbeat_interval cfg = max (WorkerLease cfg div 2) 100000000"

definition heartbeat :: "config \<Rightarrow> string \<Rightarrow> pg \<Rightarrow> pg" where
  "heartbeat cfg jobID p = snd (ExtendLease jobID (WorkerLease cfg) p)"

definition release_text :: string where "release_text = ''worker shutting down''"

fun releaseQueued :: "config \<Rightarrow> job list \<Rightarrow> pg \<Rightarrow> pg" where
  "releaseQueued cfg [] p = p"
| "releaseQueued cfg (j # queue) p =
     releaseQueued cfg queue (snd (Retry (ID j) release_text (MaxAttempts cfg) 0 0 p))"

section \<open>Updates in a row\<close>

lemma update_where_twice:
  assumes "\<And>x. x \<in> set xs \<Longrightarrow> p x \<Longrightarrow> \<not> q (f x)"
  shows "update_where q f (update_where p f xs) = update_where (\<lambda>x. p x \<or> q x) f xs"
  using assms by (auto simp: update_where_def)

lemma update_where_cong: "(\<And>x. x \<in> set xs \<Longrightarrow> p x = q x \<and> (p x \<longrightarrow> f x = g x)) \<Longrightarrow> update_where p f xs = update_where q g xs"
  by (auto simp: update_where_def)

text \<open>A server with no fault left in its script.\<close>

lemma idle_server:
  assumes "faults p = []"
  shows "next_fault p = Reply" and "pop_fault p = p"
  using assms by (cases p, simp add: next_fault_def pop_fault_def)+

section \<open>Every step on one job is a statement of the life cycle\<close>

lemma faults_final [simp]: "rows (final_pg took p) = rows p" "db_now (final_pg took p) = db_now p"
  by (simp_all add: final_pg_def)

lemma final_pg_late: "final_timeout \<le> took \<Longrightarrow> next_fault (final_pg took p) = NotSent (Sentinel DeadlineExceeded)"
  by (simp add: final_pg_def next_fault_def)

lemma final_pg_early: "took < final_timeout \<Longrightarrow> final_pg took p = p"
  by (simp add: final_pg_def)

lemma exec_one_NotSent:
  "next_fault p = NotSent e \<Longrightarrow> exec_one pre c f p = (Some (wrap pre e), pop_fault p)"
  by (simp add: exec_one_def round_trip_def Let_def split_beta)

lemma round_trip_NotSent:
  "next_fault p = NotSent e \<Longrightarrow> round_trip pre post stmt p = (Inl (wrap pre e), pop_fault p)"
  by (simp add: round_trip_def Let_def split_beta)

lemma exec_one_rows:
  "rows (snd (exec_one pre c f p)) = rows p \<or> rows (snd (exec_one pre c f p)) = update_where c f (rows p)"
proof -
  have "snd (exec_one pre c f p) = snd (round_trip pre pre (update_one c f) p)"
    by (simp add: exec_one_def split: prod.splits sum.splits)
  then show ?thesis using round_trip_rows [of pre pre "update_one c f" p] by (simp add: update_one_def)
qed

text \<open>What the rows can look like after \<open>process\<close>, whatever the server did.\<close>

definition settled_row :: "config \<Rightarrow> goerr + ProcessResult \<Rightarrow> time \<Rightarrow> job \<Rightarrow> job" where
  "settled_row cfg res now =
     (case res of
        Inr r \<Rightarrow> complete_row (Summary r) now
      | Inl e \<Rightarrow> (if errors_is e ErrPermanent then fail_row (err_text e) now
                 else retry_row (err_text e) (MaxAttempts cfg) (RetryBackoffBase cfg) (RetryBackoffMax cfg) now))"

lemma settled_row_ID [simp]: "ID (settled_row cfg res now j) = ID j"
  by (simp add: settled_row_def split: sum.split)

lemma process_rows:
  "rows (snd (process cfg job res took p)) = rows p \<or>
   rows (snd (process cfg job res took p)) = update_where (owned (ID job)) (settled_row cfg res (db_now p)) (rows p)"
proof (cases res)
  case (Inr r)
  have "snd (process cfg job res took p) = snd (Complete (ID job) (Summary r) (final_pg took p))"
    by (simp add: process_def Inr split: prod.splits option.splits)
  then show ?thesis
    using exec_one_rows [of "''complete job''" "owned (ID job)" "complete_row (Summary r) (db_now p)" "final_pg took p"]
    by (simp add: Complete_def settled_row_def Inr)
next
  case (Inl e)
  show ?thesis
  proof (cases "errors_is e ErrPermanent")
    case True
    then have "snd (process cfg job res took p) = snd (Fail (ID job) (err_text e) (final_pg took p))"
      by (simp add: process_def recordFailure_def Inl split: prod.splits option.splits)
    then show ?thesis
      using exec_one_rows [of "''fail job''" "owned (ID job)" "fail_row (err_text e) (db_now p)" "final_pg took p"] True
      by (simp add: Fail_def settled_row_def Inl)
  next
    case False
    then have "snd (process cfg job res took p) =
        snd (Retry (ID job) (err_text e) (MaxAttempts cfg) (RetryBackoffBase cfg) (RetryBackoffMax cfg) (final_pg took p))"
      by (simp add: process_def recordFailure_def Inl split: prod.splits sum.splits)
    then show ?thesis
      using round_trip_rows [of "''retry job''" "''retry job''"
          "sql_retry (ID job) (err_text e) (MaxAttempts cfg) (RetryBackoffBase cfg) (RetryBackoffMax cfg) (db_now p)"
          "final_pg took p"] False
      by (simp add: Retry_def settled_row_def Inl sql_retry_def Let_def)
  qed
qed

lemma process_now:
  "db_now (snd (process cfg job res took p)) = db_now p" "app_now (snd (process cfg job res took p)) = app_now p"
  by (simp_all add: process_def recordFailure_def Complete_def Fail_def Retry_def exec_one_def round_trip_def
      Let_def split_beta final_pg_def split: sum.splits option.splits fault.splits)

text \<open>A prompt outcome on a server that answers.\<close>

lemma process_prompt:
  assumes "row_of (rows p) (ID job) = Some r" and "Status r = StatusProcessing"
    and "distinct (map ID (rows p))" and "next_fault p = Reply" and "took < final_timeout"
  shows "process cfg job res took p =
    (case res of Inl e \<Rightarrow> Some e | Inr _ \<Rightarrow> None,
     (pop_fault p)\<lparr>rows := update_where (owned (ID job)) (settled_row cfg res (db_now p)) (rows p)\<rparr>)"
  using assms affected_owned_Some [OF assms(1,2)] find_owned [OF assms(3), of "ID job"]
  by (auto simp: process_def recordFailure_def final_pg_early Complete_def Fail_def Retry_def exec_one_Reply
      round_trip_Reply sql_retry_def Let_def settled_row_def split: sum.splits)

lemma process_late:
  assumes "final_timeout \<le> took"
  shows "rows (snd (process cfg job res took p)) = rows p \<and> fst (process cfg job res took p) \<noteq> None"
  using final_pg_late [OF assms, of p]
  by (auto simp: process_def recordFailure_def Complete_def Fail_def Retry_def exec_one_NotSent
      round_trip_NotSent split: sum.splits)

end
