(* ===== verification/WorkerSpec.thy ===== *)
theory WorkerSpec
  imports Worker
begin

text \<open>
  What the worker's goroutines achieve, one at a time: the outcome of a job, the trace that survives
  the queue, the lease kept by the heartbeat, the release at shutdown, and progress of the whole queue.
\<close>

section \<open>The trace\<close>

lemma split_on_pieces: "s \<in> set (split_on d t) \<Longrightarrow> d \<notin> set s"
  by (induction d t arbitrary: s rule: split_on.induct) (auto split: list.splits if_splits)

lemma cut_at_parts: "cut_at d s = Some (k, v) \<Longrightarrow> s = k @ d # v"
  by (induction d s arbitrary: k rule: cut_at.induct) (auto split: if_splits option.splits prod.splits)

lemma restored_value:
  assumes "restoreTrace stored = Some m" and "m k = Some v"
  shows "CHR '';'' \<notin> set v"
proof -
  let ?add = "\<lambda>carrier pair. case cut_at (CHR ''='') pair of Some (k, v) \<Rightarrow> carrier(k \<mapsto> v) | None \<Rightarrow> carrier"
  have "\<forall>s \<in> set ps. CHR '';'' \<notin> set s \<Longrightarrow> \<forall>k v. m0 k = Some v \<longrightarrow> CHR '';'' \<notin> set v \<Longrightarrow>
      foldl ?add m0 ps k = Some v \<Longrightarrow> CHR '';'' \<notin> set v" for ps m0
  proof (induction ps arbitrary: m0)
    case (Cons p ps)
    have "\<forall>k v. ?add m0 p k = Some v \<longrightarrow> CHR '';'' \<notin> set v"
      using Cons.prems(1,2) by (auto dest!: cut_at_parts split: option.splits if_splits)
    with Cons.IH [of "?add m0 p"] Cons.prems show ?case by simp
  qed auto
  from this [of "split_on (CHR '';'') stored" Map.empty] assms split_on_pieces show ?thesis
    by (auto simp: restoreTrace_def split: if_splits)
qed

text \<open>What the propagator injected, as a carrier; \<open>None\<close> when there was nothing.\<close>

definition injected :: "(string \<Rightarrow> string) \<Rightarrow> (string \<rightharpoonup> string) option" where
  "injected c =
     (if c ''traceparent'' = '''' \<and> c ''tracestate'' = '''' then None
      else Some (\<lambda>k. if k \<in> {''traceparent'', ''tracestate''} \<and> c k \<noteq> '''' then Some (c k) else None))"

text \<open>
  C34. The trace context survives the queue: storing the propagator's two headers in a job and restoring
  them in the worker gives the same carrier, exactly when no value contains a semicolon. (A W3C
  \<open>tracestate\<close> may contain one; it then comes back cut.)
\<close>
theorem trace_round_trip:
  "restoreTrace (traceContextHeader c) = injected c \<longleftrightarrow>
   CHR '';'' \<notin> set (c ''traceparent'') \<and> CHR '';'' \<notin> set (c ''tracestate'')"
proof
  assume eq: "restoreTrace (traceContextHeader c) = injected c"
  have "CHR '';'' \<notin> set (c k)" if "k \<in> {''traceparent'', ''tracestate''}" for k
  proof (cases "c k = ''''")
    case False
    let ?m = "\<lambda>k. if k \<in> {''traceparent'', ''tracestate''} \<and> c k \<noteq> '''' then Some (c k) else None"
    have "injected c = Some ?m" using that False by (auto simp: injected_def)
    moreover have "?m k = Some (c k)" using that False by simp
    ultimately show ?thesis using restored_value [of "traceContextHeader c" ?m k "c k"] eq by simp
  qed simp
  then show "CHR '';'' \<notin> set (c ''traceparent'') \<and> CHR '';'' \<notin> set (c ''tracestate'')" by simp
next
  let ?tp = "''traceparent''" and ?ts = "''tracestate''"
  assume "CHR '';'' \<notin> set (c ?tp) \<and> CHR '';'' \<notin> set (c ?ts)"
  then have no: "CHR '';'' \<notin> set (?tp @ ''='' @ c ?tp)" "CHR '';'' \<notin> set (?ts @ ''='' @ c ?ts)" by auto
  have cut: "cut_at (CHR ''='') (?tp @ ''='' @ v) = Some (?tp, v)"
    "cut_at (CHR ''='') (?ts @ ''='' @ v) = Some (?ts, v)" for v
    using cut_at_append [of "CHR ''=''" ?tp v] cut_at_append [of "CHR ''=''" ?ts v] by simp_all
  have split: "split_on (CHR '';'') (?tp @ ''='' @ c ?tp) = [?tp @ ''='' @ c ?tp]"
    "split_on (CHR '';'') (?ts @ ''='' @ c ?ts) = [?ts @ ''='' @ c ?ts]"
    "split_on (CHR '';'') ((?tp @ ''='' @ c ?tp) @ CHR '';'' # ?ts @ ''='' @ c ?ts)
      = [?tp @ ''='' @ c ?tp, ?ts @ ''='' @ c ?ts]"
    by (rule split_on_no_sep [OF no(1)], rule split_on_no_sep [OF no(2)],
        simp only: split_on_append [OF no(1)] split_on_no_sep [OF no(2)])
  consider "c ?tp = ''''" "c ?ts = ''''" | "c ?tp \<noteq> ''''" "c ?ts = ''''"
    | "c ?tp = ''''" "c ?ts \<noteq> ''''" | "c ?tp \<noteq> ''''" "c ?ts \<noteq> ''''" by blast
  then show "restoreTrace (traceContextHeader c) = injected c"
  proof cases
    case 1
    then show ?thesis by (simp add: restoreTrace_def traceContextHeader_def injected_def)
  next
    case 2
    then show ?thesis using split(1) cut(1) [of "c ?tp"]
      by (auto simp: restoreTrace_def traceContextHeader_def injected_def fun_eq_iff)
  next
    case 3
    then show ?thesis using split(2) cut(2) [of "c ?ts"]
      by (auto simp: restoreTrace_def traceContextHeader_def injected_def fun_eq_iff)
  next
    case 4
    then show ?thesis using split(3) cut [of "c ?tp"] cut [of "c ?ts"]
      by (auto simp: restoreTrace_def traceContextHeader_def injected_def fun_eq_iff)
  qed
qed

section \<open>The outcome of one job\<close>

text \<open>
  C9. What a worker does to the queue. When the server answers and the processing took less than the 15
  seconds of the final context, the outcome is recorded in the job's row and nowhere else: completed
  with the summary; failed on a permanent error; otherwise pending again after the backoff while
  attempts remain, and failed when they are used up. When it took longer, \<open>process\<close> returns an error and
  no row changes, so the job stays \<open>processing\<close> whatever the processor said.
\<close>
theorem process_outcome:
  assumes "reachable (rows p)" and "row_of (rows p) (ID job) = Some r" and "Status r = StatusProcessing"
    and "next_fault p = Reply"
  shows "case process cfg job res took p of (err, q) \<Rightarrow>
    (if took < final_timeout
     then \<exists>k. row_of (rows q) (ID job) = Some k \<and> same_payload r k \<and> Attempts k = Attempts r \<and>
       (\<forall>i. i \<noteq> ID job \<longrightarrow> row_of (rows q) i = row_of (rows p) i) \<and>
       (case res of
          Inr out \<Rightarrow> err = None \<and> Status k = StatusCompleted \<and> ResultSummary k = Summary out \<and> ErrorMessage k = ''''
        | Inl e \<Rightarrow> err = Some e \<and> ErrorMessage k = err_text e \<and>
            (if errors_is e ErrPermanent \<or> MaxAttempts cfg \<le> Attempts r then Status k = StatusFailed
             else Status k = StatusPending \<and>
               (\<forall>t. due t k \<longleftrightarrow> db_now p + backoff (RetryBackoffBase cfg) (RetryBackoffMax cfg) (Attempts r) \<le> t)))
     else err \<noteq> None \<and> rows q = rows p)"
proof (cases "took < final_timeout")
  case False
  then show ?thesis using process_late [of took cfg job res p] by (auto split: prod.splits)
next
  case True
  let ?f = "settled_row cfg res (db_now p)"
  have d: "distinct (map ID (rows p))" using reachable_table_ok [OF assms(1)] by (rule table_ok_distinct)
  have new: "row_of (update_where (owned (ID job)) ?f (rows p)) (ID job) = Some (?f r)"
    and others: "\<forall>i. i \<noteq> ID job \<longrightarrow> row_of (update_where (owned (ID job)) ?f (rows p)) i = row_of (rows p) i"
    using row_of_owned_update [OF assms(2,3), of ?f] by auto
  have "row_step r (?f r)"
    using assms(3) by (auto simp: settled_row_def split: sum.split intro: row_step.intros)
  then have "same_payload r (?f r)" by (rule row_step_payload)
  with new others True show ?thesis
    unfolding process_prompt [OF assms(2,3) d assms(4) True]
    by (auto simp: settled_row_def row_defs due_def Let_def split: sum.split)
qed

definition worker_cfg :: config where
  "worker_cfg = derive_config (env_config id None (\<lambda>k. if k = ''DATABASE_URL'' then ''db'' else ''''))"

theorem process_outcome_witness:
  "fst (process worker_cfg (sample_job ''a'' 1) (Inr \<lparr>Summary = ''ok'', ProcessedAt = 5\<rparr>) 1000 (sample_pg running_table)) = None \<and>
   fst (process worker_cfg (sample_job ''a'' 1) (Inr \<lparr>Summary = ''ok'', ProcessedAt = 5\<rparr>) 20000000000 (sample_pg running_table)) \<noteq> None"
proof -
  have i: "ID (sample_job ''a'' 1) = ''a''" by (simp add: sample_job_def zero_job_def)
  note * = process_outcome [of "sample_pg running_table" "sample_job ''a'' 1", unfolded i sample_pg_sel,
      OF running_reachable running_row(1,2), simplified]
  show ?thesis
    using * [where cfg = worker_cfg and res = "Inr \<lparr>Summary = ''ok'', ProcessedAt = 5\<rparr>" and took = 1000]
      * [where cfg = worker_cfg and res = "Inr \<lparr>Summary = ''ok'', ProcessedAt = 5\<rparr>" and took = 20000000000]
    by (auto simp: final_timeout_def split: prod.splits)
qed

section \<open>A job that is slower than the final context\<close>

definition at :: "time \<Rightarrow> pg \<Rightarrow> pg" where
  "at t p = p\<lparr>db_now := t, app_now := t\<rparr>"

lemma at_sel [simp]: "rows (at t p) = rows p" "db_now (at t p) = t" "app_now (at t p) = t" "faults (at t p) = faults p"
  by (simp_all add: at_def)

text \<open>
  One round of such a job, alone in the queue: claimed at time \<open>t\<close>, its lease renewed until the
  processor returns \<open>took\<close> later, the outcome recorded if it can be, and the reaper once the lease of the
  last heartbeat has run out.
\<close>

definition slow_round :: "config \<Rightarrow> goerr + ProcessResult \<Rightarrow> duration \<Rightarrow> time \<Rightarrow> pg \<Rightarrow> pg" where
  "slow_round cfg res took t p =
     (case ClaimBatch (\<lambda>_. False) (WorkerID cfg) (WorkerLease cfg) 1 (at t p) of
        (Inr (j # _), q) \<Rightarrow>
          (let q1 = heartbeat cfg (ID j) (at (t + took) q);
               q2 = snd (process cfg j res took q1)
           in snd (ReapExpired (at (t + took + WorkerLease cfg + 1) q2)))
      | (_, q) \<Rightarrow> q)"

definition idle_job :: "int \<Rightarrow> pg \<Rightarrow> bool" where
  "idle_job n p \<longleftrightarrow> faults p = [] \<and> (\<exists>j. rows p = [j] \<and> Status j = StatusPending \<and> NextAttemptAt j = None \<and>
     Attempts j = n \<and> ResultSummary j = '''')"

lemma slow_round_step:
  assumes "idle_job n p" and "final_timeout \<le> took"
  shows "idle_job (n + 1) (slow_round cfg res took t p)"
proof -
  obtain j where j: "faults p = []" "rows p = [j]" "Status j = StatusPending" "NextAttemptAt j = None"
    "Attempts j = n" "ResultSummary j = ''''" using assms(1) by (auto simp: idle_job_def)
  let ?k = "claim_row (t + WorkerLease cfg) (WorkerID cfg) t j"
  have "claim_select (\<lambda>_. False) t 1 [j] = [j]" using j by (intro claim_single) (auto simp: due_def)
  then have claim: "ClaimBatch (\<lambda>_. False) (WorkerID cfg) (WorkerLease cfg) 1 (at t p) = (Inr [?k], (at t p)\<lparr>rows := [?k]\<rparr>)"
    using idle_server [of "at t p"] j(1,2)
    by (simp add: ClaimBatch_def round_trip_Reply sql_claim_def update_where_def Let_def)
  let ?q = "(at t p)\<lparr>rows := [?k]\<rparr>"
  let ?k2 = "extend_row (t + took + WorkerLease cfg) (t + took) ?k"
  have hb: "heartbeat cfg (ID ?k) (at (t + took) ?q) = (at (t + took) ?q)\<lparr>rows := [?k2]\<rparr>"
    using idle_server [of "at (t + took) ?q"] j(1)
    by (simp add: heartbeat_def ExtendLease_def exec_one_Reply update_where_def owned_def claim_row_def)
  let ?q2 = "snd (process cfg ?k res took (heartbeat cfg (ID ?k) (at (t + took) ?q)))"
  have q2: "rows ?q2 = [?k2]" using process_late [OF assms(2)] hb by simp
  have f2: "faults ?q2 = []"
    using hb j(1) assms(2) by (auto simp: process_def recordFailure_def Complete_def Fail_def Retry_def exec_one_def
        round_trip_def Let_def final_pg_def next_fault_def pop_fault_def at_def split: sum.splits)
  have "rows (snd (ReapExpired (at (t + took + WorkerLease cfg + 1) ?q2))) = [reap_row (t + took + WorkerLease cfg + 1) ?k2]
      \<and> faults (snd (ReapExpired (at (t + took + WorkerLease cfg + 1) ?q2))) = []"
    using q2 f2 by (simp add: ReapExpired_def round_trip_def Let_def next_fault_def pop_fault_def sql_reap_def
        update_where_def expired_def row_defs split: prod.splits)
  then show ?thesis
    unfolding slow_round_def claim using j by (simp add: Let_def idle_job_def row_defs)
qed

text \<open>
  C18. A job whose processing takes 15 seconds or more is never settled, even when the processor answers
  every time and every statement that is sent succeeds: the context for the final statement is made
  before the processing starts. After \<open>n\<close> rounds of claim, heartbeat, processing and reaping the job is
  pending again with \<open>n\<close> attempts and no result, for every \<open>n\<close>, hence beyond any attempt limit.
\<close>
theorem slow_job_never_settles:
  assumes "final_timeout \<le> took"
  shows "\<exists>j. rows (fold (slow_round cfg res took) ts (sample_pg [sample_job ''a'' 1])) = [j] \<and>
    Status j = StatusPending \<and> Attempts j = int (length ts) \<and> ResultSummary j = '''' \<and> due now j"
proof -
  have "idle_job n p \<Longrightarrow> idle_job (n + int (length ts)) (fold (slow_round cfg res took) ts p)" for n p
  proof (induction ts arbitrary: n p)
    case (Cons t ts)
    from Cons.IH [OF slow_round_step [OF Cons.prems assms, of cfg res t]] show ?case by (simp add: add.assoc)
  qed simp
  moreover have "idle_job 0 (sample_pg [sample_job ''a'' 1])"
    by (simp add: idle_job_def sample_pg_def sample_job_def zero_job_def)
  ultimately have "idle_job (int (length ts)) (fold (slow_round cfg res took) ts (sample_pg [sample_job ''a'' 1]))"
    by fastforce
  then show ?thesis by (auto simp: idle_job_def due_def)
qed

theorem slow_job_never_settles_witness:
  "\<exists>j. rows (fold (slow_round worker_cfg (Inr \<lparr>Summary = ''ok'', ProcessedAt = 5\<rparr>) 16000000000)
      [0, 200000000000, 400000000000] (sample_pg [sample_job ''a'' 1])) = [j] \<and> Status j = StatusPending \<and> Attempts j = 3"
  using slow_job_never_settles [of 16000000000 worker_cfg "Inr \<lparr>Summary = ''ok'', ProcessedAt = 5\<rparr>"
      "[0, 200000000000, 400000000000]"]
  by (auto simp: final_timeout_def)

section \<open>The heartbeat\<close>

text \<open>The statements on the table while a job is processed, each at its time, on one clock.\<close>

datatype lease_event = BeatAt time | ReapAt time

fun lease_run :: "config \<Rightarrow> string \<Rightarrow> lease_event list \<Rightarrow> pg \<Rightarrow> pg" where
  "lease_run cfg i [] p = p"
| "lease_run cfg i (BeatAt t # es) p = lease_run cfg i es (heartbeat cfg i (at t p))"
| "lease_run cfg i (ReapAt t # es) p = lease_run cfg i es (snd (ReapExpired (at t p)))"

text \<open>
  No reaping comes later than one heartbeat interval and \<open>slack\<close> (delays of the ticker and of the
  statement) after the last renewal.
\<close>

fun timely :: "config \<Rightarrow> duration \<Rightarrow> time \<Rightarrow> lease_event list \<Rightarrow> bool" where
  "timely cfg slack beat [] = True"
| "timely cfg slack beat (BeatAt t # es) = timely cfg slack t es"
| "timely cfg slack beat (ReapAt t # es) =
     (t \<le> beat + heartbeat_interval cfg + slack \<and> timely cfg slack beat es)"

lemma heartbeat_row:
  assumes "faults p = []" and "row_of (rows p) i = Some r" and "Status r = StatusProcessing"
  shows "row_of (rows (heartbeat cfg i (at t p))) i = Some (extend_row (t + WorkerLease cfg) t r) \<and>
    faults (heartbeat cfg i (at t p)) = []"
proof -
  have "heartbeat cfg i (at t p) =
      (at t p)\<lparr>rows := update_where (owned i) (extend_row (t + WorkerLease cfg) t) (rows p)\<rparr>"
    using idle_server [of "at t p"] assms(1) by (simp add: heartbeat_def ExtendLease_def exec_one_Reply)
  with row_of_owned_update(1) [OF assms(2,3)] assms(1) show ?thesis by simp
qed

lemma reap_keeps_live:
  assumes "faults p = []" and "row_of (rows p) i = Some r" and "\<not> expired t r"
  shows "row_of (rows (snd (ReapExpired (at t p)))) i = Some r \<and> faults (snd (ReapExpired (at t p))) = []"
proof -
  have "ReapExpired (at t p) =
      (Inr (affected (expired t) (rows p)), (at t p)\<lparr>rows := update_where (expired t) (reap_row t) (rows p)\<rparr>)"
    using idle_server [of "at t p"] assms(1) by (simp add: ReapExpired_def round_trip_Reply sql_reap_def)
  moreover have "row_of (update_where (expired t) (reap_row t) (rows p)) i =
      map_option (\<lambda>j. if expired t j then reap_row t j else j) (row_of (rows p) i)"
    by (rule row_of_update_where) simp
  ultimately show ?thesis using assms by simp
qed

text \<open>
  C21. A job is not reaped from under its worker. While the heartbeat renews the lease, however long the
  processing runs and however often the reaper comes, the row stays processing under the same worker
  with the same attempt count, provided a heartbeat interval and its delays fit into the lease.
\<close>
theorem heartbeat_keeps_job:
  assumes "heartbeat_interval cfg + slack \<le> WorkerLease cfg"
    and "faults p = []" and "row_of (rows p) i = Some r" and "Status r = StatusProcessing"
    and "LeaseUntil r = Some (t + WorkerLease cfg)" and "timely cfg slack t es"
  shows "\<exists>k. row_of (rows (lease_run cfg i es p)) i = Some k \<and> Status k = StatusProcessing \<and>
    LockedBy k = LockedBy r \<and> Attempts k = Attempts r \<and> same_payload r k"
  using assms(2-)
proof (induction es arbitrary: p r t)
  case Nil
  then show ?case by simp
next
  case (Cons e es)
  show ?case
  proof (cases e)
    case (BeatAt u)
    let ?r = "extend_row (u + WorkerLease cfg) u r"
    have "\<exists>k. row_of (rows (lease_run cfg i es (heartbeat cfg i (at u p)))) i = Some k \<and>
        Status k = StatusProcessing \<and> LockedBy k = LockedBy ?r \<and> Attempts k = Attempts ?r \<and> same_payload ?r k"
      using heartbeat_row [OF Cons.prems(1-3), of cfg u] Cons.prems(3,5) BeatAt
      by (intro Cons.IH [where t = u]) (auto simp: extend_row_def)
    moreover have "same_payload r ?r" using Cons.prems(3) by (intro row_step_payload row_step.extended)
    ultimately show ?thesis using BeatAt by (auto simp: extend_row_def intro: same_payload_trans)
  next
    case (ReapAt u)
    have "\<not> expired u r" using Cons.prems(4,5) assms(1) ReapAt by (auto simp: expired_def)
    with Cons.IH [of "snd (ReapExpired (at u p))" r t] reap_keeps_live [OF Cons.prems(1,2)] Cons.prems ReapAt
    show ?thesis by auto
  qed
qed

theorem heartbeat_keeps_job_witness:
  "\<exists>k. row_of (rows (lease_run worker_cfg ''a'' [ReapAt 60, BeatAt 60000000000, ReapAt 180000000000]
       (sample_pg [claim_row 120000000000 ''w'' 0 (sample_job ''a'' 1)]))) ''a'' = Some k \<and> Status k = StatusProcessing"
proof -
  have l: "WorkerLease worker_cfg = 120000000000" by code_simp
  have "heartbeat_interval worker_cfg + 60000000000 \<le> WorkerLease worker_cfg"
    by (simp add: heartbeat_interval_def l)
  from heartbeat_keeps_job [OF this, of "sample_pg [claim_row 120000000000 ''w'' 0 (sample_job ''a'' 1)]" "''a''"
      "claim_row 120000000000 ''w'' 0 (sample_job ''a'' 1)" 0
      "[ReapAt 60, BeatAt 60000000000, ReapAt 180000000000]"]
  show ?thesis
    by (auto simp: sample_pg_def row_of_def claim_row_def sample_job_def zero_job_def heartbeat_interval_def l)
qed

section \<open>Shutdown\<close>

lemma releaseQueued_rows:
  assumes "faults p = []"
  shows "rows (releaseQueued cfg queue p) =
    update_where (\<lambda>j. \<exists>k \<in> set queue. owned (ID k) j)
      (retry_row release_text (MaxAttempts cfg) 0 0 (db_now p)) (rows p)"
  using assms
proof (induction queue arbitrary: p)
  case Nil
  then show ?case by (simp add: update_where_def)
next
  case (Cons k queue)
  let ?f = "retry_row release_text (MaxAttempts cfg) 0 0 (db_now p)"
  let ?q = "p\<lparr>rows := update_where (owned (ID k)) ?f (rows p)\<rparr>"
  have q: "snd (Retry (ID k) release_text (MaxAttempts cfg) 0 0 p) = ?q"
    using idle_server [OF Cons.prems] by (simp add: Retry_def round_trip_Reply sql_retry_def Let_def)
  have "update_where (\<lambda>j. \<exists>k \<in> set queue. owned (ID k) j) ?f (update_where (owned (ID k)) ?f (rows p)) =
      update_where (\<lambda>j. owned (ID k) j \<or> (\<exists>k \<in> set queue. owned (ID k) j)) ?f (rows p)"
    by (rule update_where_twice) (auto simp: owned_def retry_row_def Let_def)
  with Cons q show ?case by simp
qed

text \<open>
  C37. What shutdown does to jobs that were claimed and never started. On a server that answers, a queued
  job whose row is still processing is released: pending and due at once, with no owner and its attempt
  count kept, so any replica takes it, but only while attempts remain. A job claimed for its last attempt is
  marked failed although it was never tried. No other row changes.
\<close>
theorem release_queued_outcome:
  assumes "faults p = []" and "j \<in> set queue" and "row_of (rows p) (ID j) = Some r" and "Status r = StatusProcessing"
  shows "\<exists>k. row_of (rows (releaseQueued cfg queue p)) (ID j) = Some k \<and> same_payload r k \<and>
    Attempts k = Attempts r \<and> LockedBy k = '''' \<and> LeaseUntil k = None \<and> ErrorMessage k = release_text \<and>
    (if Attempts r < MaxAttempts cfg then due (db_now p) k else Status k = StatusFailed) \<and>
    (\<forall>i. i \<notin> ID ` set queue \<longrightarrow> row_of (rows (releaseQueued cfg queue p)) i = row_of (rows p) i)"
proof -
  let ?f = "retry_row release_text (MaxAttempts cfg) 0 0 (db_now p)"
  let ?c = "\<lambda>j. \<exists>k \<in> set queue. owned (ID k) j"
  have row: "row_of (rows (releaseQueued cfg queue p)) i =
      map_option (\<lambda>j. if ?c j then ?f j else j) (row_of (rows p) i)" for i
    unfolding releaseQueued_rows [OF assms(1)] by (rule row_of_update_where) simp
  have "?c r" using assms(2-4) by (auto simp: owned_def dest!: row_of_SomeD)
  then have new: "row_of (rows (releaseQueued cfg queue p)) (ID j) = Some (?f r)" using row assms(3) by simp
  have "row_of (rows (releaseQueued cfg queue p)) i = row_of (rows p) i" if "i \<notin> ID ` set queue" for i
    using row [of i] that by (cases "row_of (rows p) i") (auto simp: owned_def dest!: row_of_SomeD)
  moreover have "same_payload r (?f r)" using assms(4) by (intro row_step_payload row_step.retried)
  ultimately show ?thesis using new by (auto simp: retry_row_def Let_def due_def backoff_def)
qed

theorem release_queued_outcome_witness:
  "(\<exists>k. row_of (rows (releaseQueued worker_cfg [sample_job ''a'' 1] (sample_pg running_table))) ''a'' = Some k \<and> due 5 k) \<and>
   (\<exists>k. row_of (rows (releaseQueued (worker_cfg\<lparr>MaxAttempts := 1\<rparr>) [sample_job ''a'' 1] (sample_pg running_table))) ''a''
      = Some k \<and> Status k = StatusFailed)"
proof -
  have i: "ID (sample_job ''a'' 1) = ''a''" by (simp add: sample_job_def zero_job_def)
  have m: "MaxAttempts worker_cfg = 5" by code_simp
  note * = release_queued_outcome [of "sample_pg running_table" "sample_job ''a'' 1" "[sample_job ''a'' 1]", unfolded i sample_pg_sel,
      OF _ _ running_row(1,2)]
  show ?thesis
    using * [of worker_cfg] * [of "worker_cfg\<lparr>MaxAttempts := 1\<rparr>"] running_row(3) m by (auto simp: sample_pg_def)
qed

text \<open>
  Jobs that are claimed and not yet sent when the context ends are in no list any more: \<open>pollOnce\<close> returns without them, the
  release does not know them, and their rows stay in processing, with their leases, although the comment on
  \<open>Stop\<close> has every job that was not started back to pending.
\<close>

lemma unsent_claims_stay_locked:
  assumes "faults q = []" and "\<not> halted k" and "0 < claim_size cfg (length queue)"
    and "ClaimBatch (locked k) (WorkerID cfg) (WorkerLease cfg) (claim_size cfg (length queue)) p = (Inr jobs, q)"
    and "sent k = Some n" and "j \<in> set (drop n jobs)" and "distinct (map ID (queue @ jobs))"
  shows "row_of (rows (releaseQueued cfg (fst (pollOnce cfg halted sent locked k queue p)) q)) (ID j) = row_of (rows q) (ID j)"
proof -
  have "jobs \<noteq> []" using assms(6) by auto
  then have po: "pollOnce cfg halted sent locked k queue p = (queue @ take n jobs, q)"
    using assms(2-5) by (subst pollOnce.simps) (simp add: Let_def)
  have "distinct (map ID queue @ map ID (take n jobs) @ map ID (drop n jobs))"
    using assms(7) by (simp flip: map_append)
  then have fresh: "ID j \<notin> ID ` set (queue @ take n jobs)" using imageI [OF assms(6), of ID] by auto
  then have nf: "ID k \<noteq> ID j" if "k \<in> set queue \<union> set (take n jobs)" for k using that by (metis imageI set_append)
  have "row_of (rows (releaseQueued cfg (queue @ take n jobs) q)) (ID j) =
      map_option (\<lambda>x. if \<exists>k \<in> set (queue @ take n jobs). owned (ID k) x
        then retry_row release_text (MaxAttempts cfg) 0 0 (db_now q) x else x) (row_of (rows q) (ID j))"
    unfolding releaseQueued_rows [OF assms(1)] by (rule row_of_update_where) simp
  also have "\<dots> = row_of (rows q) (ID j)"
    by (cases "row_of (rows q) (ID j)") (auto simp: owned_def dest!: row_of_SomeD nf)
  finally show ?thesis using po by simp
qed

end
