(* ===== verification/WorkerProgress.thy ===== *)
theory WorkerProgress
  imports WorkerSpec
begin

text \<open>
  Progress of the queue under one replica whose server answers: a tick of the poller followed by the
  processing of what it queued, again and again. Every due job is claimed once and its outcome recorded;
  nothing else is touched. The interleaving of several replicas is in theory WorkerPool; here the point
  is that the claim, the channel, the processing and the statements fit together.
\<close>

section \<open>A tick of the pool\<close>

definition work_round ::
  "config \<Rightarrow> (job \<Rightarrow> goerr + ProcessResult) \<Rightarrow> (job \<Rightarrow> duration) \<Rightarrow> pg \<Rightarrow> pg" where
  "work_round cfg run took p =
     (case pollOnce cfg (\<lambda>_. False) (\<lambda>_. None) (\<lambda>_ _. False) 0 [] p of
        (queue, q) \<Rightarrow> fold (\<lambda>j q. snd (process cfg j (run j) (took j) q)) queue q)"

section \<open>What the poller does to the table\<close>

definition pool_claim :: "config \<Rightarrow> pg \<Rightarrow> job \<Rightarrow> job" where
  "pool_claim cfg p = claim_row (app_now p + WorkerLease cfg) (WorkerID cfg) (db_now p)"

definition claimed :: "config \<Rightarrow> pg \<Rightarrow> string set \<Rightarrow> job list \<Rightarrow> job list" where
  "claimed cfg p S rs = update_where (\<lambda>j. ID j \<in> S) (pool_claim cfg p) rs"

lemma pool_claim_ID [simp]: "ID (pool_claim cfg p j) = ID j" "Status (pool_claim cfg p j) = StatusProcessing"
  by (simp_all add: pool_claim_def claim_row_def)

lemma pool_claim_rows [simp]: "pool_claim cfg (p\<lparr>rows := rs\<rparr>) = pool_claim cfg p"
  by (simp add: pool_claim_def)

definition due_ids :: "pg \<Rightarrow> string set" where
  "due_ids p = ID ` {j \<in> set (rows p). due (db_now p) j}"

lemma claim_idle:
  assumes "faults p = []" and "0 < n" and "distinct (map ID (rows p))"
  obtains S js where "ClaimBatch (\<lambda>_. False) (WorkerID cfg) (WorkerLease cfg) n p =
      (Inr js, p\<lparr>rows := claimed cfg p S (rows p)\<rparr>)"
    and "S \<subseteq> due_ids p" and "due_ids p \<noteq> {} \<longrightarrow> js \<noteq> []"
    and "distinct (map ID js)" and "set js = pool_claim cfg p ` {j \<in> set (rows p). ID j \<in> S}"
proof -
  let ?sel = "claim_select (\<lambda>_. False) (db_now p) n (rows p)"
  let ?S = "ID ` set ?sel"
  let ?js = "map (pool_claim cfg p) (filter (\<lambda>j. ID j \<in> ?S) (rows p))"
  have S: "?S \<subseteq> due_ids p" using set_claim_select by (fastforce simp: due_ids_def)
  have "ClaimBatch (\<lambda>_. False) (WorkerID cfg) (WorkerLease cfg) n p =
      (Inr ?js, p\<lparr>rows := claimed cfg p ?S (rows p)\<rparr>)"
    using idle_server [OF assms(1)] assms(2)
    by (simp add: ClaimBatch_def round_trip_Reply sql_claim_def Let_def claimed_def pool_claim_def)
  moreover have "distinct (map ID ?js)"
    using assms(3) by (simp add: comp_def distinct_map_filter)
  moreover have "?js \<noteq> []" if "due_ids p \<noteq> {}"
  proof -
    have "filter (\<lambda>j. due (db_now p) j) (rows p) \<noteq> []" using that by (auto simp: due_ids_def filter_empty_conv)
    then have "sort_key CreatedAt (filter (\<lambda>j. due (db_now p) j) (rows p)) \<noteq> []"
      by (metis length_0_conv length_sort)
    then have "?sel \<noteq> []" using assms(2) by (simp add: claim_select_def)
    then obtain k where "k \<in> set ?sel" by (cases ?sel) auto
    moreover from this have "k \<in> set (rows p)" using set_claim_select by blast
    ultimately show ?thesis by (auto simp: filter_empty_conv)
  qed
  moreover have "set ?js = pool_claim cfg p ` {j \<in> set (rows p). ID j \<in> ?S}" by auto
  ultimately show thesis using S by (intro that [of ?js ?S]) simp_all
qed

lemma claimed_twice:
  assumes "T \<subseteq> due_ids (p\<lparr>rows := claimed cfg p S (rows p)\<rparr>)" and "distinct (map ID (rows p))"
  shows "S \<inter> T \<inter> ID ` set (rows p) = {}"
    and "claimed cfg p T (claimed cfg p S (rows p)) = claimed cfg p (S \<union> T) (rows p)"
    and "T \<subseteq> due_ids p"
    and "pool_claim cfg p ` {j \<in> set (claimed cfg p S (rows p)). ID j \<in> T} =
      pool_claim cfg p ` {j \<in> set (rows p). ID j \<in> T}"
proof -
  have t: "\<exists>j \<in> set (rows p). ID j = i \<and> i \<notin> S \<and> due (db_now p) j" if "i \<in> T" for i
  proof -
    have "i \<in> due_ids (p\<lparr>rows := claimed cfg p S (rows p)\<rparr>)" using assms(1) that by blast
    then obtain k where k: "k \<in> set (claimed cfg p S (rows p))" "due (db_now p) k" "ID k = i"
      by (auto simp: due_ids_def)
    then obtain j where j: "j \<in> set (rows p)" "k = (if ID j \<in> S then pool_claim cfg p j else j)"
      by (auto simp: claimed_def in_update_where)
    have "ID j \<notin> S" using j(2) k(2) by (auto simp: due_def)
    with j k show ?thesis by auto
  qed
  then show disj: "S \<inter> T \<inter> ID ` set (rows p) = {}" and "T \<subseteq> due_ids p" by (auto simp: due_ids_def)
  show "claimed cfg p T (claimed cfg p S (rows p)) = claimed cfg p (S \<union> T) (rows p)"
    unfolding claimed_def using t by (subst update_where_twice) auto
  have "j \<in> set (claimed cfg p S (rows p)) \<longleftrightarrow> j \<in> set (rows p)" if "ID j \<in> T" for j
    using t [OF that] by (auto simp: claimed_def in_update_where split: if_splits)
  then show "pool_claim cfg p ` {j \<in> set (claimed cfg p S (rows p)). ID j \<in> T} =
      pool_claim cfg p ` {j \<in> set (rows p). ID j \<in> T}" by auto
qed

lemma claimed_distinct: "distinct (map ID rs) \<Longrightarrow> distinct (map ID (claimed cfg p S rs))"
  by (simp add: claimed_def map_update_where)

lemma claimed_empty: "claimed cfg p {} rs = rs"
  by (simp add: claimed_def update_where_def)

lemma poll_idle:
  "faults p = [] \<Longrightarrow> distinct (map ID (rows p)) \<Longrightarrow>
    \<exists>S js. pollOnce cfg (\<lambda>_. False) (\<lambda>_. None) (\<lambda>_ _. False) k queue p =
      (queue @ js, p\<lparr>rows := claimed cfg p S (rows p)\<rparr>) \<and>
      S \<subseteq> due_ids p \<and> distinct (map ID js) \<and> set js = pool_claim cfg p ` {j \<in> set (rows p). ID j \<in> S} \<and>
      (due_ids p \<noteq> {} \<and> 0 < claim_size cfg (length queue) \<longrightarrow> js \<noteq> [])"
proof (induction "nat (WorkerConcurrency cfg - int (length queue))" arbitrary: k queue p rule: less_induct)
  case less
  let ?n = "claim_size cfg (length queue)"
  let ?poll = "pollOnce cfg (\<lambda>_. False) (\<lambda>_. None) (\<lambda>_ _. False)"
  show ?case
  proof (cases "0 < ?n")
    case False
    then have "?poll k queue p = (queue, p)" by (subst pollOnce.simps) (simp add: Let_def)
    then show ?thesis using False by (intro exI [of _ "{}"] exI [of _ "[]"]) (simp add: claimed_empty)
  next
    case True
    obtain S js where c: "ClaimBatch (\<lambda>_. False) (WorkerID cfg) (WorkerLease cfg) ?n p =
        (Inr js, p\<lparr>rows := claimed cfg p S (rows p)\<rparr>)"
      and S: "S \<subseteq> due_ids p" and ne: "due_ids p \<noteq> {} \<longrightarrow> js \<noteq> []" and dj: "distinct (map ID js)"
      and sj: "set js = pool_claim cfg p ` {j \<in> set (rows p). ID j \<in> S}"
      by (rule claim_idle [OF less.prems(1) True less.prems(2), of cfg])
    let ?q = "p\<lparr>rows := claimed cfg p S (rows p)\<rparr>"
    show ?thesis
    proof (cases "js = []")
      case True
      then have "?poll k queue p = (queue, ?q)" using \<open>0 < ?n\<close> c by (subst pollOnce.simps) (simp add: Let_def)
      then show ?thesis using S sj ne True by (intro exI [of _ S] exI [of _ "[]"]) simp
    next
      case False
      have poll: "?poll k queue p = ?poll (k + 1) (queue @ js) ?q"
        using \<open>0 < ?n\<close> c False by (subst pollOnce.simps) (simp add: Let_def)
      have "nat (WorkerConcurrency cfg - int (length (queue @ js))) < nat (WorkerConcurrency cfg - int (length queue))"
        using True False by (auto simp: claim_size_def Let_def neq_Nil_conv split: if_splits)
      from less.hyps [OF this, of ?q "k + 1"] less.prems
      obtain T js' where r: "?poll (k + 1) (queue @ js) ?q = ((queue @ js) @ js', ?q\<lparr>rows := claimed cfg ?q T (rows ?q)\<rparr>)"
        and T: "T \<subseteq> due_ids ?q" and dj': "distinct (map ID js')"
        and sj': "set js' = pool_claim cfg ?q ` {j \<in> set (rows ?q). ID j \<in> T}"
        by (auto simp: claimed_distinct)
      note tw = claimed_twice [OF T less.prems(2)]
      have "ID ` set js \<inter> ID ` set js' = {}" using tw(1) unfolding sj sj' by (auto simp: tw(4))
      moreover have "set (js @ js') = pool_claim cfg p ` {j \<in> set (rows p). ID j \<in> S \<union> T}"
        using sj sj' tw(4) by auto
      moreover have "claimed cfg ?q T (rows ?q) = claimed cfg p (S \<union> T) (rows p)" using tw(2) by (simp add: claimed_def)
      ultimately show ?thesis
        using poll r S tw(3) dj dj' False by (intro exI [of _ "S \<union> T"] exI [of _ "js @ js'"]) auto
    qed
  qed
qed

section \<open>Processing what was queued\<close>

abbreviation settle_all :: "config \<Rightarrow> (job \<Rightarrow> goerr + ProcessResult) \<Rightarrow> (job \<Rightarrow> duration) \<Rightarrow> job list \<Rightarrow> pg \<Rightarrow> pg" where
  "settle_all cfg run took queue p \<equiv> fold (\<lambda>j q. snd (process cfg j (run j) (took j) q)) queue p"

lemma settle_all_rows:
  assumes "\<forall>j. took j < final_timeout"
  shows "faults p = [] \<Longrightarrow> distinct (map ID (rows p)) \<Longrightarrow> distinct (map ID queue) \<Longrightarrow>
    \<forall>j \<in> set queue. j \<in> set (rows p) \<and> Status j = StatusProcessing \<Longrightarrow>
    settle_all cfg run took queue p =
      p\<lparr>rows := update_where (\<lambda>j. ID j \<in> ID ` set queue) (\<lambda>j. settled_row cfg (run j) (db_now p) j) (rows p)\<rparr>"
proof (induction queue arbitrary: p)
  case Nil
  then show ?case by (simp add: update_where_def)
next
  case (Cons k queue)
  let ?f = "\<lambda>j. settled_row cfg (run j) (db_now p) j"
  have k: "k \<in> set (rows p)" "Status k = StatusProcessing" using Cons.prems(4) by auto
  have same: "j = k" if "j \<in> set (rows p)" "ID j = ID k" for j
    using distinct_map_eq [OF Cons.prems(2)] that k(1) by blast
  let ?q = "p\<lparr>rows := update_where (\<lambda>j. ID j = ID k) ?f (rows p)\<rparr>"
  have "update_where (owned (ID k)) (settled_row cfg (run k) (db_now p)) (rows p) =
      update_where (\<lambda>j. ID j = ID k) ?f (rows p)"
    using same k by (intro update_where_cong) (auto simp: owned_def)
  then have q: "snd (process cfg k (run k) (took k) p) = ?q"
    using process_prompt [of p k k "took k" cfg "run k"] row_of_mem [OF Cons.prems(2) k(1)] k(2)
      idle_server [OF Cons.prems(1)] Cons.prems(2) assms by simp
  have d: "distinct (map ID (rows ?q))" using Cons.prems(2) by (simp add: map_update_where)
  have "j \<in> set (rows ?q)" if "j \<in> set queue" for j
    using update_where_mem [of j "rows p" "\<lambda>j. ID j = ID k" ?f] that Cons.prems(3,4)
    by (metis (no_types, lifting) distinct.simps(2) image_eqI list.set_intros(2) list.set_map list.simps(9)
        pg.select_convs(1) pg.surjective pg.update_convs(1))
  then have "settle_all cfg run took queue ?q =
      ?q\<lparr>rows := update_where (\<lambda>j. ID j \<in> ID ` set queue) ?f (rows ?q)\<rparr>"
    using Cons.IH [of ?q] Cons.prems d by simp
  moreover have "update_where (\<lambda>j. ID j \<in> ID ` set queue) ?f (update_where (\<lambda>j. ID j = ID k) ?f (rows p)) =
      update_where (\<lambda>j. ID j \<in> ID ` set (k # queue)) ?f (rows p)"
    using Cons.prems(3) by (subst update_where_twice) (auto intro!: update_where_cong)
  ultimately show ?case using q by simp
qed

section \<open>A tick, and all ticks\<close>

definition attempted_row :: "config \<Rightarrow> (job \<Rightarrow> goerr + ProcessResult) \<Rightarrow> pg \<Rightarrow> job \<Rightarrow> job" where
  "attempted_row cfg run p j = settled_row cfg (run (pool_claim cfg p j)) (db_now p) (pool_claim cfg p j)"

lemma attempted_row_ID [simp]: "ID (attempted_row cfg run p j) = ID j"
  by (simp add: attempted_row_def)

lemma attempted_row_rows [simp]: "attempted_row cfg run (p\<lparr>rows := rs\<rparr>) = attempted_row cfg run p"
  by (simp add: attempted_row_def fun_eq_iff)

text \<open>A settled job is not due at once: it is final, or it waits at least the base of the backoff.\<close>

lemma attempted_not_due:
  assumes "0 < RetryBackoffBase cfg" and "RetryBackoffBase cfg \<le> RetryBackoffMax cfg"
  shows "\<not> due (db_now p) (attempted_row cfg run p j)"
  using backoff_range(1) [of "RetryBackoffBase cfg" "RetryBackoffMax cfg"] assms
  by (auto simp: attempted_row_def settled_row_def due_def complete_row_def fail_row_def retry_row_def Let_def
      not_le less_le_trans split: sum.split)

lemma work_round_rows:
  assumes "\<forall>j. took j < final_timeout" and "faults p = []" and "distinct (map ID (rows p))" and "valid_config cfg"
  obtains S where "work_round cfg run took p =
      p\<lparr>rows := update_where (\<lambda>j. ID j \<in> S) (attempted_row cfg run p) (rows p)\<rparr>"
    and "S \<subseteq> due_ids p" and "due_ids p \<noteq> {} \<longrightarrow> S \<inter> due_ids p \<noteq> {}"
proof -
  obtain S js where poll0: "pollOnce cfg (\<lambda>_. False) (\<lambda>_. None) (\<lambda>_ _. False) 0 [] p =
      ([] @ js, p\<lparr>rows := claimed cfg p S (rows p)\<rparr>)"
    and S: "S \<subseteq> due_ids p" "distinct (map ID js)" "set js = pool_claim cfg p ` {j \<in> set (rows p). ID j \<in> S}"
    and ne: "due_ids p \<noteq> {} \<and> 0 < claim_size cfg (length ([] :: job list)) \<longrightarrow> js \<noteq> []"
    using poll_idle [OF assms(2,3), of cfg 0 "[]"] by blast
  note poll = poll0 [unfolded append_Nil]
  let ?q = "p\<lparr>rows := claimed cfg p S (rows p)\<rparr>"
  have "S \<subseteq> ID ` set (rows p)" using S(1) by (auto simp: due_ids_def)
  then have ids: "ID ` set js = S" unfolding S(3) by (auto simp: image_image)
  have "j \<in> set (rows ?q) \<and> Status j = StatusProcessing" if js: "j \<in> set js" for j
  proof -
    obtain j0 where "j0 \<in> set (rows p)" "ID j0 \<in> S" "j = pool_claim cfg p j0" using js S(3) by auto
    then show ?thesis
      using update_where_mem [of j0 "rows p" "\<lambda>j. ID j \<in> S" "pool_claim cfg p"] by (simp add: claimed_def)
  qed
  then have "settle_all cfg run took js ?q =
      ?q\<lparr>rows := update_where (\<lambda>j. ID j \<in> ID ` set js) (\<lambda>j. settled_row cfg (run j) (db_now ?q) j) (rows ?q)\<rparr>"
    using S(2) assms(2,3) by (intro settle_all_rows [OF assms(1)]) (simp_all add: claimed_distinct)
  then have "work_round cfg run took p =
      p\<lparr>rows := update_where (\<lambda>j. ID j \<in> S) (attempted_row cfg run p) (rows p)\<rparr>"
    unfolding work_round_def poll ids
    by (simp add: claimed_def update_where_def attempted_row_def comp_def)
  moreover have "0 < claim_size cfg 0"
    using assms(4) by (simp add: claim_size_def valid_config_def Let_def)
  moreover have "S \<inter> due_ids p \<noteq> {}" if "due_ids p \<noteq> {}"
    using that ne ids S(1) \<open>0 < claim_size cfg 0\<close> by (cases js) auto
  ultimately show thesis using S(1) by (intro that [of S]) simp_all
qed

lemma due_after_round:
  assumes "\<And>j. \<not> due (db_now p) (f j)"
  shows "due_ids (p\<lparr>rows := update_where (\<lambda>j. ID j \<in> S) f (rows p)\<rparr>) = due_ids p - S"
proof -
  have "{k \<in> set (update_where (\<lambda>j. ID j \<in> S) f (rows p)). due (db_now p) k} =
      {j \<in> set (rows p). due (db_now p) j \<and> ID j \<notin> S}"
    using assms(1) by (auto simp: in_update_where)
  then show ?thesis by (auto simp: due_ids_def)
qed

lemma due_jobs_settled:
  assumes "valid_config cfg" and "0 < RetryBackoffBase cfg" and "\<forall>j. took j < final_timeout"
    and "faults p = []" and "distinct (map ID (rows p))" and "card (due_ids p) \<le> n"
  shows "(work_round cfg run took ^^ n) p =
    p\<lparr>rows := update_where (due (db_now p)) (attempted_row cfg run p) (rows p)\<rparr>"
proof -
  let ?f = "attempted_row cfg run p"
  have nd: "\<not> due (db_now p) (?f j)" for j
    using assms(1,2) by (intro attempted_not_due) (auto simp: valid_config_def)
  have step: "faults q = [] \<and> db_now q = db_now p \<and> app_now q = app_now p \<and> distinct (map ID (rows q)) \<Longrightarrow>
      card (due_ids q) \<le> n \<Longrightarrow> (work_round cfg run took ^^ n) q = q\<lparr>rows := update_where (due (db_now p)) ?f (rows q)\<rparr>" for q n
  proof (induction n arbitrary: q)
    case 0
    then have "due_ids q = {}" by (simp add: due_ids_def)
    then have "update_where (due (db_now p)) ?f (rows q) = rows q"
      using 0(1) by (intro update_where_none) (auto simp: due_ids_def)
    then show ?case by simp
  next
    case (Suc n)
    have f: "attempted_row cfg run q = ?f"
      using Suc.prems(1) by (simp add: attempted_row_def pool_claim_def fun_eq_iff)
    obtain S where r: "work_round cfg run took q = q\<lparr>rows := update_where (\<lambda>j. ID j \<in> S) ?f (rows q)\<rparr>"
      and S: "S \<subseteq> due_ids q" "due_ids q \<noteq> {} \<longrightarrow> S \<inter> due_ids q \<noteq> {}"
      using Suc.prems(1) work_round_rows [OF assms(3) _ _ assms(1), of q run] f by metis
    let ?q = "work_round cfg run took q"
    have due: "due_ids ?q = due_ids q - S"
      unfolding r using nd Suc.prems(1) by (intro due_after_round) simp
    have "finite (due_ids q)" by (simp add: due_ids_def)
    then have "due_ids q \<noteq> {} \<longrightarrow> card (due_ids q - S) < card (due_ids q)"
      using S(2) by (auto intro!: psubset_card_mono)
    then have "card (due_ids ?q) \<le> n" using Suc.prems(2) unfolding due by (cases "due_ids q = {}") auto
    then have ih: "(work_round cfg run took ^^ n) ?q = ?q\<lparr>rows := update_where (due (db_now p)) ?f (rows ?q)\<rparr>"
      using Suc.prems(1) r by (intro Suc.IH) (auto simp: map_update_where)
    have "update_where (due (db_now p)) ?f (rows ?q) = update_where (\<lambda>j. ID j \<in> S \<or> due (db_now p) j) ?f (rows q)"
      unfolding r using nd by (simp add: update_where_twice)
    also have "\<dots> = update_where (due (db_now p)) ?f (rows q)"
    proof (rule update_where_cong)
      fix j
      assume j: "j \<in> set (rows q)"
      have "due (db_now p) j" if "ID j \<in> S"
      proof -
        have "ID j \<in> due_ids q" using that S(1) by blast
        then obtain k where "k \<in> set (rows q)" "ID k = ID j" "due (db_now p) k"
          using Suc.prems(1) by (auto simp: due_ids_def)
        with j show ?thesis using distinct_map_eq [of ID "rows q"] Suc.prems(1) by metis
      qed
      then show "(ID j \<in> S \<or> due (db_now p) j) = due (db_now p) j \<and> (ID j \<in> S \<or> due (db_now p) j \<longrightarrow> ?f j = ?f j)" by auto
    qed
    finally show ?case using ih r by (simp add: funpow_swap1)
  qed
  show ?thesis
    using step [of p n] assms(4-6) by simp
qed

text \<open>
  C10. The queue makes progress. With a valid configuration, a positive backoff, a server that answers and
  processing that fits into the final context, as many ticks as there are due jobs are enough: every
  due job has been claimed exactly once and its outcome recorded (completed, failed or rescheduled, as
  the processor decided), nothing is due any more, and no other row was touched.
\<close>
theorem due_jobs_are_settled:
  assumes "valid_config cfg" and "0 < RetryBackoffBase cfg" and "\<forall>j. took j < final_timeout"
    and "faults p = []" and "distinct (map ID (rows p))" and "card (due_ids p) \<le> n"
  shows "(work_round cfg run took ^^ n) p =
    p\<lparr>rows := update_where (due (db_now p)) (attempted_row cfg run p) (rows p)\<rparr>"
  using assms by (rule due_jobs_settled)

lemma worker_cfg_valid: "valid_config worker_cfg"
proof -
  have "Validate worker_cfg = None" by code_simp
  then show ?thesis by (simp add: Validate_valid)
qed

theorem due_jobs_are_settled_witness:
  "list_all (\<lambda>j. Status j = StatusCompleted \<and> ResultSummary j = ''ok'' \<and> Attempts j = 1)
     (rows ((work_round worker_cfg (\<lambda>_. Inr \<lparr>Summary = ''ok'', ProcessedAt = 5\<rparr>) (\<lambda>_. 1000) ^^ 2)
       (sample_pg [sample_job ''a'' 1, sample_job ''b'' 2])))"
proof -
  let ?p = "sample_pg [sample_job ''a'' 1, sample_job ''b'' 2]"
  have "distinct (map ID (rows ?p))" by (simp add: sample_job_def zero_job_def)
  moreover have "due_ids ?p \<subseteq> {''a'', ''b''}"
    by (auto simp: due_ids_def due_def sample_job_def zero_job_def)
  then have "card (due_ids ?p) \<le> 2" by (rule order_trans [OF card_mono, rotated]) simp_all
  moreover have "0 < RetryBackoffBase worker_cfg" by code_simp
  ultimately have "(work_round worker_cfg (\<lambda>_. Inr \<lparr>Summary = ''ok'', ProcessedAt = 5\<rparr>) (\<lambda>_. 1000) ^^ 2) ?p =
      ?p\<lparr>rows := update_where (due (db_now ?p)) (attempted_row worker_cfg (\<lambda>_. Inr \<lparr>Summary = ''ok'', ProcessedAt = 5\<rparr>) ?p) (rows ?p)\<rparr>"
    by (intro due_jobs_are_settled worker_cfg_valid) (simp_all add: final_timeout_def sample_pg_def)
  then show ?thesis
    by (simp add: update_where_def due_def attempted_row_def settled_row_def pool_claim_def claim_row_def
        complete_row_def sample_job_def zero_job_def)
qed

end
