(* ===== verification/WorkerPool.thy ===== *)
theory WorkerPool
  imports WorkerSpec "HOL-Library.Multiset"
begin

text \<open>
  Several replicas of the worker on one table, their goroutines interleaved at will. A replica is a
  poller (with the jobs it has claimed and not yet sent), the channel \<open>jobsCh\<close>, and at most
  \<open>WorkerConcurrency\<close> goroutines with a job each. Between two steps of a replica the clocks, the server's
  faults, submissions, the reaper and the death of a process may intervene.
\<close>

section \<open>The replicas\<close>

record pool =
  P_cfg :: config
  P_sending :: "job list"
  jobsCh :: "job list"
  P_active :: "job list"
  P_stopped :: bool

definition new_pool :: "config \<Rightarrow> pool" where
  "new_pool cfg = \<lparr>P_cfg = cfg, P_sending = [], jobsCh = [], P_active = [], P_stopped = False\<rparr>"

text \<open>
  The steps of one replica. The poller asks for at most the room it saw in the channel, then sends, a job
  a time; if its context ends it drops what it had not sent. A goroutine takes a job, may renew its lease,
  and finishes with whatever outcome; at shutdown, when all have returned, the queue is released.
\<close>

inductive pool_step :: "pool \<times> pg \<Rightarrow> pool \<times> pg \<Rightarrow> bool" where
  claim: "\<not> P_stopped w \<Longrightarrow> P_sending w = [] \<Longrightarrow> 0 < claim_size (P_cfg w) (length (jobsCh w)) \<Longrightarrow>
    ClaimBatch locked (WorkerID (P_cfg w)) (WorkerLease (P_cfg w)) (claim_size (P_cfg w) (length (jobsCh w))) p = (Inr jobs, q) \<Longrightarrow>
    pool_step (w, p) (w\<lparr>P_sending := jobs\<rparr>, q)"
| claim_failed: "\<not> P_stopped w \<Longrightarrow> P_sending w = [] \<Longrightarrow> 0 < claim_size (P_cfg w) (length (jobsCh w)) \<Longrightarrow>
    ClaimBatch locked (WorkerID (P_cfg w)) (WorkerLease (P_cfg w)) (claim_size (P_cfg w) (length (jobsCh w))) p = (Inl e, q) \<Longrightarrow>
    pool_step (w, p) (w, q)"
| send: "P_sending w = j # js \<Longrightarrow> int (length (jobsCh w)) < WorkerConcurrency (P_cfg w) \<Longrightarrow>
    pool_step (w, p) (w\<lparr>P_sending := js, jobsCh := jobsCh w @ [j]\<rparr>, p)"
| abandon: "pool_step (w, p) (w\<lparr>P_sending := []\<rparr>, p)"
| receive: "jobsCh w = j # js \<Longrightarrow> int (length (P_active w)) < WorkerConcurrency (P_cfg w) \<Longrightarrow>
    pool_step (w, p) (w\<lparr>jobsCh := js, P_active := P_active w @ [j]\<rparr>, p)"
| beat: "j \<in> set (P_active w) \<Longrightarrow> pool_step (w, p) (w, heartbeat (P_cfg w) (ID j) p)"
| finish: "P_active w = as @ j # bs \<Longrightarrow>
    pool_step (w, p) (w\<lparr>P_active := as @ bs\<rparr>, snd (process (P_cfg w) j res took p))"
| stop: "pool_step (w, p) (w\<lparr>P_stopped := True\<rparr>, p)"
| release: "P_stopped w \<Longrightarrow> P_sending w = [] \<Longrightarrow> P_active w = [] \<Longrightarrow>
    pool_step (w, p) (w\<lparr>jobsCh := []\<rparr>, releaseQueued (P_cfg w) (jobsCh w) p)"

inductive_cases pool_stepE: "pool_step (w, p) (w', q)"

record cluster =
  pools :: "pool list"
  srv :: pg

text \<open>
  A job in a replica's hands is the row as the claim returned it; apart from the lease and the time of the
  last update, which heartbeats change, it should stay what the row is.
\<close>

definition core :: "job \<Rightarrow> job" where
  "core j = j\<lparr>LeaseUntil := None, UpdatedAt := 0\<rparr>"

lemma core_sel [simp]: "ID (core j) = ID j" "Status (core j) = Status j" "LockedBy (core j) = LockedBy j"
  by (simp_all add: core_def)

definition in_hand :: "pool \<Rightarrow> job list" where
  "in_hand w = P_sending w @ jobsCh w @ P_active w"

definition held :: "pool \<Rightarrow> job list" where
  "held w = map core (in_hand w)"

definition all_held :: "cluster \<Rightarrow> job list" where
  "all_held c = concat (map held (pools c))"

text \<open>
  Steps of the cluster. With \<open>live\<close> the reaper finds no expired lease on a job that a replica holds:
  the leases are long enough for the queueing and renewed in time.
\<close>

inductive cluster_step :: "bool \<Rightarrow> cluster \<Rightarrow> cluster \<Rightarrow> bool" for live where
  replica: "pools c = as @ w # bs \<Longrightarrow> pool_step (w, srv c) (w', q) \<Longrightarrow>
    cluster_step live c (c\<lparr>pools := as @ w' # bs, srv := q\<rparr>)"
| crash: "pools c = as @ w # bs \<Longrightarrow> cluster_step live c (c\<lparr>pools := as @ new_pool (P_cfg w) # bs\<rparr>)"
| reap: "(live \<Longrightarrow> \<forall>r \<in> set (rows (srv c)). expired (db_now (srv c)) r \<longrightarrow> ID r \<notin> ID ` set (all_held c)) \<Longrightarrow>
    cluster_step live c (c\<lparr>srv := snd (ReapExpired (srv c))\<rparr>)"
| submit: "new_row j \<Longrightarrow> cluster_step live c (c\<lparr>srv := snd (Create fresh j (srv c))\<rparr>)"
| environment: "cluster_step live c (c\<lparr>srv := (srv c)\<lparr>db_now := t, app_now := u, faults := fs\<rparr>\<rparr>)"

inductive cluster_reachable :: "bool \<Rightarrow> config list \<Rightarrow> cluster \<Rightarrow> bool" for live cfgs where
  start: "rows p = [] \<Longrightarrow> cluster_reachable live cfgs \<lparr>pools = map new_pool cfgs, srv = p\<rparr>"
| step: "cluster_reachable live cfgs c \<Longrightarrow> cluster_step live c c' \<Longrightarrow> cluster_reachable live cfgs c'"

section \<open>Bounds\<close>

definition pool_bounded :: "pool \<Rightarrow> bool" where
  "pool_bounded w \<longleftrightarrow> int (length (P_sending w) + length (jobsCh w)) \<le> WorkerConcurrency (P_cfg w) \<and>
     int (length (P_active w)) \<le> WorkerConcurrency (P_cfg w)"

lemma ClaimBatch_Inr:
  assumes "ClaimBatch locked worker lease n p = (Inr jobs, q)" and "0 \<le> n"
  obtains S upd where "jobs = map upd (filter (\<lambda>j. ID j \<in> S) (rows p))"
    and "rows q = update_where (\<lambda>j. ID j \<in> S) upd (rows p)"
    and "S = ID ` set (claim_select locked (db_now p) n (rows p))"
    and "\<And>j. ID (upd j) = ID j \<and> Status (upd j) = StatusProcessing \<and> LockedBy (upd j) = worker"
proof -
  let ?S = "ID ` set (claim_select locked (db_now p) n (rows p))"
  let ?upd = "claim_row (app_now p + lease) worker (db_now p)"
  have "next_fault p = Reply"
    using assms by (auto simp: ClaimBatch_def round_trip_def Let_def split_beta split: fault.splits)
  then have "jobs = map ?upd (filter (\<lambda>j. ID j \<in> ?S) (rows p))"
    and "rows q = update_where (\<lambda>j. ID j \<in> ?S) ?upd (rows p)"
    using assms by (auto simp: ClaimBatch_def round_trip_Reply sql_claim_def Let_def)
  then show thesis by (intro that [of ?upd ?S]) (simp_all add: claim_row_def)
qed

lemma claim_count:
  assumes "distinct (map ID rs)" and "0 \<le> n"
  shows "int (length (filter (\<lambda>j. ID j \<in> ID ` set (claim_select locked now n rs)) rs)) \<le> n"
proof -
  let ?sel = "claim_select locked now n rs"
  have "set (filter (\<lambda>j. ID j \<in> ID ` set ?sel) rs) \<subseteq> set ?sel"
    using claim_hits_due [OF assms(1)] by auto
  then have "card (set (filter (\<lambda>j. ID j \<in> ID ` set ?sel) rs)) \<le> length ?sel"
    by (meson card_length card_mono finite_set order_trans)
  moreover have "distinct (filter (\<lambda>j. ID j \<in> ID ` set ?sel) rs)"
    using assms(1) by (simp add: distinct_map)
  ultimately have "length (filter (\<lambda>j. ID j \<in> ID ` set ?sel) rs) \<le> length ?sel" by (metis distinct_card)
  moreover have "length ?sel \<le> nat n" by (simp add: claim_select_def)
  ultimately show ?thesis using assms(2) by linarith
qed

lemma pool_step_cfg: "pool_step (w, p) (w', q) \<Longrightarrow> P_cfg w' = P_cfg w"
  by (erule pool_stepE) auto

lemma pool_step_bounded:
  assumes "pool_step (w, p) (w', q)" and "pool_bounded w" and "distinct (map ID (rows p))"
  shows "pool_bounded w'"
  using assms(1)
proof cases
  case (claim locked jobs)
  let ?n = "claim_size (P_cfg w) (length (jobsCh w))"
  have "int (length jobs) \<le> ?n"
  proof (rule ClaimBatch_Inr [OF claim(5)])
    show "0 \<le> ?n" using claim(4) by simp
  next
    fix S upd
    assume "jobs = map upd (filter (\<lambda>j. ID j \<in> S) (rows p))"
      and "S = ID ` set (claim_select locked (db_now p) ?n (rows p))"
    then show ?thesis using claim_count [OF assms(3)] claim(4) by simp
  qed
  moreover have "?n \<le> WorkerConcurrency (P_cfg w) - int (length (jobsCh w))"
    by (simp add: claim_size_def Let_def)
  ultimately show ?thesis using assms(2) claim(1) by (simp add: pool_bounded_def)
qed (use assms(2) in \<open>auto simp: pool_bounded_def\<close>)

section \<open>Exclusive holding\<close>

text \<open>The rows in processing, up to leases.\<close>

definition runs :: "job list \<Rightarrow> job set" where
  "runs rs = core ` {r \<in> set rs. Status r = StatusProcessing}"

lemma runs_update: "runs rs - core ` {r \<in> set rs. p r} \<subseteq> runs (update_where p f rs)"
proof
  fix x
  assume "x \<in> runs rs - core ` {r \<in> set rs. p r}"
  then obtain r where "r \<in> set rs" "Status r = StatusProcessing" "core r = x" "\<not> p r" by (auto simp: runs_def)
  then show "x \<in> runs (update_where p f rs)"
    using update_where_mem [of r rs p f] by (auto simp: runs_def)
qed

lemma runs_kept:
  assumes "\<And>r. r \<in> set rs \<Longrightarrow> p r \<Longrightarrow> Status r = StatusProcessing \<Longrightarrow> Status (f r) = StatusProcessing \<and> core (f r) = core r"
  shows "runs rs \<subseteq> runs (update_where p f rs)"
proof
  fix x
  assume "x \<in> runs rs"
  then obtain r where r: "r \<in> set rs" "Status r = StatusProcessing" "core r = x" by (auto simp: runs_def)
  let ?k = "if p r then f r else r"
  have "?k \<in> set (update_where p f rs)" by (rule update_where_mem [OF r(1)])
  moreover have "Status ?k = StatusProcessing" "core ?k = x" using r assms by auto
  ultimately show "x \<in> runs (update_where p f rs)" by (auto simp: runs_def)
qed

lemma runs_owned: "runs rs - {x. ID x = i} \<subseteq> runs (update_where (owned i) f rs)"
  using runs_update [of rs "owned i" f] by (auto simp: owned_def)

lemma ids_update: "(\<And>r. ID (f r) = ID r) \<Longrightarrow> map ID (update_where p f rs) = map ID rs"
  by (rule map_update_where)

text \<open>
  What a step of one replica does to the rows and to what it holds: \<open>fresh\<close> jobs come in, none of them in
  processing before, \<open>gone\<close> jobs leave, and only those may change or stop being in processing.
\<close>

definition step_effect :: "pool \<Rightarrow> job list \<Rightarrow> pool \<Rightarrow> job list \<Rightarrow> bool" where
  "step_effect w rs w' rs' \<longleftrightarrow> map ID rs' = map ID rs \<and>
     (\<exists>fresh gone. mset (held w') + mset gone = mset (held w) + mset fresh \<and> distinct (map ID fresh) \<and>
        ID ` set fresh \<inter> ID ` runs rs = {} \<and> runs rs \<union> set fresh - {x. ID x \<in> ID ` set gone} \<subseteq> runs rs')"

lemma step_effect_keep:
  "mset (held w') = mset (held w) \<Longrightarrow> map ID rs' = map ID rs \<Longrightarrow> runs rs \<subseteq> runs rs' \<Longrightarrow> step_effect w rs w' rs'"
  unfolding step_effect_def by (intro conjI exI [of _ "[]"]) auto

lemma step_effect_drop:
  "mset (held w') + mset gone = mset (held w) \<Longrightarrow> map ID rs' = map ID rs \<Longrightarrow>
    runs rs - {x. ID x \<in> ID ` set gone} \<subseteq> runs rs' \<Longrightarrow> step_effect w rs w' rs'"
  unfolding step_effect_def by (intro conjI exI [of _ "[]"] exI [of _ gone]) auto

text \<open>A claim changes pending rows only.\<close>

lemma claim_runs:
  assumes "distinct (map ID rs)" and "S = ID ` set (claim_select locked now n rs)" and "\<And>j. ID (upd j) = ID j"
  shows "runs rs \<subseteq> runs (update_where (\<lambda>j. ID j \<in> S) upd rs)"
  using claim_hits_due [OF assms(1)] unfolding assms(2) by (intro runs_kept) (auto simp: due_def)

lemma claim_effect:
  assumes "ClaimBatch locked worker lease n p = (Inr jobs, q)" and "0 \<le> n" and "distinct (map ID (rows p))"
  shows "map ID (rows q) = map ID (rows p) \<and> distinct (map ID jobs) \<and> ID ` set jobs \<inter> ID ` runs (rows p) = {} \<and>
    runs (rows p) \<union> core ` set jobs \<subseteq> runs (rows q) \<and> (\<forall>j \<in> set jobs. LockedBy j = worker)"
proof (rule ClaimBatch_Inr [OF assms(1,2)])
  fix S upd
  assume jobs: "jobs = map upd (filter (\<lambda>j. ID j \<in> S) (rows p))"
    and q: "rows q = update_where (\<lambda>j. ID j \<in> S) upd (rows p)"
    and S: "S = ID ` set (claim_select locked (db_now p) n (rows p))"
    and upd: "\<And>j. ID (upd j) = ID j \<and> Status (upd j) = StatusProcessing \<and> LockedBy (upd j) = worker"
  have ids: "map ID jobs = map ID (filter (\<lambda>j. ID j \<in> S) (rows p))" using jobs upd by simp
  have pend: "Status r = StatusPending" if "r \<in> set (rows p)" "ID r \<in> S" for r
    using claim_hits_due [OF assms(3) that(1)] that(2) S by (auto simp: due_def)
  have "runs (rows p) \<subseteq> runs (rows q)"
    unfolding q using claim_runs [OF assms(3) S] upd by blast
  moreover have "core ` set jobs \<subseteq> runs (rows q)"
  proof
    fix x
    assume "x \<in> core ` set jobs"
    then obtain r where r: "r \<in> set (rows p)" "ID r \<in> S" "core (upd r) = x" unfolding jobs by auto
    then show "x \<in> runs (rows q)"
      using update_where_mem [of r "rows p" "\<lambda>j. ID j \<in> S" upd] upd [of r]
      by (auto simp: runs_def q)
  qed
  moreover have "ID ` set jobs \<inter> ID ` runs (rows p) = {}"
  proof -
    have "False" if "r \<in> set (rows p)" "ID r \<in> S" "k \<in> set (rows p)" "Status k = StatusProcessing" "ID r = ID k" for r k
      using distinct_map_eq [OF assms(3) that(1,3,5)] pend [OF that(1,2)] that(4) by simp
    then show ?thesis using upd by (auto simp: jobs runs_def)
  qed
  moreover have "distinct (map ID jobs)" unfolding ids by (rule distinct_map_filter [OF assms(3)])
  moreover have "\<forall>j \<in> set jobs. LockedBy j = worker" using upd by (auto simp: jobs)
  ultimately show ?thesis using q upd by (simp add: ids_update)
qed

lemma releaseQueued_runs:
  "runs (rows p) - {x. ID x \<in> ID ` set queue} \<subseteq> runs (rows (releaseQueued cfg queue p)) \<and>
   map ID (rows (releaseQueued cfg queue p)) = map ID (rows p)"
proof (induction queue arbitrary: p)
  case (Cons k queue)
  let ?q = "snd (Retry (ID k) release_text (MaxAttempts cfg) 0 0 p)"
  let ?f = "retry_row release_text (MaxAttempts cfg) 0 0 (db_now p)"
  have "rows ?q = rows p \<or> rows ?q = update_where (owned (ID k)) ?f (rows p)"
    using round_trip_rows [of "''retry job''" "''retry job''" "sql_retry (ID k) release_text (MaxAttempts cfg) 0 0 (db_now p)" p]
    by (simp add: Retry_def sql_retry_def Let_def)
  then have "runs (rows p) - {x. ID x = ID k} \<subseteq> runs (rows ?q) \<and> map ID (rows ?q) = map ID (rows p)"
    using runs_owned [of "rows p" "ID k" ?f] ids_update [of ?f "owned (ID k)" "rows p"] by auto
  with Cons.IH [of ?q] show ?case by auto
qed simp

lemma heartbeat_runs:
  "runs (rows p) \<subseteq> runs (rows (heartbeat cfg i p)) \<and> map ID (rows (heartbeat cfg i p)) = map ID (rows p)"
proof -
  let ?f = "extend_row (app_now p + WorkerLease cfg) (db_now p)"
  have "rows (heartbeat cfg i p) = rows p \<or> rows (heartbeat cfg i p) = update_where (owned i) ?f (rows p)"
    using exec_one_rows by (simp add: heartbeat_def ExtendLease_def)
  moreover have "runs (rows p) \<subseteq> runs (update_where (owned i) ?f (rows p))"
    by (rule runs_kept) (simp add: extend_row_def core_def)
  ultimately show ?thesis using ids_update [of ?f "owned i" "rows p"] by auto
qed

lemma pool_step_effect:
  assumes "pool_step (w, p) (w', q)" and "distinct (map ID (rows p))"
  shows "step_effect w (rows p) w' (rows q)"
  using assms(1)
proof cases
  case (claim locked jobs)
  have eff: "map ID (rows q) = map ID (rows p) \<and> distinct (map ID jobs) \<and> ID ` set jobs \<inter> ID ` runs (rows p) = {} \<and>
      runs (rows p) \<union> core ` set jobs \<subseteq> runs (rows q) \<and> (\<forall>j \<in> set jobs. LockedBy j = WorkerID (P_cfg w))"
    by (rule claim_effect [OF claim(5) _ assms(2)]) (use claim(4) in simp)
  moreover have "mset (held w') + mset [] = mset (held w) + mset (map core jobs)"
    using claim(1,3) by (simp add: held_def in_hand_def)
  ultimately show ?thesis
    unfolding step_effect_def
    by (intro conjI exI [of _ "map core jobs"] exI [of _ "[]"]) (simp_all add: comp_def image_image)
next
  case (claim_failed locked e)
  let ?n = "claim_size (P_cfg w) (length (jobsCh w))"
  let ?S = "ID ` set (claim_select locked (db_now p) ?n (rows p))"
  let ?upd = "claim_row (app_now p + WorkerLease (P_cfg w)) (WorkerID (P_cfg w)) (db_now p)"
  have "rows q = rows p \<or> rows q = snd (sql_claim locked (app_now p + WorkerLease (P_cfg w)) (WorkerID (P_cfg w)) (db_now p) ?n (rows p))"
    using round_trip_rows claim_failed(5) by (metis ClaimBatch_def snd_conv)
  then have "rows q = rows p \<or> rows q = update_where (\<lambda>j. ID j \<in> ?S) ?upd (rows p)"
    using claim_failed(4) by (simp add: sql_claim_def Let_def)
  moreover have "runs (rows p) \<subseteq> runs (update_where (\<lambda>j. ID j \<in> ?S) ?upd (rows p))"
    by (rule claim_runs [OF assms(2) refl]) (simp add: claim_row_def)
  ultimately have "map ID (rows q) = map ID (rows p) \<and> runs (rows p) \<subseteq> runs (rows q)"
    by (elim disjE) (simp_all add: ids_update claim_row_def)
  with claim_failed(1) show ?thesis by (intro step_effect_keep) auto
next
  case (send j js)
  then show ?thesis by (intro step_effect_keep) (auto simp: held_def in_hand_def)
next
  case abandon
  then show ?thesis
    by (intro step_effect_drop [where gone = "map core (P_sending w)"]) (auto simp: held_def in_hand_def)
next
  case (receive j js)
  then show ?thesis by (intro step_effect_keep) (auto simp: held_def in_hand_def)
next
  case (beat j)
  then show ?thesis using heartbeat_runs by (intro step_effect_keep) auto
next
  case (finish as j bs res took)
  have "runs (rows p) - {x. ID x = ID j} \<subseteq> runs (rows q) \<and> map ID (rows q) = map ID (rows p)"
    using process_rows [of "P_cfg w" j res took p] finish(2)
      runs_owned [of "rows p" "ID j" "settled_row (P_cfg w) res (db_now p)"]
      ids_update [of "settled_row (P_cfg w) res (db_now p)" "owned (ID j)" "rows p"] by auto
  with finish show ?thesis by (intro step_effect_drop [where gone = "[core j]"]) (auto simp: held_def in_hand_def)
next
  case stop
  then show ?thesis by (intro step_effect_keep) (auto simp: held_def in_hand_def)
next
  case release
  then show ?thesis
    using releaseQueued_runs [of p "jobsCh w" "P_cfg w"]
    by (intro step_effect_drop [where gone = "map core (jobsCh w)"]) (auto simp: held_def in_hand_def image_image)
qed

text \<open>What a replica holds it claimed in its own name.\<close>

definition owns_hand :: "pool \<Rightarrow> bool" where
  "owns_hand w \<longleftrightarrow> (\<forall>j \<in> set (in_hand w). LockedBy j = WorkerID (P_cfg w))"

lemma pool_step_owns:
  assumes "pool_step (w, p) (w', q)" and "owns_hand w" and "distinct (map ID (rows p))"
  shows "owns_hand w'"
  using assms(1)
proof cases
  case (claim locked jobs)
  have "\<forall>j \<in> set jobs. LockedBy j = WorkerID (P_cfg w)"
    using claim_effect [OF claim(5) _ assms(3)] claim(4) by simp
  with claim(1) assms(2) show ?thesis by (auto simp: owns_hand_def in_hand_def)
qed (use assms(2) in \<open>auto simp: owns_hand_def in_hand_def\<close>)

section \<open>The cluster\<close>

lemma held_new [simp]: "held (new_pool cfg) = []" "in_hand (new_pool cfg) = []"
  by (simp_all add: held_def in_hand_def new_pool_def)

lemma sql_insert_rows: "snd (sql_insert k rs) = rs \<or> snd (sql_insert k rs) = rs @ [k] \<and> ID k \<notin> ID ` set rs"
  by (auto simp: sql_insert_def unique_violation_def list_ex_iff)

lemma Create_rows:
  "rows (snd (Create fresh j p)) = rows p \<or>
   (\<exists>k. rows (snd (Create fresh j p)) = rows p @ [k] \<and> ID k \<notin> ID ` set (rows p) \<and> Status k = Status j)"
proof -
  let ?k = "(if ID j = '''' then j\<lparr>ID := fresh\<rparr> else j)\<lparr>CreatedAt := app_now p, UpdatedAt := app_now p\<rparr>"
  have "rows (snd (Create fresh j p)) = rows p \<or> rows (snd (Create fresh j p)) = snd (sql_insert ?k (rows p))"
    using round_trip_rows [of "''insert job''" "''insert job''" "sql_insert ?k" p]
    by (auto simp: Create_def Let_def split: prod.splits sum.splits)
  moreover have "Status ?k = Status j" by simp
  moreover have "snd (sql_insert ?k (rows p)) = rows p \<or>
      snd (sql_insert ?k (rows p)) = rows p @ [?k] \<and> ID ?k \<notin> ID ` set (rows p)"
    by (rule sql_insert_rows)
  ultimately show ?thesis by metis
qed

lemma ReapExpired_rows:
  "rows (snd (ReapExpired p)) = rows p \<or>
   rows (snd (ReapExpired p)) = update_where (expired (db_now p)) (reap_row (db_now p)) (rows p)"
  using round_trip_rows [of "''reap expired''" "''reap expired''" "sql_reap (db_now p)" p]
  by (simp add: ReapExpired_def sql_reap_def)

lemma cluster_step_ids:
  assumes "cluster_step live c c'" and "distinct (map ID (rows (srv c)))"
  shows "distinct (map ID (rows (srv c')))"
  using assms(1)
proof cases
  case (replica as w bs w' q)
  then show ?thesis using pool_step_effect [OF replica(3) assms(2)] assms(2) by (simp add: step_effect_def)
next
  case reap
  then show ?thesis
    using ReapExpired_rows [of "srv c"] ids_update [of "reap_row (db_now (srv c))"] assms(2)
    by (auto simp: reap_row_def)
next
  case (submit j fresh)
  then show ?thesis using Create_rows [of fresh j "srv c"] assms(2) by auto
qed (use assms(2) in simp_all)

lemma cluster_step_bounded:
  assumes "cluster_step live c c'" and "distinct (map ID (rows (srv c)))" and "\<forall>w \<in> set (pools c). pool_bounded w"
  shows "\<forall>w \<in> set (pools c'). pool_bounded w"
  using assms(1)
proof cases
  case (replica as w bs w' q)
  then show ?thesis using pool_step_bounded [OF replica(3) _ assms(2)] assms(3) by auto
next
  case (crash as w bs)
  then have "0 \<le> WorkerConcurrency (P_cfg w)" using assms(3) by (fastforce simp: pool_bounded_def)
  then show ?thesis using crash assms(3) by (auto simp: pool_bounded_def new_pool_def)
qed (use assms(3) in simp_all)

lemma cluster_bounded:
  assumes "cluster_reachable live cfgs c" and "\<forall>cfg \<in> set cfgs. valid_config cfg"
  shows "distinct (map ID (rows (srv c))) \<and> (\<forall>w \<in> set (pools c). pool_bounded w)"
  using assms(1)
proof induction
  case (start p)
  then show ?case using assms(2) by (auto simp: pool_bounded_def new_pool_def valid_config_def)
next
  case (step c c')
  then show ?case using cluster_step_ids cluster_step_bounded by blast
qed

lemma cluster_cfgs: "cluster_reachable live cfgs c \<Longrightarrow> map P_cfg (pools c) = cfgs"
proof (induction rule: cluster_reachable.induct)
  case (start p)
  then show ?case by (simp add: comp_def new_pool_def)
next
  case (step c c')
  from step(2) have "map P_cfg (pools c') = map P_cfg (pools c)"
  proof cases
    case (replica as w bs w' q)
    then show ?thesis using pool_step_cfg [OF replica(3)] by simp
  next
    case (crash as w bs)
    then show ?thesis by (simp add: new_pool_def)
  qed simp_all
  with step show ?case by simp
qed

text \<open>
  C22. The memory of a replica is bounded and its poller never waits. However the goroutines of any number
  of replicas interleave, a replica whose configuration validated has at most \<open>WorkerConcurrency\<close> jobs
  in its channel and in the poller's hands together and as many in processing, and whenever the poller
  has jobs to send the channel has room for the next one, so the send never blocks.
\<close>
theorem pool_is_bounded:
  assumes "cluster_reachable live cfgs c" and "\<forall>cfg \<in> set cfgs. valid_config cfg" and "w \<in> set (pools c)"
  shows "P_cfg w \<in> set cfgs \<and> int (length (P_sending w) + length (jobsCh w)) \<le> WorkerConcurrency (P_cfg w) \<and>
    int (length (P_active w)) \<le> WorkerConcurrency (P_cfg w) \<and>
    (P_sending w \<noteq> [] \<longrightarrow> int (length (jobsCh w)) < WorkerConcurrency (P_cfg w))"
proof -
  have "pool_bounded w" using cluster_bounded [OF assms(1,2)] assms(3) by blast
  moreover have "P_cfg w \<in> set cfgs" using cluster_cfgs [OF assms(1)] assms(3) by force
  ultimately show ?thesis by (cases "P_sending w") (auto simp: pool_bounded_def)
qed

definition exclusive :: "cluster \<Rightarrow> bool" where
  "exclusive c \<longleftrightarrow> distinct (map ID (all_held c)) \<and> set (all_held c) \<subseteq> runs (rows (srv c)) \<and> list_all owns_hand (pools c)"

lemma mset_leaves:
  assumes "mset xs + mset gone = mset ys" and "distinct (map f ys)"
  shows "distinct (map f xs) \<and> set xs \<subseteq> set ys - {x. f x \<in> f ` set gone}"
proof -
  have ys: "set ys = set xs \<union> set gone" using assms(1) by (metis set_append set_mset_mset mset_append)
  have "mset (map f (xs @ gone)) = mset (map f ys)" using assms(1) by (metis mset_append mset_map)
  then have "distinct (map f (xs @ gone))" using assms(2) by (metis mset_eq_imp_distinct_iff)
  then have "distinct (map f xs)" "f ` set xs \<inter> f ` set gone = {}" by auto
  with ys show ?thesis by blast
qed

lemma distinct_between:
  "distinct (A @ H @ B) \<Longrightarrow> distinct F \<Longrightarrow> set (A @ H @ B) \<inter> set F = {} \<Longrightarrow> distinct (A @ (H @ F) @ B)"
  by auto

lemma exclusive_replica:
  assumes "exclusive c" and "pools c = as @ w # bs" and "step_effect w (rows (srv c)) w' (rows q)" and "owns_hand w'"
  shows "exclusive (c\<lparr>pools := as @ w' # bs, srv := q\<rparr>)"
proof -
  let ?A = "concat (map held as)" and ?B = "concat (map held bs)"
  obtain fresh gone where eff: "mset (held w') + mset gone = mset (held w) + mset fresh" "distinct (map ID fresh)"
    "ID ` set fresh \<inter> ID ` runs (rows (srv c)) = {}"
    "runs (rows (srv c)) \<union> set fresh - {x. ID x \<in> ID ` set gone} \<subseteq> runs (rows q)"
    using assms(3) by (auto simp: step_effect_def)
  have c: "all_held c = ?A @ held w @ ?B" by (simp add: all_held_def assms(2))
  have sub: "set (?A @ held w @ ?B) \<subseteq> runs (rows (srv c))" and dist: "distinct (map ID (?A @ held w @ ?B))"
    using assms(1) by (auto simp: exclusive_def c)
  have "ID ` set (?A @ held w @ ?B) \<inter> ID ` set fresh = {}" using image_mono [OF sub, of ID] eff(3) by blast
  then have "distinct (map ID (?A @ (held w @ fresh) @ ?B))"
    using distinct_between [of "map ID ?A" "map ID (held w)" "map ID ?B" "map ID fresh"] dist eff(2)
    by (simp only: map_append set_append set_map image_Un)
  moreover have "mset (?A @ held w' @ ?B) + mset gone = mset (?A @ (held w @ fresh) @ ?B)"
    using eff(1) by (simp add: ac_simps)
  ultimately have new: "distinct (map ID (?A @ held w' @ ?B))"
      "set (?A @ held w' @ ?B) \<subseteq> set (?A @ (held w @ fresh) @ ?B) - {x. ID x \<in> ID ` set gone}"
    using mset_leaves [of "?A @ held w' @ ?B" gone "?A @ (held w @ fresh) @ ?B" ID] by blast+
  have "set (?A @ (held w @ fresh) @ ?B) \<subseteq> runs (rows (srv c)) \<union> set fresh" using sub by auto
  then have "set (?A @ held w' @ ?B) \<subseteq> runs (rows q)" using new(2) eff(4) by blast
  with new(1) assms(1,2,4) show ?thesis by (simp add: exclusive_def all_held_def)
qed

lemma cluster_step_exclusive:
  assumes "cluster_step True c c'" and "distinct (map ID (rows (srv c)))" and "exclusive c"
  shows "exclusive c'"
  using assms(1)
proof cases
  case (replica as w bs w' q)
  have "owns_hand w" using assms(3) replica(2) by (simp add: exclusive_def)
  from pool_step_owns [OF replica(3) this assms(2)] replica show ?thesis
    using exclusive_replica [OF assms(3)] pool_step_effect [OF replica(3) assms(2)] by simp
next
  case (crash as w bs)
  have "step_effect w (rows (srv c)) (new_pool (P_cfg w)) (rows (srv c))"
    by (rule step_effect_drop [where gone = "held w"]) auto
  note effect = this
  have "owns_hand (new_pool (P_cfg w))" by (simp add: owns_hand_def)
  from exclusive_replica [OF assms(3) crash(2) effect this] crash(1) show ?thesis by simp
next
  case reap
  let ?E = "{r \<in> set (rows (srv c)). expired (db_now (srv c)) r}"
  have "runs (rows (srv c)) - core ` ?E \<subseteq> runs (rows (snd (ReapExpired (srv c))))"
    using ReapExpired_rows [of "srv c"] runs_update [of "rows (srv c)" "expired (db_now (srv c))" "reap_row (db_now (srv c))"]
    by auto
  moreover have "set (all_held c) \<inter> core ` ?E = {}"
  proof -
    have none: "\<forall>r \<in> ?E. ID r \<notin> ID ` set (all_held c)" using reap(2) by simp
    have "core r \<notin> set (all_held c)" if "r \<in> ?E" for r
    proof
      assume "core r \<in> set (all_held c)"
      then have "ID (core r) \<in> ID ` set (all_held c)" by (rule imageI)
      with none that show False by simp
    qed
    then show ?thesis by blast
  qed
  moreover have "all_held c' = all_held c" by (simp add: reap(1) all_held_def)
  ultimately show ?thesis using assms(3) by (auto simp: reap(1) exclusive_def)
next
  case (submit j fresh)
  have "runs (rows (srv c)) \<subseteq> runs (rows (snd (Create fresh j (srv c))))"
    using Create_rows [of fresh j "srv c"] by (auto simp: runs_def)
  with submit assms(3) show ?thesis by (auto simp: exclusive_def all_held_def)
qed (use assms(3) in \<open>simp add: exclusive_def all_held_def\<close>)

lemma cluster_exclusive:
  assumes "cluster_reachable True cfgs c"
  shows "distinct (map ID (rows (srv c))) \<and> exclusive c"
  using assms
proof induction
  case (start p)
  have "all_held \<lparr>pools = map new_pool cfgs, srv = p\<rparr> = []" by (simp add: all_held_def)
  with start show ?case by (simp add: exclusive_def list_all_iff owns_hand_def)
next
  case (step c c')
  then show ?case using cluster_step_ids cluster_step_exclusive by blast
qed

text \<open>
  C8. No job is in two hands, and every hand holds the row as it is. However the goroutines of all
  replicas, submissions, server faults, process deaths and the reaper interleave, as long as no lease of a
  held job expires: a job that is being sent, queued or processed anywhere is held there once and nowhere
  else; its row is in processing, locked by the replica that holds it; and, up to the lease and the time of the last update,
  the row is what the worker has in hand, payload and attempt number included.
\<close>
theorem job_held_once:
  assumes "cluster_reachable True cfgs c"
  shows "distinct (map ID (concat (map in_hand (pools c)))) \<and>
    (\<forall>w \<in> set (pools c). \<forall>j \<in> set (in_hand w). \<exists>r \<in> set (rows (srv c)).
       ID r = ID j \<and> Status r = StatusProcessing \<and> LockedBy r = WorkerID (P_cfg w) \<and>
       r = j\<lparr>LeaseUntil := LeaseUntil r, UpdatedAt := UpdatedAt r\<rparr>)"
proof -
  have ex: "exclusive c" using cluster_exclusive [OF assms] by blast
  have "map ID (all_held c) = map ID (concat (map in_hand (pools c)))"
    by (simp add: all_held_def held_def map_concat comp_def)
  moreover have "\<exists>r \<in> set (rows (srv c)). ID r = ID j \<and> Status r = StatusProcessing \<and> LockedBy r = WorkerID (P_cfg w) \<and>
      r = j\<lparr>LeaseUntil := LeaseUntil r, UpdatedAt := UpdatedAt r\<rparr>"
    if w: "w \<in> set (pools c)" "j \<in> set (in_hand w)" for w j
  proof -
    have "core j \<in> set (all_held c)" using w by (auto simp: all_held_def held_def)
    then obtain r where r: "r \<in> set (rows (srv c))" "Status r = StatusProcessing" "core r = core j"
      using ex by (auto simp: exclusive_def runs_def)
    have "LockedBy j = WorkerID (P_cfg w)" using ex w by (auto simp: exclusive_def list_all_iff owns_hand_def)
    moreover have "ID r = ID j" "LockedBy r = LockedBy j" using r(3) by (metis core_sel)+
    moreover have "r = j\<lparr>LeaseUntil := LeaseUntil r, UpdatedAt := UpdatedAt r\<rparr>"
      using r(3) by (cases r; cases j) (simp add: core_def)
    ultimately show ?thesis using r by auto
  qed
  ultimately show ?thesis using ex by (simp add: exclusive_def)
qed

section \<open>A run of two replicas\<close>

text \<open>Two replicas with one slot each, two jobs, one claim by each of them.\<close>

definition small_pool_cfg :: config where
  "small_pool_cfg = worker_cfg\<lparr>WorkerConcurrency := 1, WorkerClaimBatch := 1\<rparr>"

definition quiet :: pg where
  "quiet = \<lparr>rows = [], db_now = 5, app_now = 5, faults = []\<rparr>"

definition both_submitted :: cluster where
  "both_submitted = \<lparr>pools = [new_pool small_pool_cfg, new_pool small_pool_cfg],
     srv = snd (Create '''' (sample_job ''b'' 2) (snd (Create '''' (sample_job ''a'' 1) quiet)))\<rparr>"

definition claiming :: "pool \<Rightarrow> pg \<Rightarrow> pool \<times> pg" where
  "claiming w p = (case ClaimBatch (\<lambda>_. False) (WorkerID (P_cfg w)) (WorkerLease (P_cfg w))
       (claim_size (P_cfg w) (length (jobsCh w))) p of
     (Inr jobs, q) \<Rightarrow> (w\<lparr>P_sending := jobs\<rparr>, q) | (Inl e, q) \<Rightarrow> (w, q))"

lemma claiming_step:
  "\<not> P_stopped w \<Longrightarrow> P_sending w = [] \<Longrightarrow> 0 < claim_size (P_cfg w) (length (jobsCh w)) \<Longrightarrow>
    pool_step (w, p) (claiming w p)"
  by (auto simp: claiming_def intro: pool_step.claim pool_step.claim_failed split: prod.split sum.split)

definition both_claimed :: cluster where
  "both_claimed = (case claiming (new_pool small_pool_cfg) (srv both_submitted) of
     (w1, p1) \<Rightarrow> (case claiming (new_pool small_pool_cfg) p1 of (w2, p2) \<Rightarrow> \<lparr>pools = [w1, w2], srv = p2\<rparr>))"

lemma both_submitted_reachable: "cluster_reachable live [small_pool_cfg, small_pool_cfg] both_submitted"
proof -
  let ?w = "new_pool small_pool_cfg"
  have start: "cluster_reachable live [small_pool_cfg, small_pool_cfg] \<lparr>pools = [?w, ?w], srv = quiet\<rparr>"
    using cluster_reachable.start [of quiet live "[small_pool_cfg, small_pool_cfg]"] by (simp add: quiet_def)
  have "cluster_reachable live [small_pool_cfg, small_pool_cfg]
      \<lparr>pools = [?w, ?w], srv = snd (Create '''' (sample_job ''a'' 1) quiet)\<rparr>"
    using cluster_reachable.step [OF start cluster_step.submit [OF sample_new_row]] by simp
  from cluster_reachable.step [OF this cluster_step.submit [OF sample_new_row]]
  show ?thesis by (simp add: both_submitted_def)
qed

lemma small_claiming_step: "pool_step (new_pool small_pool_cfg, p) (claiming (new_pool small_pool_cfg) p)"
proof (rule claiming_step)
  show "0 < claim_size (P_cfg (new_pool small_pool_cfg)) (length (jobsCh (new_pool small_pool_cfg)))" by code_simp
qed (simp_all add: new_pool_def)

lemma both_claimed_reachable: "cluster_reachable live [small_pool_cfg, small_pool_cfg] both_claimed"
proof -
  let ?w = "new_pool small_pool_cfg"
  obtain w1 p1 where c1: "claiming ?w (srv both_submitted) = (w1, p1)" by fastforce
  obtain w2 p2 where c2: "claiming ?w p1 = (w2, p2)" by fastforce
  have "pools both_submitted = [] @ ?w # [?w]" by (simp add: both_submitted_def)
  from cluster_reachable.step [OF both_submitted_reachable cluster_step.replica [OF this small_claiming_step [of "srv both_submitted", unfolded c1]]]
  have one: "cluster_reachable live [small_pool_cfg, small_pool_cfg] \<lparr>pools = [w1] @ ?w # [], srv = p1\<rparr>"
    by (simp add: both_submitted_def)
  from cluster_reachable.step [OF one cluster_step.replica [of _ "[w1]" ?w "[]"]] small_claiming_step [of p1, unfolded c2]
  have "cluster_reachable live [small_pool_cfg, small_pool_cfg] \<lparr>pools = [w1, w2], srv = p2\<rparr>" by simp
  then show ?thesis by (simp add: both_claimed_def c1 c2)
qed

lemma both_claimed_held: "map (map ID) (map in_hand (pools both_claimed)) = [[''a''], [''b'']]"
  by code_simp

text \<open>
  The condition on leases is needed: when the lease of a claimed job runs out before its holder gets to it,
  the reaper gives the job to a second replica, and both hold it.
\<close>

definition first_claimed :: "pool \<times> pg" where
  "first_claimed = claiming (new_pool small_pool_cfg) (srv both_submitted)"

definition lease_over :: pg where
  "lease_over = snd (ReapExpired ((snd first_claimed)\<lparr>db_now := 200000000000, app_now := 200000000000, faults := []\<rparr>))"

definition claimed_again :: "pool \<times> pg" where
  "claimed_again = claiming (new_pool small_pool_cfg) lease_over"

lemma expired_lease_held_twice:
  "\<exists>c. cluster_reachable False [small_pool_cfg, small_pool_cfg] c \<and> map ID (all_held c) = [''a'', ''a'']"
proof -
  let ?w = "new_pool small_pool_cfg" and ?cfgs = "[small_pool_cfg, small_pool_cfg]"
  obtain w1 p1 where c1: "first_claimed = (w1, p1)" by fastforce
  obtain w2 p2 where c2: "claimed_again = (w2, p2)" by fastforce
  have "pool_step (?w, srv both_submitted) (w1, p1)" "pool_step (?w, lease_over) (w2, p2)"
    using small_claiming_step c1 c2 by (metis first_claimed_def claimed_again_def)+
  note steps = this
  have "pools both_submitted = [] @ ?w # [?w]" by (simp add: both_submitted_def)
  from cluster_reachable.step [OF both_submitted_reachable cluster_step.replica [OF this steps(1)]]
  have "cluster_reachable False ?cfgs \<lparr>pools = [w1, ?w], srv = p1\<rparr>" by (simp add: both_submitted_def)
  from cluster_reachable.step [OF this cluster_step.environment [where t = 200000000000 and u = 200000000000 and fs = "[]"]]
  have "cluster_reachable False ?cfgs \<lparr>pools = [w1, ?w], srv = p1\<lparr>db_now := 200000000000, app_now := 200000000000, faults := []\<rparr>\<rparr>"
    by simp
  from cluster_reachable.step [OF this cluster_step.reap]
  have "cluster_reachable False ?cfgs \<lparr>pools = [w1] @ ?w # [], srv = lease_over\<rparr>"
    by (simp add: lease_over_def c1)
  from cluster_reachable.step [OF this cluster_step.replica [of _ "[w1]" ?w "[]"]] steps(2)
  have "cluster_reachable False ?cfgs \<lparr>pools = [w1, w2], srv = p2\<rparr>" by simp
  moreover have "map ID (held (fst first_claimed)) = [''a'']" "map ID (held (fst claimed_again)) = [''a'']" by code_simp+
  ultimately show ?thesis
    by (intro exI [of _ "\<lparr>pools = [w1, w2], srv = p2\<rparr>"]) (simp add: all_held_def c1 c2)
qed

theorem pool_is_bounded_witness:
  "int (length (P_sending (hd (pools both_claimed)))) = 1 \<and>
   int (length (P_sending (hd (pools both_claimed))) + length (jobsCh (hd (pools both_claimed)))) \<le>
     WorkerConcurrency (P_cfg (hd (pools both_claimed)))"
proof -
  have "Validate small_pool_cfg = None" by code_simp
  then have "\<forall>cfg \<in> set [small_pool_cfg, small_pool_cfg]. valid_config cfg" by (simp add: Validate_valid)
  moreover have "hd (pools both_claimed) \<in> set (pools both_claimed)"
    using both_claimed_held by (cases "pools both_claimed") auto
  moreover have "int (length (P_sending (hd (pools both_claimed)))) = 1" by code_simp
  ultimately show ?thesis
    using pool_is_bounded [OF both_claimed_reachable] by blast
qed

theorem job_held_once_witness:
  "map (map ID) (map in_hand (pools both_claimed)) = [[''a''], [''b'']] \<and>
   (\<exists>w j. w \<in> set (pools both_claimed) \<and> in_hand w = [j] \<and> (\<exists>r \<in> set (rows (srv both_claimed)).
      r = j\<lparr>LeaseUntil := LeaseUntil r, UpdatedAt := UpdatedAt r\<rparr>))"
proof -
  obtain w ws where "pools both_claimed = w # ws" using both_claimed_held by (cases "pools both_claimed") auto
  then have "w \<in> set (pools both_claimed)" "map ID (in_hand w) = [''a'']" using both_claimed_held by auto
  then obtain j where j: "w \<in> set (pools both_claimed)" "in_hand w = [j]" by auto
  then have "j \<in> set (in_hand w)" by simp
  with job_held_once [OF both_claimed_reachable] j(1) obtain r where
    "r \<in> set (rows (srv both_claimed))" "r = j\<lparr>LeaseUntil := LeaseUntil r, UpdatedAt := UpdatedAt r\<rparr>" by blast
  with j both_claimed_held show ?thesis by blast
qed

section \<open>The tickers\<close>

text \<open>
  \<open>time.NewTicker\<close> panics unless its interval is positive (\<open>None\<close>). The goroutines of \<open>Start\<close> make one each for the
  poller and the reaper, and every job one for its heartbeat.
\<close>

definition new_ticker :: "duration \<Rightarrow> duration option" where
  "new_ticker d = (if d \<le> 0 then None else Some d)"

definition pollerLoop_ticker :: "config \<Rightarrow> duration option" where
  "pollerLoop_ticker cfg = new_ticker (WorkerPollInterval cfg)"

definition reaperLoop_ticker :: "config \<Rightarrow> duration option" where
  "reaperLoop_ticker cfg = new_ticker (ReaperInterval cfg)"

definition heartbeat_ticker :: "config \<Rightarrow> duration option" where
  "heartbeat_ticker cfg = new_ticker (heartbeat_interval cfg)"

lemma heartbeat_ticker_ok: "heartbeat_ticker cfg \<noteq> None"
  by (simp add: heartbeat_ticker_def new_ticker_def heartbeat_interval_def max_def)

definition zero_env :: environ where
  "zero_env k = (if k = ''DATABASE_URL'' then ''db'' else if k = ''WORKER_POLL_INTERVAL'' then ''0''
     else if k = ''REAPER_INTERVAL'' then ''0'' else '''')"

text \<open>
  A configuration can pass validation and crash the worker at its start. \<open>Validate\<close> compares the lease with
  the poll interval and looks at no other interval: with WORKER_POLL_INTERVAL=0 and
  REAPER_INTERVAL=0 \<open>Load\<close> succeeds in a mode that runs the worker, and the tickers of the poller and the reaper
  panic; the heartbeat's never does, because its interval has a floor.
\<close>
theorem valid_config_can_panic:
  "\<exists>c. Load id None zero_env = Inr c \<and> RunsWorker c \<and> pollerLoop_ticker c = None \<and> reaperLoop_ticker c = None \<and>
     heartbeat_ticker c \<noteq> None"
proof -
  let ?c = "derive_config (env_config id None zero_env)"
  have "Validate ?c = None" "RunsWorker ?c" "WorkerPollInterval ?c = 0" "ReaperInterval ?c = 0" by code_simp+
  then show ?thesis
    by (auto simp: Load_def Let_def pollerLoop_ticker_def reaperLoop_ticker_def new_ticker_def heartbeat_ticker_ok)
qed

end
