(* ===== verification/Server.thy ===== *)
theory Server
  imports Handlers S3Store JobRepo Config "HOL-Library.Sublist"
begin

text \<open>
  \<open>cmd/server/main.go\<close> and \<open>internal/storage/postgres/migrate.go\<close>: what the process does in which order,
  from start to exit. The calls into libraries are parameters (\<open>boot\<close>: how each of them ends), and
  what \<open>run\<close> does is the list of the effects in their order, deferred calls included. Also the readiness
  check it installs.
\<close>

section \<open>The migration\<close>

datatype migrate_event = MigConn | MigLock | MigOpenDB | MigGooseUp | MigCloseDB | MigUnlock | MigRelease

record migration =
  M_acquire :: "goerr option"
  M_lock :: "goerr option"
  M_dialect :: "goerr option"
  M_up :: "goerr option"

definition MigrateSQL :: "migration \<Rightarrow> goerr option \<times> migrate_event list" where
  "MigrateSQL m =
     (case M_dialect m of
        Some e \<Rightarrow> (Some (wrap ''goose dialect'' e), [])
      | None \<Rightarrow> (case M_up m of
                   Some e \<Rightarrow> (Some (wrap ''goose up'' e), [MigGooseUp])
                 | None \<Rightarrow> (None, [MigGooseUp])))"

definition Migrate :: "migration \<Rightarrow> goerr option \<times> migrate_event list" where
  "Migrate m =
     (case M_acquire m of
        Some e \<Rightarrow> (Some (wrap ''acquire migration conn'' e), [])
      | None \<Rightarrow>
          (case M_lock m of
             Some e \<Rightarrow> (Some (wrap ''acquire migration lock'' e), [MigConn, MigRelease])
           | None \<Rightarrow>
               (case MigrateSQL m of
                  (r, es) \<Rightarrow> (r, [MigConn, MigLock, MigOpenDB] @ es @ [MigCloseDB, MigUnlock, MigRelease]))))"

section \<open>The process\<close>

datatype event =
    EvTracing | EvPool | EvMigrate | EvBucket | EvWorkerStart | EvHttpServe
  | EvDraining | EvDrainWait | EvHttpShutdown | EvWorkerStop | EvPoolClose | EvTracingShutdown

text \<open>
  How the calls end: \<open>config.Load\<close>, the tracing setup, the pool, the migration, \<open>s3store.New\<close>,
  \<open>EnsureBucket\<close>; and whether the listener fails (\<open>Some\<close>) or a signal arrives first (\<open>None\<close>).
\<close>

record boot =
  B_config :: "string + config"
  B_tracing :: "goerr option"
  B_pool :: "goerr option"
  B_migration :: migration
  B_store :: "goerr option"
  B_bucket :: "goerr option"
  B_listen :: "goerr option"

definition shutdown :: "config \<Rightarrow> event list" where
  "shutdown cfg =
     [EvDraining, EvDrainWait, EvHttpShutdown] @ (if RunsWorker cfg then [EvWorkerStop] else [])"

definition serve_until :: "config \<Rightarrow> boot \<Rightarrow> goerr option \<times> event list" where
  "serve_until cfg b =
     (let start = (if RunsWorker cfg then [EvWorkerStart] else []) @ [EvHttpServe]
      in case B_listen b of
           Some e \<Rightarrow> (Some (wrap ''http server'' e), start)
         | None \<Rightarrow> (None, start @ shutdown cfg))"

definition with_pool :: "config \<Rightarrow> boot \<Rightarrow> goerr option \<times> event list" where
  "with_pool cfg b =
     (case fst (Migrate (B_migration b)) of
        Some e \<Rightarrow> (Some (wrap ''migrate'' e), [])
      | None \<Rightarrow>
          (if MigrateOnly cfg then (None, [EvMigrate])
           else case B_store b of
             Some e \<Rightarrow> (Some (wrap ''object store'' e), [EvMigrate])
           | None \<Rightarrow>
               (case B_bucket b of
                  Some e \<Rightarrow> (Some (wrap ''ensure bucket'' e), [EvMigrate])
                | None \<Rightarrow> (case serve_until cfg b of (r, es) \<Rightarrow> (r, [EvMigrate, EvBucket] @ es)))))"

text \<open>\<open>defer pool.Close()\<close> and \<open>defer shutdownTracing\<close> run last, in reverse order.\<close>

definition run :: "boot \<Rightarrow> goerr option \<times> event list" where
  "run b =
     (case B_config b of
        Inl e \<Rightarrow> (Some (wrap ''config'' (Opaque e)), [])
      | Inr cfg \<Rightarrow>
          (case B_tracing b of
             Some e \<Rightarrow> (Some (wrap ''tracing'' e), [])
           | None \<Rightarrow>
               (case B_pool b of
                  Some e \<Rightarrow> (Some (wrap ''database'' e), [EvTracing, EvTracingShutdown])
                | None \<Rightarrow>
                    (case with_pool cfg b of
                       (r, es) \<Rightarrow> (r, [EvTracing, EvPool] @ es @ [EvPoolClose, EvTracingShutdown])))))"

text \<open>\<open>main\<close>: the exit status.\<close>

definition main :: "boot \<Rightarrow> int" where
  "main b = (case fst (run b) of None \<Rightarrow> 0 | Some _ \<Rightarrow> 1)"

text \<open>
  How long \<open>shutdown\<close> waits before it stops the listener, and what is then left of its timeout for the requests that
  are running: the drain delay is taken out of \<open>SHUTDOWN_TIMEOUT\<close>.
\<close>

definition drain_wait :: "config \<Rightarrow> duration" where
  "drain_wait cfg = max 0 (min (DrainDelay cfg) (ShutdownTimeout cfg))"

definition http_budget :: "config \<Rightarrow> duration" where
  "http_budget cfg = max 0 (ShutdownTimeout cfg) - drain_wait cfg"

section \<open>Readiness and the migrations directory\<close>

definition ready :: "bool \<Rightarrow> pg \<Rightarrow> 's s3_api \<Rightarrow> 's \<Rightarrow> goerr option" where
  "ready draining p api s =
     (if draining then Some (Opaque ''shutting down'')
      else case fst (Ping p) of
             Some e \<Rightarrow> Some (wrap ''postgres'' e)
           | None \<Rightarrow> (case fst (StorePing api s) of
                        Some e \<Rightarrow> Some (wrap ''object store'' e)
                      | None \<Rightarrow> None))"

text \<open>\<open>os.Stat\<close> and \<open>filepath.Abs\<close> are parameters.\<close>

definition migrationsDir :: "(string \<Rightarrow> string) \<Rightarrow> (string \<Rightarrow> bool) \<Rightarrow> (string \<Rightarrow> string option) \<Rightarrow> string" where
  "migrationsDir env is_dir abs_path =
     (if env ''MIGRATIONS_DIR'' \<noteq> '''' then env ''MIGRATIONS_DIR''
      else case find is_dir [''migrations'', ''/app/migrations''] of
             Some c \<Rightarrow> (case abs_path c of Some a \<Rightarrow> a | None \<Rightarrow> c)
           | None \<Rightarrow> ''migrations'')"

section \<open>Properties\<close>

definition life :: "event list" where
  "life = [EvTracing, EvPool, EvMigrate, EvBucket, EvWorkerStart, EvHttpServe,
           EvDraining, EvDrainWait, EvHttpShutdown, EvWorkerStop, EvPoolClose, EvTracingShutdown]"

lemma run_cases:
  obtains "snd (run b) = []" "fst (run b) \<noteq> None"
  | "snd (run b) = [EvTracing, EvTracingShutdown]" "fst (run b) \<noteq> None"
  | cfg where "B_config b = Inr cfg" "B_tracing b = None" "B_pool b = None"
      "run b = (fst (with_pool cfg b), [EvTracing, EvPool] @ snd (with_pool cfg b) @ [EvPoolClose, EvTracingShutdown])"
  by (cases "B_config b"; cases "B_tracing b"; cases "B_pool b") (auto simp: run_def split_beta)

lemma with_pool_cases:
  obtains "snd (with_pool cfg b) = []" "fst (with_pool cfg b) \<noteq> None"
  | "snd (with_pool cfg b) = [EvMigrate]" "fst (with_pool cfg b) = None \<longrightarrow> MigrateOnly cfg"
  | "with_pool cfg b = (fst (serve_until cfg b), [EvMigrate, EvBucket] @ snd (serve_until cfg b))"
      "\<not> MigrateOnly cfg" "fst (Migrate (B_migration b)) = None"
  by (cases "fst (Migrate (B_migration b))"; cases "B_store b"; cases "B_bucket b"; cases "MigrateOnly cfg")
     (auto simp: with_pool_def split_beta)

text \<open>
  C38. The life of the process. Whatever fails, what it does is a part of one order: tracing, pool,
  migration, bucket, workers, listener, then not ready, the drain delay, the HTTP server, the workers,
  and last the pool and tracing. The pool and tracing are closed if and only if they were opened; nothing
  serves or works before the migration and the bucket; a graceful end closes the server before the workers,
  and both while the pool is still open; only a failing listener leaves started workers without a stop.
\<close>
theorem process_life_is_ordered:
  "subseq (snd (run b)) life \<and>
   (EvPool \<in> set (snd (run b)) \<longleftrightarrow> EvPoolClose \<in> set (snd (run b))) \<and>
   (EvTracing \<in> set (snd (run b)) \<longleftrightarrow> EvTracingShutdown \<in> set (snd (run b))) \<and>
   (EvHttpServe \<in> set (snd (run b)) \<or> EvWorkerStart \<in> set (snd (run b)) \<longrightarrow>
      EvMigrate \<in> set (snd (run b)) \<and> EvBucket \<in> set (snd (run b))) \<and>
   (fst (run b) = None \<and> EvHttpServe \<in> set (snd (run b)) \<longrightarrow>
      {EvDraining, EvDrainWait, EvHttpShutdown} \<subseteq> set (snd (run b)) \<and>
      (EvWorkerStart \<in> set (snd (run b)) \<longleftrightarrow> EvWorkerStop \<in> set (snd (run b)))) \<and>
   (EvWorkerStart \<in> set (snd (run b)) \<and> EvWorkerStop \<notin> set (snd (run b)) \<longrightarrow> B_listen b \<noteq> None)"
proof (cases b rule: run_cases)
  case (3 cfg)
  show ?thesis
  proof (cases rule: with_pool_cases [of cfg b])
    case 3
    with \<open>run b = _\<close> show ?thesis
      by (cases "B_listen b"; cases "RunsWorker cfg") (simp_all add: serve_until_def shutdown_def life_def)
  qed (use \<open>run b = _\<close> in \<open>auto simp: life_def\<close>)
qed (simp_all add: life_def)

definition plain_boot :: boot where
  "plain_boot = \<lparr>B_config = Inr (derive_config (env_config id None (\<lambda>_. ''''))), B_tracing = None, B_pool = None,
     B_migration = \<lparr>M_acquire = None, M_lock = None, M_dialect = None, M_up = None\<rparr>,
     B_store = None, B_bucket = None, B_listen = None\<rparr>"

theorem process_life_is_ordered_witness:
  "snd (run plain_boot) = life \<and> subseq (snd (run plain_boot)) life"
proof -
  have "snd (run plain_boot) = life" by code_simp
  with process_life_is_ordered [of plain_boot] show ?thesis by simp
qed

text \<open>
  The listener, with every route, is started in every mode: nothing but a log line depends on \<open>RunsAPI\<close>.
\<close>

lemma worker_mode_serves:
  assumes "B_config b = Inr cfg" and "B_tracing b = None" and "B_pool b = None" and "fst (Migrate (B_migration b)) = None"
    and "\<not> MigrateOnly cfg" and "B_store b = None" and "B_bucket b = None"
  shows "EvHttpServe \<in> set (snd (run b))"
  using assms by (auto simp: run_def with_pool_def serve_until_def Let_def split: option.splits prod.splits)

text \<open>The advisory lock brackets goose, and both are given back on every path.\<close>

lemma migrate_brackets:
  "subseq (snd (Migrate m)) [MigConn, MigLock, MigOpenDB, MigGooseUp, MigCloseDB, MigUnlock, MigRelease] \<and>
   (MigGooseUp \<in> set (snd (Migrate m)) \<longrightarrow> MigLock \<in> set (snd (Migrate m)) \<and> MigUnlock \<in> set (snd (Migrate m))) \<and>
   (MigConn \<in> set (snd (Migrate m)) \<longleftrightarrow> MigRelease \<in> set (snd (Migrate m)))"
  by (cases "M_acquire m"; cases "M_lock m"; cases "M_dialect m"; cases "M_up m")
     (simp_all add: Migrate_def MigrateSQL_def)

lemma main_status: "main b \<noteq> 0 \<longleftrightarrow> fst (run b) \<noteq> None"
  by (simp add: main_def split: option.split)

lemma http_budget_bounds: "0 \<le> http_budget cfg" "http_budget cfg \<le> max 0 (ShutdownTimeout cfg)"
  by (simp_all add: http_budget_def drain_wait_def)

text \<open>
  Nothing compares the two: a drain delay as long as the timeout passes validation, and the listener is then
  stopped with a context that has ended, so running requests are cut off instead of being waited for.
\<close>

lemma no_time_to_drain: "ShutdownTimeout cfg \<le> DrainDelay cfg \<Longrightarrow> http_budget cfg = 0"
  by (auto simp: http_budget_def drain_wait_def)

definition hasty_env :: environ where
  "hasty_env k = (if k = ''DATABASE_URL'' then ''db'' else if k = ''SHUTDOWN_TIMEOUT'' then ''3s'' else '''')"

lemma parse_3s: "parse_duration ''3s'' = Some 3000000000"
proof -
  have "duration_item ''3s'' = Some (3000000000, [])"
    by (simp add: duration_item_def Let_def is_digit_def digit_val_def digit_or_dot_def has_prefix_def unit_map_def
        digits_val.simps)
  then show ?thesis by (simp add: parse_duration_def duration_items.simps has_prefix_def Let_def)
qed

lemma valid_config_cuts_requests: "\<exists>c. Load id None hasty_env = Inr c \<and> 0 < ShutdownTimeout c \<and> http_budget c = 0"
proof -
  let ?c = "derive_config (env_config id None hasty_env)"
  note env = derive_config_def env_config_def hasty_env_def getenv_def getenv_with_def getenvInt_def getenvInt64_def
    getenvInt32_def getenvDuration_def getenvBool_def ModeAll_def ModeAPI_def ModeWorker_def trim_all lower_all
    second_def i64_id Let_def
  have "valid_config ?c" by (simp add: valid_config_def env)
  moreover have "ShutdownTimeout ?c = 3000000000" "DrainDelay ?c = 3000000000" by (simp_all add: env parse_3s)
  ultimately show ?thesis by (auto simp: Load_def Let_def Validate_valid [symmetric] no_time_to_drain)
qed

lemma ready_iff:
  "ready draining p api s = None \<longleftrightarrow> \<not> draining \<and> fst (Ping p) = None \<and> fst (StorePing api s) = None"
  by (auto simp: ready_def split: option.split)

lemma readyz_status:
  "R_status (Readyz (Some (ready draining p api s))) =
     (if \<not> draining \<and> fst (Ping p) = None \<and> fst (StorePing api s) = None then 200 else 503)"
  using ready_iff [of draining p api s]
  by (cases "ready draining p api s") (auto simp: Readyz_def error_resp_def)

end
