(* ===== verification/Utf8.thy ===== *)
theory Utf8
  imports GoStrings
begin

text \<open>
  UTF-8 as Go's package \<open>unicode/utf8\<close> has it: how many bytes the rune at the front of a byte string
  takes (0: the bytes there are no valid encoding), validity, the encoding of a code point, and
  the replacement of every invalid byte by U+FFFD.
\<close>

section \<open>Runes\<close>

abbreviation byte :: "char \<Rightarrow> nat" where
  "byte c \<equiv> of_char c"

definition in_range :: "nat \<Rightarrow> nat \<Rightarrow> char \<Rightarrow> bool" where
  "in_range lo hi c \<longleftrightarrow> lo \<le> byte c \<and> byte c \<le> hi"

text \<open>The bytes after the first that a sequence starting with \<open>c\<close> needs, each with its range.\<close>

definition tail_ranges :: "char \<Rightarrow> (nat \<times> nat) list option" where
  "tail_ranges c =
     (let n = byte c
      in if n < 0x80 then Some []
         else if 0xC2 \<le> n \<and> n \<le> 0xDF then Some [(0x80, 0xBF)]
         else if n = 0xE0 then Some [(0xA0, 0xBF), (0x80, 0xBF)]
         else if n = 0xED then Some [(0x80, 0x9F), (0x80, 0xBF)]
         else if 0xE1 \<le> n \<and> n \<le> 0xEF then Some [(0x80, 0xBF), (0x80, 0xBF)]
         else if n = 0xF0 then Some [(0x90, 0xBF), (0x80, 0xBF), (0x80, 0xBF)]
         else if 0xF1 \<le> n \<and> n \<le> 0xF3 then Some [(0x80, 0xBF), (0x80, 0xBF), (0x80, 0xBF)]
         else if n = 0xF4 then Some [(0x80, 0x8F), (0x80, 0xBF), (0x80, 0xBF)]
         else None)"

fun in_ranges :: "(nat \<times> nat) list \<Rightarrow> string \<Rightarrow> bool" where
  "in_ranges [] s = True"
| "in_ranges ((lo, hi) # rs) [] = False"
| "in_ranges ((lo, hi) # rs) (c # s) = (in_range lo hi c \<and> in_ranges rs s)"

fun rune_len :: "string \<Rightarrow> nat" where
  "rune_len [] = 0"
| "rune_len (c # s) =
     (case tail_ranges c of None \<Rightarrow> 0 | Some rs \<Rightarrow> if in_ranges rs s then Suc (length rs) else 0)"

lemma in_ranges_append: "in_ranges rs s \<Longrightarrow> in_ranges rs (s @ t)"
  by (induction rs s rule: in_ranges.induct) auto

lemma in_ranges_length: "in_ranges rs s \<Longrightarrow> length rs \<le> length s"
  by (induction rs s rule: in_ranges.induct) auto

lemma in_ranges_take: "in_ranges rs s \<Longrightarrow> in_ranges rs (take (length rs) s)"
  by (induction rs s rule: in_ranges.induct) auto

lemma rune_len_le: "rune_len s \<le> length s"
  by (cases s) (auto dest: in_ranges_length split: option.split)

lemma rune_len_take: "rune_len s = n \<Longrightarrow> n \<noteq> 0 \<Longrightarrow> rune_len (take n s @ t) = n"
  by (cases s) (auto simp: in_ranges_append in_ranges_take split: option.splits if_splits)

lemma rune_len_ascii: "byte c < 0x80 \<Longrightarrow> rune_len (c # s) = 1"
  by (simp add: tail_ranges_def)

section \<open>Validity\<close>

function valid_utf8 :: "string \<Rightarrow> bool" where
  "valid_utf8 s =
     (if s = [] then True
      else if rune_len s = 0 then False
      else valid_utf8 (drop (rune_len s) s))"
  by pat_completeness auto
termination
  by (relation "measure length") auto

declare valid_utf8.simps [simp del]

lemma valid_utf8_Nil [simp]: "valid_utf8 []"
  by (simp add: valid_utf8.simps)

lemma valid_utf8_ascii_Cons: "byte c < 0x80 \<Longrightarrow> valid_utf8 (c # s) = valid_utf8 s"
  by (subst valid_utf8.simps) (simp add: rune_len_ascii del: rune_len.simps)

lemma valid_utf8_ascii: "is_ascii s \<Longrightarrow> valid_utf8 s"
  by (induction s) (auto simp: is_ascii_def valid_utf8_ascii_Cons)

lemma valid_utf8_append: "valid_utf8 s \<Longrightarrow> valid_utf8 (s @ t) = valid_utf8 t"
proof (induction s rule: valid_utf8.induct)
  case (1 s)
  show ?case
  proof (cases "s = []")
    case False
    let ?n = "rune_len s"
    have n: "?n \<noteq> 0" "valid_utf8 (drop ?n s)"
      using "1.prems" False by (simp_all add: valid_utf8.simps [of s] split: if_splits)
    have "?n \<le> length s" by (rule rune_len_le)
    then have "rune_len (s @ t) = ?n" "drop ?n (s @ t) = drop ?n s @ t"
      using rune_len_take [OF refl n(1), of "drop ?n s @ t"] by (simp_all flip: append_assoc)
    moreover have "valid_utf8 (drop ?n s @ t) = valid_utf8 t" using "1.IH" False n by blast
    ultimately show ?thesis using False n(1) by (simp add: valid_utf8.simps [of "s @ t"])
  qed simp
qed

lemma itoa_ascii: "is_ascii (itoa n)"
proof -
  have "is_ascii (nat_digits m)" for m
  proof (induction m rule: nat_digits.induct)
    case (1 m)
    have "m mod 10 < 80" by (rule less_trans [of _ 10]) simp_all
    with 1 show ?case by (subst nat_digits.simps) (simp add: is_ascii_def)
  qed
  then show ?thesis by (simp add: itoa_def is_ascii_def)
qed

definition replacement :: string where
  "replacement = [CHR 0xEF, CHR 0xBF, CHR 0xBD]"

text \<open>\<open>strings.ToValidUTF8\<close>, an invalid byte at a time: what a decoder of runes makes of a string.\<close>

function to_valid :: "string \<Rightarrow> string" where
  "to_valid s =
     (if s = [] then []
      else if rune_len s = 0 then replacement @ to_valid (tl s)
      else take (rune_len s) s @ to_valid (drop (rune_len s) s))"
  by pat_completeness auto
termination
  by (relation "measure length") auto

declare to_valid.simps [simp del]

lemma to_valid_id: "valid_utf8 s \<Longrightarrow> to_valid s = s"
proof (induction s rule: valid_utf8.induct)
  case (1 s)
  show ?case
  proof (cases "s = []")
    case True
    then show ?thesis by (simp add: to_valid.simps)
  next
    case False
    with "1.prems" have "rune_len s \<noteq> 0" "valid_utf8 (drop (rune_len s) s)"
      by (simp_all add: valid_utf8.simps [of s] split: if_splits)
    with "1.IH" False have "to_valid (drop (rune_len s) s) = drop (rune_len s) s" by blast
    with False \<open>rune_len s \<noteq> 0\<close> show ?thesis by (simp add: to_valid.simps [of s])
  qed
qed

section \<open>Encoding a code point\<close>

text \<open>\<open>utf8.EncodeRune\<close>: surrogates and values out of range become U+FFFD.\<close>

definition encode_rune :: "nat \<Rightarrow> string" where
  "encode_rune r =
     (if r < 0x80 then [char_of r]
      else if r < 0x800 then [char_of (0xC0 + r div 64), char_of (0x80 + r mod 64)]
      else if 0xD800 \<le> r \<and> r \<le> 0xDFFF \<or> 0x10FFFF < r then replacement
      else if r < 0x10000
      then [char_of (0xE0 + r div 4096), char_of (0x80 + r div 64 mod 64), char_of (0x80 + r mod 64)]
      else [char_of (0xF0 + r div 262144), char_of (0x80 + r div 4096 mod 64),
            char_of (0x80 + r div 64 mod 64), char_of (0x80 + r mod 64)])"

lemma encode_rune_ascii: "byte c < 0x80 \<Longrightarrow> encode_rune (byte c) = [c]"
  by (simp add: encode_rune_def)

end
