(* ===== verification/Telemetry.thy ===== *)
theory Telemetry
  imports Utf8 Config JobRepo
begin

text \<open>
  \<open>internal/observability/observability.go\<close> and \<open>internal/buildinfo\<close>. The Prometheus client is a
  library: the model records the calls the code makes to it, as samples with their label values, and what the
  library demands of a registration and of a call (it panics otherwise). Also the log level and the
  stamp of the trace on log records, the set-up of tracing on each of its paths, and the gauge loop.
\<close>

section \<open>Build information\<close>

text \<open>The two variables the linker may set.\<close>

record buildinfo =
  Version :: string
  Commit :: string

definition default_build :: buildinfo where
  "default_build = \<lparr>Version = ''dev'', Commit = ''none''\<rparr>"

section \<open>The collectors\<close>

datatype metric =
    HTTPRequests | HTTPDuration | HTTPResponseBytes
  | UploadsInFlight | UploadsRejected | JobsClaimed | JobsRetried | JobsReaped | ProcessorErrors
  | JobDuration | PendingJobs | S3MultipartParts | S3UploadBytes | S3UploadDuration | BuildInfo

text \<open>Bucket bounds are given in thousandths of the unit.\<close>

datatype metric_kind = Counter | Gauge | Histogram "int list"

record opts =
  O_name :: string
  O_kind :: metric_kind
  O_labels :: "string list"

definition exponential_buckets :: "int \<Rightarrow> int \<Rightarrow> nat \<Rightarrow> int list" where
  "exponential_buckets start factor count = map (\<lambda>i. start * factor ^ i) [0..<count]"

fun metric_opts :: "metric \<Rightarrow> opts" where
  "metric_opts HTTPRequests =
     \<lparr>O_name = ''payload_http_requests_total'', O_kind = Counter, O_labels = [''method'', ''route'', ''status'']\<rparr>"
| "metric_opts HTTPDuration =
     \<lparr>O_name = ''payload_http_request_duration_seconds'',
      O_kind = Histogram [5, 10, 25, 50, 100, 250, 500, 1000, 2500, 5000, 10000, 30000, 60000],
      O_labels = [''method'', ''route'']\<rparr>"
| "metric_opts HTTPResponseBytes =
     \<lparr>O_name = ''payload_http_response_bytes'', O_kind = Histogram (exponential_buckets 128000 4 8),
      O_labels = [''method'', ''route'']\<rparr>"
| "metric_opts UploadsInFlight = \<lparr>O_name = ''payload_uploads_in_flight'', O_kind = Gauge, O_labels = []\<rparr>"
| "metric_opts UploadsRejected = \<lparr>O_name = ''payload_uploads_rejected_total'', O_kind = Counter, O_labels = []\<rparr>"
| "metric_opts JobsClaimed = \<lparr>O_name = ''payload_jobs_claimed_total'', O_kind = Counter, O_labels = []\<rparr>"
| "metric_opts JobsRetried = \<lparr>O_name = ''payload_jobs_retried_total'', O_kind = Counter, O_labels = []\<rparr>"
| "metric_opts JobsReaped = \<lparr>O_name = ''payload_jobs_reaped_total'', O_kind = Counter, O_labels = []\<rparr>"
| "metric_opts ProcessorErrors = \<lparr>O_name = ''payload_processor_errors_total'', O_kind = Counter, O_labels = []\<rparr>"
| "metric_opts JobDuration =
     \<lparr>O_name = ''payload_job_process_duration_seconds'',
      O_kind = Histogram [50, 100, 250, 500, 1000, 2500, 5000, 10000, 30000, 60000, 120000, 300000],
      O_labels = [''status'']\<rparr>"
| "metric_opts PendingJobs = \<lparr>O_name = ''payload_jobs_pending'', O_kind = Gauge, O_labels = []\<rparr>"
| "metric_opts S3MultipartParts = \<lparr>O_name = ''payload_s3_multipart_parts_total'', O_kind = Counter, O_labels = []\<rparr>"
| "metric_opts S3UploadBytes = \<lparr>O_name = ''payload_s3_upload_bytes_total'', O_kind = Counter, O_labels = []\<rparr>"
| "metric_opts S3UploadDuration =
     \<lparr>O_name = ''payload_s3_upload_duration_seconds'',
      O_kind = Histogram [10, 50, 100, 250, 500, 1000, 2500, 5000, 10000, 30000, 60000, 120000],
      O_labels = [''mode'', ''result'']\<rparr>"
| "metric_opts BuildInfo =
     \<lparr>O_name = ''payload_build_info'', O_kind = Gauge, O_labels = [''version'', ''commit'', ''mode'']\<rparr>"

definition all_metrics :: "metric list" where
  "all_metrics =
     [HTTPRequests, HTTPDuration, HTTPResponseBytes, UploadsInFlight, UploadsRejected, JobsClaimed, JobsRetried,
      JobsReaped, ProcessorErrors, JobDuration, PendingJobs, S3MultipartParts, S3UploadBytes, S3UploadDuration,
      BuildInfo]"

section \<open>What the library demands\<close>

text \<open>
  \<open>promauto\<close> panics when a registration fails: names must be well formed and unique; label names well
  formed, distinct, not reserved; the buckets of a histogram strictly increasing, without the label \<open>le\<close>.
\<close>

definition name_char :: "bool \<Rightarrow> char \<Rightarrow> bool" where
  "name_char first c \<longleftrightarrow> (let n = byte c in 97 \<le> n \<and> n \<le> 122 \<or> 65 \<le> n \<and> n \<le> 90 \<or> c = CHR ''_'' \<or>
     (\<not> first \<and> 48 \<le> n \<and> n \<le> 57))"

definition name_ok :: "string \<Rightarrow> bool" where
  "name_ok s \<longleftrightarrow> (case s of [] \<Rightarrow> False | c # t \<Rightarrow> name_char True c \<and> list_all (name_char False) t)"

fun kind_ok :: "metric_kind \<Rightarrow> string list \<Rightarrow> bool" where
  "kind_ok (Histogram bs) ls = (sorted_wrt (<) bs \<and> ''le'' \<notin> set ls)"
| "kind_ok _ ls = True"

definition opts_ok :: "opts \<Rightarrow> bool" where
  "opts_ok opt \<longleftrightarrow> name_ok (O_name opt) \<and> list_all (\<lambda>l. name_ok l \<and> \<not> has_prefix ''__'' l) (O_labels opt) \<and>
     distinct (O_labels opt) \<and> kind_ok (O_kind opt) (O_labels opt)"

definition registers :: "opts list \<Rightarrow> bool" where
  "registers os \<longleftrightarrow> list_all opts_ok os \<and> distinct (map O_name os)"

text \<open>The calls on a collector. Amounts are whole counts, or durations in nanoseconds.\<close>

datatype sample =
    Inc metric "string list"
  | Dec metric "string list"
  | Add metric "string list" int
  | Observe metric "string list" int
  | SetTo metric "string list" int

text \<open>
  \<open>WithLabelValues\<close> panics unless there is a value of valid UTF-8 for every label, and a counter panics
  when it is given a negative amount.
\<close>

definition labels_ok :: "metric \<Rightarrow> string list \<Rightarrow> bool" where
  "labels_ok m vs \<longleftrightarrow> length vs = length (O_labels (metric_opts m)) \<and> list_all valid_utf8 vs"

fun sample_ok :: "sample \<Rightarrow> bool" where
  "sample_ok (Inc m vs) = (labels_ok m vs \<and> O_kind (metric_opts m) \<in> {Counter, Gauge})"
| "sample_ok (Dec m vs) = (labels_ok m vs \<and> O_kind (metric_opts m) = Gauge)"
| "sample_ok (Add m vs n) = (labels_ok m vs \<and> (O_kind (metric_opts m) = Gauge \<or> O_kind (metric_opts m) = Counter \<and> 0 \<le> n))"
| "sample_ok (Observe m vs n) = (labels_ok m vs \<and> (\<exists>bs. O_kind (metric_opts m) = Histogram bs))"
| "sample_ok (SetTo m vs n) = (labels_ok m vs \<and> O_kind (metric_opts m) = Gauge)"

text \<open>The value of a counter after a sequence of calls.\<close>

fun sample_amount :: "metric \<Rightarrow> string list \<Rightarrow> sample \<Rightarrow> int" where
  "sample_amount m vs (Inc m' ws) = (if m' = m \<and> ws = vs then 1 else 0)"
| "sample_amount m vs (Dec m' ws) = (if m' = m \<and> ws = vs then - 1 else 0)"
| "sample_amount m vs (Add m' ws n) = (if m' = m \<and> ws = vs then n else 0)"
| "sample_amount m vs _ = 0"

definition counted :: "metric \<Rightarrow> string list \<Rightarrow> sample list \<Rightarrow> int" where
  "counted m vs ss = sum_list (map (sample_amount m vs) ss)"

lemma counted_simps [simp]:
  "counted m vs [] = 0" "counted m vs (s # ss) = sample_amount m vs s + counted m vs ss"
  "counted m vs (ss @ ss') = counted m vs ss + counted m vs ss'"
  by (simp_all add: counted_def)

text \<open>The label vectors a collector has series for: each is a series the process keeps for ever.\<close>

fun sample_series :: "sample \<Rightarrow> metric \<times> string list" where
  "sample_series (Inc m vs) = (m, vs)" | "sample_series (Dec m vs) = (m, vs)"
| "sample_series (Add m vs n) = (m, vs)" | "sample_series (Observe m vs n) = (m, vs)"
| "sample_series (SetTo m vs n) = (m, vs)"

section \<open>The helpers\<close>

definition SetBuildInfo :: "buildinfo \<Rightarrow> string \<Rightarrow> sample list" where
  "SetBuildInfo b mode = [SetTo BuildInfo [Version b, Commit b, mode] 1]"

definition ObserveJobDuration :: "string \<Rightarrow> duration \<Rightarrow> sample list" where
  "ObserveJobDuration st d = [Observe JobDuration [st] d]"

definition ObserveS3Upload :: "string \<Rightarrow> duration \<Rightarrow> bool \<Rightarrow> sample list" where
  "ObserveS3Upload mode d ok = [Observe S3UploadDuration [mode, if ok then ''ok'' else ''error''] d]"

section \<open>Logging\<close>

text \<open>
  \<open>slog.Level.UnmarshalText\<close>: a name in any case, with an optional signed offset. \<open>uni\<close> is the Unicode
  part of \<open>strings.ToUpper\<close>.
\<close>

definition to_upper :: "(string \<Rightarrow> string) \<Rightarrow> string \<Rightarrow> string" where
  "to_upper uni s =
     (if is_ascii s then map (\<lambda>c. if 97 \<le> byte c \<and> byte c \<le> 122 then char_of (byte c - 32) else c) s else uni s)"

definition level_names :: "(string \<times> int) list" where
  "level_names = [(''DEBUG'', - 4), (''INFO'', 0), (''WARN'', 4), (''ERROR'', 8)]"

definition level_info :: int where "level_info = 0"

definition parse_level :: "(string \<Rightarrow> string) \<Rightarrow> string \<Rightarrow> int option" where
  "parse_level uni s =
     (let sign = (\<lambda>c. c = CHR ''+'' \<or> c = CHR ''-''); name = takeWhile (\<lambda>c. \<not> sign c) s;
          rest = dropWhile (\<lambda>c. \<not> sign c) s
      in case (if rest = [] then Some 0 else parse_int rest, map_of level_names (to_upper uni name)) of
           (Some off, Some l) \<Rightarrow> Some (i64 (l + off))
         | _ \<Rightarrow> None)"

text \<open>
  A logger is its level and the steps it was derived by, in order; \<open>traceHandler\<close> wraps the JSON handler
  at every step. The span of the context is its two ids, when it is valid.
\<close>

type_synonym attrs = "(string \<times> string) list"

datatype log_step = WithAttrs attrs | WithGroup string

record logger =
  L_level :: int
  L_steps :: "log_step list"

record log_record =
  Rec_level :: int
  Rec_msg :: string
  Rec_attrs :: attrs

definition NewLogger :: "(string \<Rightarrow> string) \<Rightarrow> string \<Rightarrow> logger" where
  "NewLogger uni level =
     \<lparr>L_level = (case parse_level uni level of None \<Rightarrow> level_info | Some l \<Rightarrow> l), L_steps = []\<rparr>"

definition derive :: "log_step \<Rightarrow> logger \<Rightarrow> logger" where
  "derive st h = h\<lparr>L_steps := L_steps h @ [st]\<rparr>"

text \<open>Where the JSON handler puts attributes: under the groups opened before them.\<close>

fun place :: "string list \<Rightarrow> log_step list \<Rightarrow> attrs \<Rightarrow> (string list \<times> string) list" where
  "place path [] as = map (\<lambda>(k, v). (path @ [k], v)) as"
| "place path (WithAttrs bs # st) as = map (\<lambda>(k, v). (path @ [k], v)) bs @ place path st as"
| "place path (WithGroup g # st) as = place (if g = '''' then path else path @ [g]) st as"

text \<open>\<open>traceHandler.Handle\<close>, then the JSON handler; a record below the level is not emitted.\<close>

definition stamp :: "(string \<times> string) option \<Rightarrow> log_record \<Rightarrow> log_record" where
  "stamp span r =
     (case span of None \<Rightarrow> r
      | Some (traceID, spanID) \<Rightarrow> r\<lparr>Rec_attrs := Rec_attrs r @ [(''trace_id'', traceID), (''span_id'', spanID)]\<rparr>)"

definition log_out :: "logger \<Rightarrow> (string \<times> string) option \<Rightarrow> log_record \<Rightarrow> (string list \<times> string) list option" where
  "log_out h span r =
     (if Rec_level r < L_level h then None else Some (place [] (L_steps h) (Rec_attrs (stamp span r))))"

fun groups :: "log_step list \<Rightarrow> string list" where
  "groups [] = []"
| "groups (WithAttrs as # st) = groups st"
| "groups (WithGroup g # st) = (if g = '''' then groups st else g # groups st)"

lemma place_stamp: "place path st (as @ [(''trace_id'', t), (''span_id'', s)]) =
    place path st as @ [(path @ groups st @ [''trace_id''], t), (path @ groups st @ [''span_id''], s)]"
  by (induction st arbitrary: path rule: groups.induct) auto

text \<open>
  Whatever loggers are derived, every record that is emitted with a span ends with its trace id, which is
  at the top level as long as no group is open.
\<close>

lemma log_stamped:
  assumes "log_out h (Some (t, s)) r = Some out"
  shows "last (butlast out) = (groups (L_steps h) @ [''trace_id''], t) \<and> last out = (groups (L_steps h) @ [''span_id''], s)"
  using assms by (auto simp: log_out_def stamp_def place_stamp butlast_append split: if_splits)

section \<open>Tracing\<close>

text \<open>
  The global state of the OpenTelemetry library as the set-up leaves it: the propagators and the provider,
  with its resource and, when there is an endpoint, its exporter.
\<close>

record resource =
  Res_service :: string
  Res_version :: string
  Res_environment :: string

datatype provider = NoExport resource | Batching string bool resource

record otel =
  Propagators :: "string list"
  TracerProvider :: "provider option"

text \<open>\<open>res_err\<close> and \<open>exp_err\<close> are the errors of \<open>resource.New\<close> and \<open>otlptracehttp.New\<close>.\<close>

definition SetupTracingFor ::
  "buildinfo \<Rightarrow> goerr option \<Rightarrow> goerr option \<Rightarrow> string \<Rightarrow> string \<Rightarrow> string \<Rightarrow> bool \<Rightarrow> otel \<Rightarrow> goerr option \<times> otel" where
  "SetupTracingFor b res_err exp_err serviceName environment endpoint insecure otel0 =
     (let t = otel0\<lparr>Propagators := [''tracecontext'', ''baggage'']\<rparr>;
          res = \<lparr>Res_service = serviceName, Res_version = Version b, Res_environment = environment\<rparr>
      in case res_err of
           Some e \<Rightarrow> (Some (wrap ''otel resource'' e), t)
         | None \<Rightarrow>
             (if endpoint = '''' then (None, t\<lparr>TracerProvider := Some (NoExport res)\<rparr>)
              else case exp_err of
                     Some e \<Rightarrow> (Some (wrap ''otlp exporter'' e), t)
                   | None \<Rightarrow> (None, t\<lparr>TracerProvider := Some (Batching endpoint insecure res)\<rparr>)))"

definition SetupTracing :: "buildinfo \<Rightarrow> goerr option \<Rightarrow> goerr option \<Rightarrow> config \<Rightarrow> otel \<Rightarrow> goerr option \<times> otel" where
  "SetupTracing b res_err exp_err cfg =
     SetupTracingFor b res_err exp_err (ServiceName cfg) (AppMode cfg) (OTelEndpoint cfg) (OTelInsecure cfg)"

text \<open>No endpoint, no exporter: the set-up can then fail only with the resource, and changes no provider when it fails.\<close>

lemma SetupTracingFor_outcome:
  "fst (SetupTracingFor b re ee n e ep ins t) = None \<longleftrightarrow> re = None \<and> (ep = '''' \<or> ee = None)"
  "fst (SetupTracingFor b re ee n e ep ins t) \<noteq> None \<Longrightarrow> TracerProvider (snd (SetupTracingFor b re ee n e ep ins t)) = TracerProvider t"
  "Propagators (snd (SetupTracingFor b re ee n e ep ins t)) = [''tracecontext'', ''baggage'']"
  by (auto simp: SetupTracingFor_def Let_def split: option.split if_splits)

section \<open>The gauge of the queue\<close>

text \<open>
  The loop of \<open>StartPendingGauge\<close> over its ticks until the context ends: each tick counts, an error leaves
  the gauge alone. Between ticks the server goes on: \<open>tick\<close> is the server at each tick.
\<close>

fun StartPendingGauge :: "('p \<Rightarrow> (goerr + nat) \<times> 'p) \<Rightarrow> 'p list \<Rightarrow> sample list" where
  "StartPendingGauge countFn [] = []"
| "StartPendingGauge countFn (p # ticks) =
     (case fst (countFn p) of
        Inl e \<Rightarrow> StartPendingGauge countFn ticks
      | Inr n \<Rightarrow> SetTo PendingJobs [] (int n) # StartPendingGauge countFn ticks)"

text \<open>The gauge shows the number of pending rows at the last tick whose count came through.\<close>

lemma StartPendingGauge_append:
  "StartPendingGauge f (ps @ qs) = StartPendingGauge f ps @ StartPendingGauge f qs"
  by (induction ps) (auto split: sum.split)

lemma pending_gauge_value:
  assumes "next_fault p = Reply" and "\<forall>q \<in> set qs. next_fault q \<noteq> Reply"
  shows "last (StartPendingGauge (CountByStatus StatusPending) (ps @ p # qs)) =
    SetTo PendingJobs [] (int (length (filter (\<lambda>j. Status j = StatusPending) (rows p))))"
proof -
  have "\<exists>e. fst (CountByStatus StatusPending q) = Inl e" if "q \<in> set qs" for q
    using assms(2) that by (cases "next_fault q") (auto simp: CountByStatus_def round_trip_def Let_def split_beta)
  then have "StartPendingGauge (CountByStatus StatusPending) qs = []" by (induction qs) force+
  moreover have "fst (CountByStatus StatusPending p) = Inr (affected (\<lambda>j. Status j = StatusPending) (rows p))"
    using assms(1) by (simp add: CountByStatus_def round_trip_def Let_def split_beta)
  ultimately show ?thesis by (simp add: StartPendingGauge_append affected_def)
qed

section \<open>Registration\<close>

lemma all_metrics_UNIV: "set all_metrics = UNIV"
proof -
  have "m \<in> set all_metrics" for m by (cases m) (simp_all add: all_metrics_def)
  then show ?thesis by auto
qed

lemma all_metrics_register: "registers (map metric_opts all_metrics)"
  by code_simp

end
