(* ===== verification/Uploads.thy ===== *)
theory Uploads
  imports S3Upload Handlers Telemetry
begin

text \<open>
  The upload slots of \<open>handlers.go\<close> under concurrent requests: a request tries for a slot, waits for one,
  is shed or goes away, and holds its slot while the store buffers and streams the body, the goroutines
  of its upload moving one step at a time. The gauge and the counter are raised and lowered between the
  steps, as the code does it. \<open>acquireUploadSlot\<close> of theory Handlers is what one request sees of this.
\<close>

section \<open>One request\<close>

text \<open>
  Where a request stands. \<open>Granted\<close>: it has a slot and has not yet raised the gauge. \<open>Buffering\<close>: \<open>putAuto\<close> has its
  first buffer. \<open>Ended\<close>: the store has returned. \<open>Released\<close>: the slot is given back and the gauge not yet
  lowered. \<open>Gone\<close>: the handler has returned from \<open>attachFile\<close>, with the error of \<open>acquireUploadSlot\<close> if that failed.
\<close>

datatype 's phase =
    Trying | Waiting | Granted | Buffering | Streaming string string "'s pipe" | Ended | Released
  | Gone "goerr option"

inductive request_step ::
  "'s s3_api \<Rightarrow> config \<Rightarrow> 's phase \<times> nat \<times> sample list \<Rightarrow> 's phase \<times> nat \<times> sample list \<Rightarrow> bool" for api cfg where
  enter: "used < newHandlerSlots cfg \<Longrightarrow> request_step api cfg (Trying, used, ss) (Granted, Suc used, ss)"
| full: "\<not> used < newHandlerSlots cfg \<Longrightarrow> request_step api cfg (Trying, used, ss) (Waiting, used, ss)"
| wake: "used < newHandlerSlots cfg \<Longrightarrow> request_step api cfg (Waiting, used, ss) (Granted, Suc used, ss)"
| hang_up: "e \<in> {Canceled, DeadlineExceeded} \<Longrightarrow>
    request_step api cfg (Waiting, used, ss) (Gone (Some (Sentinel e)), used, ss)"
| shed: "request_step api cfg (Waiting, used, ss)
    (Gone (Some (Sentinel ErrTooManyUploads)), used, ss @ [Inc UploadsRejected []])"
| count: "request_step api cfg (Granted, used, ss) (Buffering, used, ss @ [Inc UploadsInFlight []])"
| single: "request_step api cfg (Buffering, used, ss) (Ended, used, ss)"
| stream: "request_step api cfg (Buffering, used, ss)
    (Streaming key uid (pipe_init (New cfg) (Some d) body s), used, ss)"
| move: "pipe_step api key uid (New cfg) m p = Some q \<Longrightarrow>
    request_step api cfg (Streaming key uid p, used, ss) (Streaming key uid q, used, ss)"
| service: "request_step api cfg (Streaming key uid p, used, ss) (Streaming key uid (p\<lparr>s3 := s\<rparr>), used, ss)"
| finish: "pipe_done p \<Longrightarrow> request_step api cfg (Streaming key uid p, used, ss) (Ended, used, ss)"
| give_back: "request_step api cfg (Ended, Suc used, ss) (Released, used, ss)"
| uncount: "request_step api cfg (Released, used, ss) (Gone None, used, ss @ [Dec UploadsInFlight []])"

inductive_cases request_stepE: "request_step api cfg (x, used, ss) (y, used', ss')"

section \<open>All of them\<close>

record 's uploads =
  phases :: "'s phase list"
  slots_used :: nat
  up_samples :: "sample list"

inductive uploads_step :: "'s s3_api \<Rightarrow> config \<Rightarrow> 's uploads \<Rightarrow> 's uploads \<Rightarrow> bool" for api cfg where
  arrive: "uploads_step api cfg u (u\<lparr>phases := phases u @ [Trying]\<rparr>)"
| act: "phases u = as @ x # bs \<Longrightarrow> request_step api cfg (x, slots_used u, up_samples u) (y, used, ss) \<Longrightarrow>
    uploads_step api cfg u \<lparr>phases = as @ y # bs, slots_used = used, up_samples = ss\<rparr>"

inductive uploads_reachable :: "'s s3_api \<Rightarrow> config \<Rightarrow> 's uploads \<Rightarrow> bool" for api cfg where
  start: "uploads_reachable api cfg \<lparr>phases = [], slots_used = 0, up_samples = []\<rparr>"
| step: "uploads_reachable api cfg u \<Longrightarrow> uploads_step api cfg u v \<Longrightarrow> uploads_reachable api cfg v"

section \<open>Slots, gauge and buffers\<close>

fun holds_slot :: "'s phase \<Rightarrow> nat" where
  "holds_slot Granted = 1"
| "holds_slot Buffering = 1"
| "holds_slot (Streaming _ _ _) = 1"
| "holds_slot Ended = 1"
| "holds_slot _ = 0"

fun in_gauge :: "'s phase \<Rightarrow> int" where
  "in_gauge Buffering = 1"
| "in_gauge (Streaming _ _ _) = 1"
| "in_gauge Ended = 1"
| "in_gauge Released = 1"
| "in_gauge _ = 0"

definition was_shed :: "'s phase \<Rightarrow> int" where
  "was_shed x = (if x = Gone (Some (Sentinel ErrTooManyUploads)) then 1 else 0)"

fun phase_buffers :: "'s phase \<Rightarrow> nat" where
  "phase_buffers Buffering = 1"
| "phase_buffers (Streaming _ _ p) = buffers_held p"
| "phase_buffers _ = 0"

fun phase_ok :: "config \<Rightarrow> 's phase \<Rightarrow> bool" where
  "phase_ok cfg (Streaming _ _ p) = shape_ok (New cfg) p"
| "phase_ok cfg _ = True"

text \<open>What one step of a request changes is what its phase accounts for.\<close>

lemma request_step_account:
  assumes "request_step api cfg (x, used, ss) (y, used', ss')" and "phase_ok cfg x" and "1 \<le> S3PartConcurrency cfg"
  shows "used' + holds_slot x = used + holds_slot y \<and> (used' \<le> used \<or> used' \<le> newHandlerSlots cfg) \<and>
    counted UploadsInFlight [] ss' - in_gauge y = counted UploadsInFlight [] ss - in_gauge x \<and>
    counted UploadsRejected [] ss' - was_shed y = counted UploadsRejected [] ss - was_shed x \<and>
    phase_ok cfg y"
  using assms(1)
proof cases
  case (stream key uid d body s)
  have "1 \<le> partConcurrency (New cfg)" using assms(3) by (simp add: New_def)
  from shape_init [OF this] stream show ?thesis by (simp add: was_shed_def)
next
  case (move key uid m p q)
  then show ?thesis using assms(2) pipe_step_shape by (auto simp: was_shed_def)
next
  case (service key uid p s)
  then show ?thesis using assms(2) by (simp add: was_shed_def shape_ok_def)
qed (auto simp: was_shed_def)

definition uploads_ok :: "config \<Rightarrow> 's uploads \<Rightarrow> bool" where
  "uploads_ok cfg u \<longleftrightarrow> slots_used u = sum_list (map holds_slot (phases u)) \<and> slots_used u \<le> newHandlerSlots cfg \<and>
     counted UploadsInFlight [] (up_samples u) = sum_list (map in_gauge (phases u)) \<and>
     counted UploadsRejected [] (up_samples u) = sum_list (map was_shed (phases u)) \<and>
     list_all (phase_ok cfg) (phases u)"

lemma uploads_step_ok:
  assumes "uploads_step api cfg u v" and "uploads_ok cfg u" and "1 \<le> S3PartConcurrency cfg"
  shows "uploads_ok cfg v"
  using assms(1)
proof cases
  case arrive
  then show ?thesis using assms(2) by (simp add: uploads_ok_def was_shed_def)
next
  case (act as x bs y used ss)
  have "phase_ok cfg x" using act(2) assms(2) by (simp add: uploads_ok_def)
  from request_step_account [OF act(3) this assms(3)] act(1,2) assms(2) show ?thesis
    by (auto simp: uploads_ok_def)
qed

lemma uploads_reachable_ok:
  assumes "uploads_reachable api cfg u" and "1 \<le> S3PartConcurrency cfg"
  shows "uploads_ok cfg u"
  using assms(1)
proof induction
  case start
  then show ?case by (simp add: uploads_ok_def)
next
  case (step u v)
  then show ?case using uploads_step_ok assms(2) by blast
qed

text \<open>Buffers are held only with a slot, and no more than a pipeline's worth.\<close>

lemma phase_buffers_bound:
  assumes "phase_ok cfg x" and "1 \<le> S3PartConcurrency cfg"
  shows "int (phase_buffers x) \<le> int (holds_slot x) * (1 + 2 * S3PartConcurrency cfg)"
proof (cases x)
  case (Streaming key uid p)
  then have "shape_ok (New cfg) p" "1 \<le> partConcurrency (New cfg)" using assms by (simp_all add: New_def)
  from shape_buffers [OF this] show ?thesis by (simp add: Streaming New_def)
qed (use assms(2) in simp_all)

lemma uploads_buffers:
  fixes u :: "'s uploads"
  assumes "uploads_ok cfg u" and "1 \<le> S3PartConcurrency cfg"
  shows "int (sum_list (map phase_buffers (phases u))) \<le> int (newHandlerSlots cfg) * (1 + 2 * S3PartConcurrency cfg)"
proof -
  let ?k = "1 + 2 * S3PartConcurrency cfg"
  have "int (sum_list (map phase_buffers xs)) \<le> int (sum_list (map holds_slot xs)) * ?k"
    if "list_all (phase_ok cfg) xs" for xs :: "'s phase list"
    using that phase_buffers_bound [OF _ assms(2)] by (induction xs) (auto simp: distrib_right intro: add_mono)
  then have "int (sum_list (map phase_buffers (phases u))) \<le> int (slots_used u) * ?k"
    using assms(1) by (simp add: uploads_ok_def)
  also have "\<dots> \<le> int (newHandlerSlots cfg) * ?k"
    using assms by (intro mult_right_mono) (simp_all add: uploads_ok_def)
  finally show ?thesis .
qed

text \<open>What one request sees: it is granted a slot at once or after a wait, and otherwise gets the error of its wait.\<close>

lemma acquire_is_step:
  "acquireUploadSlot (newHandlerSlots cfg) used ev = None \<Longrightarrow> used < newHandlerSlots cfg \<Longrightarrow>
     request_step api cfg (Trying, used, ss) (Granted, Suc used, ss)"
  "\<not> used < newHandlerSlots cfg \<Longrightarrow> acquireUploadSlot (newHandlerSlots cfg) used SlotTimeout = Some e \<Longrightarrow>
     request_step api cfg (Waiting, used, ss) (Gone (Some e), used, ss @ [Inc UploadsRejected []])"
  "\<not> used < newHandlerSlots cfg \<Longrightarrow> d \<in> {Canceled, DeadlineExceeded} \<Longrightarrow>
     acquireUploadSlot (newHandlerSlots cfg) used (SlotCtxDone (Sentinel d)) = Some e \<Longrightarrow>
     request_step api cfg (Waiting, used, ss) (Gone (Some e), used, ss)"
  by (auto simp: acquireUploadSlot_def intro: request_step.intros)

text \<open>
  The gauge is not the number of slots in use: between the return of a slot and \<open>Dec\<close> the next request can take it
  and count itself, so with one slot the gauge can read 2.
\<close>

definition two_requests :: "'s phase \<Rightarrow> 's phase \<Rightarrow> nat \<Rightarrow> sample list \<Rightarrow> 's uploads" where
  "two_requests x y used ss = \<lparr>phases = [x, y], slots_used = used, up_samples = ss\<rparr>"

lemma two_requests_fields: "slots_used (two_requests x y used ss) = used" "up_samples (two_requests x y used ss) = ss"
  by (simp_all add: two_requests_def)

lemma uploads_reachable_both:
  assumes "uploads_reachable api cfg (two_requests x y used ss)"
  shows "request_step api cfg (x, used, ss) (x', used', ss') \<Longrightarrow> uploads_reachable api cfg (two_requests x' y used' ss')"
    and "request_step api cfg (y, used, ss) (y', used', ss') \<Longrightarrow> uploads_reachable api cfg (two_requests x y' used' ss')"
proof -
  have "uploads_step api cfg (two_requests x y used ss) \<lparr>phases = [] @ x' # [y], slots_used = used', up_samples = ss'\<rparr>"
    if "request_step api cfg (x, used, ss) (x', used', ss')"
    by (rule uploads_step.act [of _ "[]" x "[y]"]) (use that in \<open>simp_all add: two_requests_def\<close>)
  then show "request_step api cfg (x, used, ss) (x', used', ss') \<Longrightarrow> uploads_reachable api cfg (two_requests x' y used' ss')"
    using uploads_reachable.step [OF assms] by (simp add: two_requests_def)
  have "uploads_step api cfg (two_requests x y used ss) \<lparr>phases = [x] @ y' # [], slots_used = used', up_samples = ss'\<rparr>"
    if "request_step api cfg (y, used, ss) (y', used', ss')"
    by (rule uploads_step.act [of _ "[x]" y "[]"]) (use that in \<open>simp_all add: two_requests_def\<close>)
  then show "request_step api cfg (y, used, ss) (y', used', ss') \<Longrightarrow> uploads_reachable api cfg (two_requests x y' used' ss')"
    using uploads_reachable.step [OF assms] by (simp add: two_requests_def)
qed

lemma two_requests_start: "uploads_reachable api cfg (two_requests Trying Trying 0 [])"
  using uploads_reachable.step [OF uploads_reachable.step [OF uploads_reachable.start uploads_step.arrive] uploads_step.arrive]
  by (simp add: two_requests_def)

lemma gauge_above_slots:
  assumes "newHandlerSlots cfg = 1"
  shows "\<exists>u. uploads_reachable api cfg u \<and> slots_used u = 1 \<and> counted UploadsInFlight [] (up_samples u) = 2"
proof -
  let ?u = "two_requests Released Buffering (Suc 0) ([Inc UploadsInFlight []] @ [Inc UploadsInFlight []])"
  note both = uploads_reachable_both
  have "0 < newHandlerSlots cfg" using assms by simp
  note free = request_step.enter [OF this]
  from both(1) [OF two_requests_start free] have "uploads_reachable api cfg (two_requests Granted Trying (Suc 0) [])" .
  from both(1) [OF this request_step.count] have "uploads_reachable api cfg (two_requests Buffering Trying (Suc 0) [Inc UploadsInFlight []])" by simp
  from both(1) [OF this request_step.single] have "uploads_reachable api cfg (two_requests Ended Trying (Suc 0) [Inc UploadsInFlight []])" .
  from both(1) [OF this request_step.give_back] have "uploads_reachable api cfg (two_requests Released Trying 0 [Inc UploadsInFlight []])" .
  from both(2) [OF this free] have "uploads_reachable api cfg (two_requests Released Granted (Suc 0) [Inc UploadsInFlight []])" .
  from both(2) [OF this request_step.count] have "uploads_reachable api cfg ?u" .
  moreover have "slots_used ?u = 1" "counted UploadsInFlight [] (up_samples ?u) = 2" by (simp_all add: two_requests_fields)
  ultimately show ?thesis by blast
qed

end
