(* ===== verification/Json.thy ===== *)
theory Json
  imports Utf8
begin

text \<open>
  What the source uses of \<open>encoding/json\<close>: the encoder on strings, integers and flat structs with
  \<open>omitempty\<close>, and the decoder of one value from the front of a stream, as \<open>json.Decoder\<close> reads it.
  The proofs are the round trip of a string, and that a decoded value does not change when more text follows.
\<close>

section \<open>Writing strings\<close>

definition quote :: char where "quote = CHR 0x22"
definition backslash :: char where "backslash = CHR 0x5C"

definition hex_digit :: "nat \<Rightarrow> char" where
  "hex_digit n = (if n < 10 then char_of (48 + n) else char_of (87 + n))"

text \<open>
  An ASCII byte inside a string. The encoder escapes quotes, backslashes and control characters, and
  the three characters that are special in HTML.
\<close>

definition esc_ascii :: "char \<Rightarrow> string" where
  "esc_ascii c =
     (if c = quote \<or> c = backslash then [backslash, c]
      else if c = CHR 0x08 then [backslash, CHR ''b'']
      else if c = CHR 0x0C then [backslash, CHR ''f'']
      else if c = CHR 0x0A then [backslash, CHR ''n'']
      else if c = CHR 0x0D then [backslash, CHR ''r'']
      else if c = CHR 0x09 then [backslash, CHR ''t'']
      else if byte c < 0x20 \<or> c = CHR ''<'' \<or> c = CHR ''>'' \<or> c = CHR ''&''
      then [backslash, CHR ''u'', CHR ''0'', CHR ''0'', hex_digit (byte c div 16), hex_digit (byte c mod 16)]
      else [c])"

definition esc_rune :: "string \<Rightarrow> string" where
  "esc_rune r =
     (if r = [CHR 0xE2, CHR 0x80, CHR 0xA8] then [backslash, CHR ''u'', CHR ''2'', CHR ''0'', CHR ''2'', CHR ''8'']
      else if r = [CHR 0xE2, CHR 0x80, CHR 0xA9] then [backslash, CHR ''u'', CHR ''2'', CHR ''0'', CHR ''2'', CHR ''9'']
      else r)"

function json_esc :: "string \<Rightarrow> string" where
  "json_esc s =
     (case s of [] \<Rightarrow> []
      | c # t \<Rightarrow>
          (if byte c < 0x80 then esc_ascii c @ json_esc t
           else if rune_len s = 0
           then [backslash, CHR ''u'', CHR ''f'', CHR ''f'', CHR ''f'', CHR ''d''] @ json_esc t
           else esc_rune (take (rune_len s) s) @ json_esc (drop (rune_len s) s)))"
  by pat_completeness auto
termination
  by (relation "measure length") auto

declare json_esc.simps [simp del]

definition json_string :: "string \<Rightarrow> string" where
  "json_string s = quote # json_esc s @ [quote]"

section \<open>Writing a flat object\<close>

datatype field = FString string | FInt int

fun encode_field :: "field \<Rightarrow> string" where
  "encode_field (FString s) = json_string s"
| "encode_field (FInt n) = itoa n"

fun empty_field :: "field \<Rightarrow> bool" where
  "empty_field (FString s) = (s = [])"
| "empty_field (FInt n) = (n = 0)"

definition encode_member :: "string \<times> field \<Rightarrow> string" where
  "encode_member m = json_string (fst m) @ CHR '':'' # encode_field (snd m)"

fun encode_members :: "(string \<times> field) list \<Rightarrow> string" where
  "encode_members [] = []"
| "encode_members [m] = encode_member m"
| "encode_members (m # ms) = encode_member m @ CHR '','' # encode_members ms"

definition encode_object :: "(string \<times> field) list \<Rightarrow> string" where
  "encode_object ms = CHR ''{'' # encode_members ms @ ''}''"

section \<open>Reading strings\<close>

definition hex_val :: "char \<Rightarrow> nat option" where
  "hex_val c =
     (let n = byte c
      in if 48 \<le> n \<and> n \<le> 57 then Some (n - 48)
         else if 97 \<le> n \<and> n \<le> 102 then Some (n - 87)
         else if 65 \<le> n \<and> n \<le> 70 then Some (n - 55)
         else None)"

definition hex4 :: "string \<Rightarrow> nat option" where
  "hex4 s =
     (case s of a # b # c # d # _ \<Rightarrow>
        (case (hex_val a, hex_val b, hex_val c, hex_val d) of
           (Some w, Some x, Some y, Some z) \<Rightarrow> Some (4096 * w + 256 * x + 16 * y + z)
         | _ \<Rightarrow> None)
      | _ \<Rightarrow> None)"

text \<open>
  \<open>\\uXXXX\<close>: the rune, and how many more bytes it takes; a high surrogate pairs with a low one that
  follows it at once, and a surrogate on its own is U+FFFD.
\<close>

definition pair_rune :: "nat \<Rightarrow> string \<Rightarrow> nat \<times> nat" where
  "pair_rune r rest =
     (if 0xD800 \<le> r \<and> r \<le> 0xDBFF \<and> take 2 rest = [backslash, CHR ''u'']
      then case hex4 (drop 2 rest) of
             Some lo \<Rightarrow> (if 0xDC00 \<le> lo \<and> lo \<le> 0xDFFF
                        then (0x10000 + (r - 0xD800) * 1024 + (lo - 0xDC00), 6) else (r, 0))
           | None \<Rightarrow> (r, 0)
      else (r, 0))"

definition short_escape :: "char \<Rightarrow> char option" where
  "short_escape = map_of
     [(quote, quote), (backslash, backslash), (CHR ''/'', CHR ''/''), (CHR ''b'', CHR 0x08),
      (CHR ''f'', CHR 0x0C), (CHR ''n'', CHR 0x0A), (CHR ''r'', CHR 0x0D), (CHR ''t'', CHR 0x09)]"

text \<open>
  One step inside a string that is not at its closing quote: what it contributes and how many bytes
  it takes (0: the text is malformed).
\<close>

definition string_step :: "string \<Rightarrow> string \<times> nat" where
  "string_step s =
     (case s of [] \<Rightarrow> ([], 0)
      | c # t \<Rightarrow>
          (if c = backslash
           then case t of [] \<Rightarrow> ([], 0)
                | e # u \<Rightarrow>
                    (if e = CHR ''u''
                     then case hex4 u of None \<Rightarrow> ([], 0)
                          | Some r \<Rightarrow> (case pair_rune r (drop 4 u) of (v, n) \<Rightarrow> (encode_rune v, 6 + n))
                     else case short_escape e of None \<Rightarrow> ([], 0) | Some d \<Rightarrow> ([d], 2))
           else if byte c < 0x20 then ([], 0)
           else if rune_len s = 0 then (replacement, 1)
           else (take (rune_len s) s, rune_len s)))"

text \<open>The string up to its closing quote, and what follows.\<close>

function json_str :: "string \<Rightarrow> (string \<times> string) option" where
  "json_str s =
     (if s = [] then None
      else if hd s = quote then Some ([], tl s)
      else if snd (string_step s) = 0 then None
      else map_option (\<lambda>(v, r). (fst (string_step s) @ v, r)) (json_str (drop (snd (string_step s)) s)))"
  by pat_completeness auto
termination
  by (relation "measure length") auto

declare json_str.simps [simp del]

lemma json_str_quote [simp]: "json_str (quote # r) = Some ([], r)"
  by (subst json_str.simps) simp

lemma json_str_Nil [simp]: "json_str [] = None"
  by (subst json_str.simps) simp

lemma json_str_step:
  assumes "s \<noteq> []" and "hd s \<noteq> quote" and "string_step s = (v, n)" and "n \<noteq> 0"
  shows "json_str s = map_option (\<lambda>(w, r). (v @ w, r)) (json_str (drop n s))"
  using assms by (subst json_str.simps) simp

text \<open>The bytes that a step other than a short escape reads.\<close>

lemma string_step_plain:
  assumes "c \<noteq> backslash" and "\<not> byte c < 0x20"
  shows "string_step (c # t) = (if rune_len (c # t) = 0 then (replacement, 1)
    else (take (rune_len (c # t)) (c # t), rune_len (c # t)))"
  using assms by (simp add: string_step_def del: rune_len.simps)

lemma string_step_short:
  "e \<noteq> CHR ''u'' \<Longrightarrow> short_escape e = Some d \<Longrightarrow> string_step (backslash # e # u) = ([d], 2)"
  by (simp add: string_step_def)

lemma string_step_unicode:
  "hex4 u = Some r \<Longrightarrow> string_step (backslash # CHR ''u'' # u) =
    (encode_rune (fst (pair_rune r (drop 4 u))), 6 + snd (pair_rune r (drop 4 u)))"
  by (simp add: string_step_def split_beta)

section \<open>Round trip of a string\<close>

lemma hex_val_digit: "n < 16 \<Longrightarrow> hex_val (hex_digit n) = Some n"
  by (simp add: hex_val_def hex_digit_def Let_def)

lemma pair_rune_ascii: "r < 0xD800 \<Longrightarrow> pair_rune r rest = (r, 0)"
  by (simp add: pair_rune_def)

lemma hex4_control:
  "byte c < 0x80 \<Longrightarrow> hex4 (CHR ''0'' # CHR ''0'' # hex_digit (byte c div 16) # hex_digit (byte c mod 16) # t) = Some (byte c)"
  using hex_val_digit [of "byte c div 16"] hex_val_digit [of "byte c mod 16"]
  by (simp add: hex4_def hex_val_def [of "CHR ''0''"])

lemma esc_ascii_step:
  assumes "byte c < 0x80"
  shows "string_step (esc_ascii c @ t) = ([c], length (esc_ascii c)) \<and>
    esc_ascii c \<noteq> [] \<and> hd (esc_ascii c) \<noteq> quote"
proof -
  have short: ?thesis if "esc_ascii c = [backslash, e]" "e \<noteq> CHR ''u''" "short_escape e = Some c" for e
  proof -
    have "string_step (esc_ascii c @ t) = ([c], 2)" using that by (simp add: string_step_short)
    then show ?thesis by (simp add: that(1)) (simp add: quote_def backslash_def)
  qed
  note defs = esc_ascii_def short_escape_def quote_def backslash_def
  consider (quote) "c = quote" | (bs) "c = backslash" | (b) "c = CHR 0x08" | (f) "c = CHR 0x0C"
    | (n) "c = CHR 0x0A" | (r) "c = CHR 0x0D" | (t) "c = CHR 0x09"
    | (u) "esc_ascii c = [backslash, CHR ''u'', CHR ''0'', CHR ''0'', hex_digit (byte c div 16), hex_digit (byte c mod 16)]"
    | (plain) "esc_ascii c = [c]" "c \<noteq> quote" "c \<noteq> backslash" "\<not> byte c < 0x20"
    unfolding esc_ascii_def by argo
  then show ?thesis
  proof cases
    case u
    have "string_step (esc_ascii c @ t) = ([c], 6)"
      unfolding u append_Cons append_Nil
      using assms by (subst string_step_unicode [OF hex4_control]) (simp_all add: pair_rune_ascii encode_rune_ascii)
    then show ?thesis by (simp add: u quote_def backslash_def)
  next
    case plain
    then show ?thesis
      using assms by (simp add: string_step_plain rune_len_ascii del: rune_len.simps)
  next
    case quote
    show ?thesis by (rule short [of quote]) (simp_all add: quote defs)
  next
    case bs
    show ?thesis by (rule short [of backslash]) (simp_all add: bs defs)
  next
    case b
    show ?thesis by (rule short [of "CHR ''b''"]) (simp_all add: b defs)
  next
    case f
    show ?thesis by (rule short [of "CHR ''f''"]) (simp_all add: f defs)
  next
    case n
    show ?thesis by (rule short [of "CHR ''n''"]) (simp_all add: n defs)
  next
    case r
    show ?thesis by (rule short [of "CHR ''r''"]) (simp_all add: r defs)
  next
    case t
    show ?thesis by (rule short [of "CHR ''t''"]) (simp_all add: t defs)
  qed
qed

lemma json_str_app:
  assumes "string_step (a @ t) = (v, length a)" and "a \<noteq> []" and "hd a \<noteq> quote"
  shows "json_str (a @ t) = map_option (\<lambda>(w, r). (v @ w, r)) (json_str t)"
  using json_str_step [of "a @ t" v "length a"] assms by simp

lemma encode_rune_special:
  "encode_rune 0xFFFD = replacement"
  "encode_rune 0x2028 = [CHR 0xE2, CHR 0x80, CHR 0xA8]" "encode_rune 0x2029 = [CHR 0xE2, CHR 0x80, CHR 0xA9]"
  by (simp_all add: encode_rune_def replacement_def char_of_def bit_0)

lemma step_fffd:
  fixes t :: string
  defines "a \<equiv> [backslash, CHR ''u'', CHR ''f'', CHR ''f'', CHR ''f'', CHR ''d'']"
  shows "string_step (a @ t) = (replacement, length a)"
proof -
  have "hex4 (CHR ''f'' # CHR ''f'' # CHR ''f'' # CHR ''d'' # t) = Some 0xFFFD" by (simp add: hex4_def hex_val_def)
  then show ?thesis
    by (simp add: a_def string_step_unicode pair_rune_def encode_rune_special)
qed

lemma step_2028:
  assumes "(c, d) \<in> {(CHR ''8'', CHR 0xA8), (CHR ''9'', CHR 0xA9)}"
  shows "string_step ([backslash, CHR ''u'', CHR ''2'', CHR ''0'', CHR ''2'', c] @ t) = ([CHR 0xE2, CHR 0x80, d], 6)"
proof -
  have "hex4 (CHR ''2'' # CHR ''0'' # CHR ''2'' # c # t) = Some (if c = CHR ''8'' then 0x2028 else 0x2029)"
    using assms by (auto simp: hex4_def hex_val_def)
  then show ?thesis using assms
    by (auto simp: string_step_unicode pair_rune_def encode_rune_special)
qed

lemma step_rune:
  assumes "rune_len s = n" and "n \<noteq> 0" and "\<not> byte (hd s) < 0x80"
  shows "string_step (take n s @ t) = (take n s, n) \<and> take n s \<noteq> [] \<and> hd (take n s) \<noteq> quote \<and> length (take n s) = n"
proof -
  obtain c u where s: "s = c # u" using assms(1,2) by (cases s) auto
  obtain m where n: "n = Suc m" using assms(2) by (cases n) auto
  have len: "length (take n s) = n" using rune_len_le [of s] assms(1) by simp
  have c: "c \<noteq> backslash" "c \<noteq> quote" "\<not> byte c < 0x20"
    using assms(3) by (auto simp: s backslash_def quote_def)
  have "rune_len (c # (take m u @ t)) = n" using rune_len_take [OF assms(1,2), of t] by (simp add: s n)
  moreover have "take n (c # (take m u @ t)) = take n s" using len by (simp add: s n)
  ultimately have "string_step (take n s @ t) = (take n s, n)"
    using string_step_plain [OF c(1,3), of "take m u @ t"] assms(2) by (simp add: s n del: rune_len.simps)
  with c len show ?thesis by (simp add: s n)
qed

text \<open>What the encoder wrote reads back; a byte that was no UTF-8 comes back as U+FFFD.\<close>

lemma json_str_esc: "json_str (json_esc s @ quote # rest) = Some (to_valid s, rest)"
proof (induction s rule: json_esc.induct)
  case (1 s)
  let ?t = "quote # rest"
  show ?case
  proof (cases s)
    case Nil
    then show ?thesis by (simp add: json_esc.simps to_valid.simps)
  next
    case (Cons c t)
    consider (ascii) "byte c < 0x80" | (bad) "\<not> byte c < 0x80" "rune_len s = 0"
      | (rune) "\<not> byte c < 0x80" "rune_len s \<noteq> 0" by blast
    then show ?thesis
    proof cases
      case ascii
      have "json_str (esc_ascii c @ json_esc t @ ?t) = map_option (\<lambda>(w, r). ([c] @ w, r)) (json_str (json_esc t @ ?t))"
        using esc_ascii_step [OF ascii] by (intro json_str_app) blast+
      moreover have "json_esc s = esc_ascii c @ json_esc t" using ascii by (simp add: Cons json_esc.simps)
      moreover have "to_valid s = c # to_valid t"
        using ascii by (simp add: Cons to_valid.simps [of "c # t"] rune_len_ascii del: rune_len.simps)
      ultimately show ?thesis using "1.IH"(1) [OF Cons ascii] by simp
    next
      case bad
      have e: "json_esc s = [backslash, CHR ''u'', CHR ''f'', CHR ''f'', CHR ''f'', CHR ''d''] @ json_esc t"
        using bad by (simp add: Cons json_esc.simps [of "c # t"] del: rune_len.simps)
      have "to_valid s = replacement @ to_valid t"
        using bad by (simp add: Cons to_valid.simps [of "c # t"] del: rune_len.simps)
      then show ?thesis unfolding e append_assoc
        using "1.IH"(2) [OF Cons bad] by (subst json_str_app [OF step_fffd]) (simp_all add: quote_def backslash_def)
    next
      case rune
      let ?n = "rune_len s"
      have e: "json_esc s = esc_rune (take ?n s) @ json_esc (drop ?n s)"
        using rune by (simp add: Cons json_esc.simps [of "c # t"] del: rune_len.simps)
      have v: "to_valid s = take ?n s @ to_valid (drop ?n s)"
        using rune by (simp add: Cons to_valid.simps [of "c # t"] del: rune_len.simps)
      have "json_str (esc_rune (take ?n s) @ u) = map_option (\<lambda>(w, r). (take ?n s @ w, r)) (json_str u)" for u
      proof (rule json_str_app)
        have st: "string_step (take ?n s @ u) = (take ?n s, ?n) \<and> take ?n s \<noteq> [] \<and> hd (take ?n s) \<noteq> quote \<and>
            length (take ?n s) = ?n"
          using rune by (intro step_rune) (simp_all add: Cons del: rune_len.simps)
        show "string_step (esc_rune (take ?n s) @ u) = (take ?n s, length (esc_rune (take ?n s)))"
          using st step_2028 [of "CHR ''8''" "CHR 0xA8" u] step_2028 [of "CHR ''9''" "CHR 0xA9" u]
          by (simp add: esc_rune_def del: take_eq_Nil)
        show "esc_rune (take ?n s) \<noteq> []" using st by (simp add: esc_rune_def)
        show "hd (esc_rune (take ?n s)) \<noteq> quote" 
          using st by (cases "take ?n s") (auto simp: esc_rune_def quote_def backslash_def)
      qed
      then show ?thesis using "1.IH"(3) [OF Cons rune] by (simp add: e v)
    qed
  qed
qed

corollary json_str_valid: "valid_utf8 s \<Longrightarrow> json_str (json_esc s @ quote # rest) = Some (s, rest)"
  by (simp add: json_str_esc to_valid_id)

end
