(* ===== verification/JsonValue.thy ===== *)
theory JsonValue
  imports Json
begin

text \<open>
  The decoder of JSON values: one value is read from the front of the input, as \<open>json.Decoder\<close> does,
  and what follows is left. Two facts carry the protocol proofs: an encoded object reads back, and
  what was read does not change when the input goes on; so a cut-off object never reads at all.
\<close>

section \<open>Numbers and white space\<close>

definition skip_ws :: "string \<Rightarrow> string" where
  "skip_ws = dropWhile (\<lambda>c. c \<in> {CHR 0x20, CHR 0x09, CHR 0x0A, CHR 0x0D})"

definition expect :: "char \<Rightarrow> string \<Rightarrow> string option" where
  "expect c s = (case skip_ws s of [] \<Rightarrow> None | d # t \<Rightarrow> if d = c then Some t else None)"

definition num_sign :: "string \<Rightarrow> (string \<times> string) option" where
  "num_sign s = Some (if has_prefix ''-'' s then (''-'', tl s) else ('''', s))"

definition num_digits :: "string \<Rightarrow> (string \<times> string) option" where
  "num_digits s =
     (if takeWhile is_digit s = [] then None else Some (takeWhile is_digit s, dropWhile is_digit s))"

definition num_int :: "string \<Rightarrow> (string \<times> string) option" where
  "num_int s = (if has_prefix ''0'' s then Some (''0'', tl s) else num_digits s)"

definition num_frac :: "string \<Rightarrow> (string \<times> string) option" where
  "num_frac s =
     (if has_prefix ''.'' s then map_option (\<lambda>(d, r). (CHR ''.'' # d, r)) (num_digits (tl s)) else Some ([], s))"

definition num_exp :: "string \<Rightarrow> (string \<times> string) option" where
  "num_exp s =
     (if has_prefix ''e'' s \<or> has_prefix ''E'' s
      then if has_prefix ''+'' (tl s) \<or> has_prefix ''-'' (tl s)
           then map_option (\<lambda>(d, r). (take 2 s @ d, r)) (num_digits (drop 2 s))
           else map_option (\<lambda>(d, r). (take 1 s @ d, r)) (num_digits (tl s))
      else Some ([], s))"

text \<open>One scanner after another, the texts joined.\<close>

definition scan_then :: "(string \<Rightarrow> (string \<times> string) option) \<Rightarrow> (string \<Rightarrow> (string \<times> string) option) \<Rightarrow>
    string \<Rightarrow> (string \<times> string) option" where
  "scan_then p q s =
     (case p s of None \<Rightarrow> None | Some (a, r) \<Rightarrow> (case q r of None \<Rightarrow> None | Some (b, r2) \<Rightarrow> Some (a @ b, r2)))"

definition json_number :: "string \<Rightarrow> (string \<times> string) option" where
  "json_number = scan_then num_sign (scan_then num_int (scan_then num_frac num_exp))"

section \<open>Values\<close>

text \<open>A string keeps its text as written beside its value, for the types that decode themselves.\<close>

datatype json = JNull | JBool bool | JNum string | JStr string string
  | JArr "json list" | JObj "(string \<times> json) list"

text \<open>\<open>maxNestingDepth\<close> of the scanner.\<close>

definition max_depth :: nat where "max_depth = 10000"

definition json_literal :: "string \<Rightarrow> (json \<times> string) option" where
  "json_literal s =
     (if has_prefix ''null'' s then Some (JNull, drop 4 s)
      else if has_prefix ''true'' s then Some (JBool True, drop 4 s)
      else if has_prefix ''false'' s then Some (JBool False, drop 5 s)
      else map_option (\<lambda>(n, r). (JNum n, r)) (json_number s))"

text \<open>\<open>f\<close> is fuel, more than the length of the input; \<open>d\<close> the depth of nesting.\<close>

fun json_value :: "nat \<Rightarrow> nat \<Rightarrow> string \<Rightarrow> (json \<times> string) option"
and json_elems :: "nat \<Rightarrow> nat \<Rightarrow> string \<Rightarrow> (json list \<times> string) option"
and json_members :: "nat \<Rightarrow> nat \<Rightarrow> string \<Rightarrow> ((string \<times> json) list \<times> string) option" where
  "json_value 0 d s = None"
| "json_value (Suc f) d s =
     (case skip_ws s of [] \<Rightarrow> None
      | c # t \<Rightarrow>
          (if c = quote
           then case json_str t of None \<Rightarrow> None
                | Some (v, r) \<Rightarrow> Some (JStr v (take (length t - length r - 1) t), r)
           else if c = CHR ''{''
           then if d \<ge> max_depth then None
                else case expect (CHR ''}'') t of
                       Some u \<Rightarrow> Some (JObj [], u)
                     | None \<Rightarrow> (case json_members f (Suc d) t of None \<Rightarrow> None | Some (ms, r) \<Rightarrow> Some (JObj ms, r))
           else if c = CHR ''[''
           then if d \<ge> max_depth then None
                else case expect (CHR '']'') t of
                       Some u \<Rightarrow> Some (JArr [], u)
                     | None \<Rightarrow> (case json_elems f (Suc d) t of None \<Rightarrow> None | Some (vs, r) \<Rightarrow> Some (JArr vs, r))
           else json_literal (c # t)))"
| "json_elems 0 d s = None"
| "json_elems (Suc f) d s =
     (case json_value f d s of None \<Rightarrow> None
      | Some (v, r) \<Rightarrow>
          (case expect (CHR '']'') r of
             Some u \<Rightarrow> Some ([v], u)
           | None \<Rightarrow>
               (case expect (CHR '','') r of None \<Rightarrow> None
                | Some u \<Rightarrow> (case json_elems f d u of None \<Rightarrow> None | Some (vs, r2) \<Rightarrow> Some (v # vs, r2)))))"
| "json_members 0 d s = None"
| "json_members (Suc f) d s =
     (case expect quote s of None \<Rightarrow> None
      | Some t \<Rightarrow>
          (case json_str t of None \<Rightarrow> None
           | Some (k, r0) \<Rightarrow>
               (case expect (CHR '':'') r0 of None \<Rightarrow> None
                | Some r1 \<Rightarrow>
                    (case json_value f d r1 of None \<Rightarrow> None
                     | Some (v, r) \<Rightarrow>
                         (case expect (CHR ''}'') r of
                            Some u \<Rightarrow> Some ([(k, v)], u)
                          | None \<Rightarrow>
                              (case expect (CHR '','') r of None \<Rightarrow> None
                               | Some u \<Rightarrow>
                                   (case json_members f d u of None \<Rightarrow> None
                                    | Some (ms, r2) \<Rightarrow> Some ((k, v) # ms, r2))))))))"

definition json_decode :: "string \<Rightarrow> (json \<times> string) option" where
  "json_decode s = json_value (Suc (length s)) 0 s"

declare json_value.simps [simp del] json_elems.simps [simp del] json_members.simps [simp del]

section \<open>More input\<close>

text \<open>A scanner that stopped before the end of its input stops there too when more follows.\<close>

definition extends :: "(string \<Rightarrow> (string \<times> string) option) \<Rightarrow> bool" where
  "extends p \<longleftrightarrow> p [] \<in> {None, Some ([], [])} \<and>
     (\<forall>s a r u. p s = Some (a, r) \<longrightarrow> r \<noteq> [] \<longrightarrow> p (s @ u) = Some (a, r @ u))"

lemma dropWhile_append_nonempty: "dropWhile P s \<noteq> [] \<Longrightarrow> dropWhile P (s @ u) = dropWhile P s @ u"
  by (induction s) auto

lemma takeWhile_append_nonempty: "dropWhile P s \<noteq> [] \<Longrightarrow> takeWhile P (s @ u) = takeWhile P s"
  by (induction s) auto

lemma has_prefix1_append: "s \<noteq> [] \<Longrightarrow> has_prefix [c] (s @ u) = has_prefix [c] s"
  by (cases s) auto

lemma extends_sign: "extends num_sign"
  by (auto simp: extends_def num_sign_def has_prefix1_append split: if_splits) (auto simp: has_prefix_iff)

lemma num_digits_Nil [simp]: "num_digits [] = None"
  by (simp add: num_digits_def)

lemma digits_more: "num_digits s = Some (a, r) \<Longrightarrow> r \<noteq> [] \<Longrightarrow> num_digits (s @ u) = Some (a, r @ u)"
  by (auto simp: num_digits_def dropWhile_append_nonempty takeWhile_append_nonempty split: if_splits)

lemma extends_int: "extends num_int"
proof -
  have "num_int (s @ u) = Some (a, r @ u)" if "num_int s = Some (a, r)" "r \<noteq> []" for s a r u
    using that digits_more [of s a r u] by (cases s) (auto simp: num_int_def)
  then show ?thesis by (simp add: extends_def num_int_def num_digits_def)
qed

lemma extends_frac: "extends num_frac"
proof -
  have "num_frac (s @ u) = Some (a, r @ u)" if "num_frac s = Some (a, r)" "r \<noteq> []" for s a r u
    using that digits_more [of "tl s" _ r u] by (cases s) (auto simp: num_frac_def)
  then show ?thesis by (simp add: extends_def num_frac_def)
qed

lemma extends_exp: "extends num_exp"
proof -
  have "num_exp (s @ u) = Some (a, r @ u)" if p: "num_exp s = Some (a, r)" "r \<noteq> []" for s a r u
  proof (cases s)
    case (Cons c t)
    show ?thesis
    proof (cases t)
      case Nil
      then show ?thesis using p Cons by (auto simp: num_exp_def num_digits_def split: if_splits)
    next
      case (Cons d w)
      then show ?thesis
        using p \<open>s = c # t\<close> digits_more [of t _ r u] digits_more [of w _ r u]
        by (auto simp: num_exp_def numeral_2_eq_2 split: if_splits)
    qed
  qed (use p in \<open>simp add: num_exp_def\<close>)
  then show ?thesis by (simp add: extends_def num_exp_def)
qed

lemma extends_then: "extends p \<Longrightarrow> extends q \<Longrightarrow> extends (scan_then p q)"
proof -
  assume p: "extends p" and q: "extends q"
  have "scan_then p q (s @ u) = Some (c, r @ u)" if "scan_then p q s = Some (c, r)" "r \<noteq> []" for s c r u
  proof -
    from that(1) obtain a r1 b where ab: "p s = Some (a, r1)" "q r1 = Some (b, r)" "c = a @ b"
      by (auto simp: scan_then_def split: option.splits)
    with q that(2) have "r1 \<noteq> []" by (auto simp: extends_def)
    with ab p q that(2) show ?thesis by (auto simp: extends_def scan_then_def)
  qed
  then show ?thesis using p q by (auto simp: extends_def scan_then_def)
qed

lemma extends_number: "extends json_number"
  unfolding json_number_def by (intro extends_then extends_sign extends_int extends_frac extends_exp)

text \<open>
  Inside a string a step reads past what it takes only to see whether a longer rune or a surrogate pair
  is there; neither contains a quote, so a step before the closing quote is not affected by what follows.
\<close>

lemma in_ranges_quote: "in_ranges rs (s @ u) \<Longrightarrow> \<not> in_ranges rs s \<Longrightarrow> \<forall>p \<in> set rs. 0x80 \<le> fst p \<Longrightarrow> quote \<notin> set s"
  by (induction rs s rule: in_ranges.induct) (auto simp: in_range_def quote_def)

lemma tail_ranges_high: "tail_ranges c = Some rs \<Longrightarrow> p \<in> set rs \<Longrightarrow> 0x80 \<le> fst p"
  by (auto simp: tail_ranges_def Let_def split: if_splits)

lemma rune_len_more: "quote \<in> set t \<Longrightarrow> rune_len (c # t @ u) = rune_len (c # t)"
  using in_ranges_quote tail_ranges_high in_ranges_append by (fastforce split: option.split)

lemma hex_val_quote [simp]: "hex_val quote = None" "hex_val backslash = None"
  by (simp_all add: hex_val_def quote_def backslash_def)

lemma hex4_more:
  assumes "quote \<in> set s"
  shows "hex4 (s @ u) = hex4 s"
proof -
  consider "s = []" | a where "s = [a]" | a b where "s = [a, b]" | a b c where "s = [a, b, c]"
    | a b c d t where "s = a # b # c # d # t" by (metis list.exhaust)
  then show ?thesis using assms by cases (auto simp: hex4_def split: list.split option.split)
qed

lemma hex4_Some_quote: "hex4 s = Some n \<Longrightarrow> quote \<notin> set (take 4 s)"
  by (auto simp: hex4_def numeral_eq_Suc split: list.splits option.splits)

lemma pair_rune_more:
  assumes "quote \<in> set s"
  shows "pair_rune r (s @ u) = pair_rune r s"
proof (cases "take 2 (s @ u) = [backslash, CHR ''u'']")
  case False
  moreover from False have "take 2 s \<noteq> [backslash, CHR ''u'']" by (cases s; cases "tl s") auto
  ultimately show ?thesis by (simp add: pair_rune_def)
next
  case True
  obtain w where w: "s = backslash # CHR ''u'' # w" "quote \<in> set w"
    using True assms by (cases s; cases "tl s") (auto simp: quote_def backslash_def)
  with hex4_more [OF w(2), of u] show ?thesis by (simp add: pair_rune_def)
qed

lemma string_step_more:
  assumes "string_step s = (v, n)" and "n \<noteq> 0" and "quote \<in> set (drop n s)"
  shows "string_step (s @ u) = (v, n)"
proof -
  obtain c t where s: "s = c # t" using assms(1,2) by (cases s) (auto simp: string_step_def)
  have q: "quote \<in> set t" using assms(2,3) by (cases n) (auto simp: s dest: in_set_dropD)
  consider (uni) w where "c = backslash" "t = CHR ''u'' # w" | (short) e w where "c = backslash" "t = e # w" "e \<noteq> CHR ''u''"
    | (plain) "c \<noteq> backslash"
    using q by (cases t) auto
  then show ?thesis
  proof cases
    case uni
    with q have w: "quote \<in> set w" by (simp add: quote_def)
    obtain r where r: "hex4 w = Some r" using assms(1,2) uni by (auto simp: s string_step_def split: option.splits)
    from hex4_Some_quote [OF r] w have "quote \<in> set (drop 4 w)" by (metis Un_iff append_take_drop_id set_append)
    then have "pair_rune r (drop 4 w @ u) = pair_rune r (drop 4 w)" by (rule pair_rune_more)
    moreover have "length w \<ge> 4" using r by (auto simp: hex4_def split: list.splits)
    ultimately show ?thesis
      using assms(1) r hex4_more [OF w, of u] by (simp add: s uni string_step_def)
  next
    case short
    then show ?thesis using assms(1) by (simp add: s string_step_def)
  next
    case plain
    have cut: "k \<le> Suc (length t) \<Longrightarrow> take k (c # t @ u) = take k (c # t)" for k by (cases k) simp_all
    have "rune_len (c # t) \<le> Suc (length t)" using rune_len_le [of "c # t"] by simp
    then show ?thesis
      using assms(1) plain rune_len_more [OF q, of c u]
      by (auto simp: s string_step_def cut simp del: rune_len.simps take_Cons' split: if_splits)
  qed
qed

lemma json_str_cases:
  assumes "json_str s = Some (v, r)"
  obtains (stop) "s = quote # r" "v = []"
  | (step) x n w where "s \<noteq> []" "hd s \<noteq> quote" "string_step s = (x, n)" "n \<noteq> 0"
      "json_str (drop n s) = Some (w, r)" "v = x @ w"
proof (cases "s = [] \<or> hd s = quote")
  case True
  with assms stop show ?thesis by (cases s) auto
next
  case False
  then have "json_str s = (if snd (string_step s) = 0 then None
    else map_option (\<lambda>(v, r). (fst (string_step s) @ v, r)) (json_str (drop (snd (string_step s)) s)))"
    by (simp add: json_str.simps [of s])
  with assms False step show ?thesis by (cases "string_step s") (auto split: if_splits)
qed

lemma json_str_Some: "json_str s = Some (v, r) \<Longrightarrow> quote \<in> set s \<and> length r < length s"
proof (induction "length s" arbitrary: s v rule: less_induct)
  case less
  from less.prems show ?case
  proof (cases rule: json_str_cases)
    case (step x n w)
    then have "length (drop n s) < length s" by simp
    with less.hyps step(5) have "quote \<in> set (drop n s)" "length r < length (drop n s)" by blast+
    then show ?thesis by (auto dest: in_set_dropD)
  qed simp
qed

lemma json_str_more: "json_str s = Some (v, r) \<Longrightarrow> json_str (s @ u) = Some (v, r @ u)"
proof (induction "length s" arbitrary: s v rule: less_induct)
  case less
  from less.prems show ?case
  proof (cases rule: json_str_cases)
    case (step x n w)
    have q: "quote \<in> set (drop n s)" "length r < length (drop n s)" using json_str_Some [OF step(5)] by simp_all
    have "length (drop n s) < length s" using step(1,4) by simp
    with less.hyps step(5) have "json_str (drop n s @ u) = Some (w, r @ u)" by blast
    moreover have "n \<le> length s" using q(2) by (cases "n \<le> length s") simp_all
    moreover have "string_step (s @ u) = (x, n)" by (rule string_step_more [OF step(3,4) q(1)])
    ultimately show ?thesis using json_str_step [of "s @ u" x n] step by (simp add: hd_append)
  qed simp
qed

lemma skip_ws_more: "skip_ws s \<noteq> [] \<Longrightarrow> skip_ws (s @ u) = skip_ws s @ u"
  by (simp add: skip_ws_def dropWhile_append_nonempty)

lemma expect_more: "skip_ws s \<noteq> [] \<Longrightarrow> expect c (s @ u) = map_option (\<lambda>t. t @ u) (expect c s)"
  by (auto simp: expect_def skip_ws_more split: list.split)

lemma expect_Some:
  assumes "expect c s = Some t"
  shows "skip_ws s \<noteq> [] \<and> s \<noteq> [] \<and> length t < length s"
proof -
  have "skip_ws s = c # t" using assms by (auto simp: expect_def split: list.splits if_splits)
  moreover have "length (skip_ws s) \<le> length s" by (simp add: skip_ws_def length_dropWhile_le)
  ultimately show ?thesis by auto
qed

definition number_json :: "json \<Rightarrow> bool" where
  "number_json v \<longleftrightarrow> (\<exists>n. v = JNum n)"

lemma json_number_head: "json_number s = Some (n, r) \<Longrightarrow> s \<noteq> [] \<and> (hd s = CHR ''-'' \<or> is_digit (hd s))"
  by (cases s)
     (auto simp: json_number_def scan_then_def num_sign_def num_int_def num_digits_def is_digit_def digit_val_def
           split: if_splits option.splits)

lemma literal_more:
  assumes "json_literal s = Some (v, r)" and "r \<noteq> [] \<or> \<not> number_json v"
  shows "json_literal (s @ u) = Some (v, r @ u)"
proof (cases "has_prefix ''null'' s \<or> has_prefix ''true'' s \<or> has_prefix ''false'' s")
  case True
  then show ?thesis using assms(1) by (auto simp: json_literal_def has_prefix_iff)
next
  case False
  then obtain n where n: "json_number s = Some (n, r)" "v = JNum n" using assms(1) by (auto simp: json_literal_def)
  then have "json_number (s @ u) = Some (n, r @ u)"
    using extends_number assms(2) by (auto simp: extends_def number_json_def)
  moreover have "\<not> has_prefix ''null'' (s @ u)" "\<not> has_prefix ''true'' (s @ u)" "\<not> has_prefix ''false'' (s @ u)"
    using json_number_head [OF n(1)] by (cases s; auto simp: is_digit_def digit_val_def)+
  ultimately show ?thesis using n(2) by (simp add: json_literal_def)
qed

lemma json_value_nonempty: "json_value f d s = Some x \<Longrightarrow> skip_ws s \<noteq> []"
  by (cases f) (auto simp: json_value.simps)

lemma json_members_nonempty: "json_members f d s = Some x \<Longrightarrow> skip_ws s \<noteq> []"
  by (cases f) (auto simp: json_members.simps dest: expect_Some split: option.splits)

lemma json_elems_nonempty: "json_elems f d s = Some x \<Longrightarrow> skip_ws s \<noteq> []"
  by (cases f) (auto simp: json_elems.simps dest: json_value_nonempty split: option.splits)

lemma json_more:
  "json_value f d s = Some (v, r) \<Longrightarrow> f \<le> g \<Longrightarrow> r \<noteq> [] \<or> \<not> number_json v \<Longrightarrow> json_value g d (s @ u) = Some (v, r @ u)"
  "json_elems f d s = Some (vs, r) \<Longrightarrow> f \<le> g \<Longrightarrow> json_elems g d (s @ u) = Some (vs, r @ u)"
  "json_members f d s = Some (ms, r) \<Longrightarrow> f \<le> g \<Longrightarrow> json_members g d (s @ u) = Some (ms, r @ u)"
proof (induction f d s and f d s and f d s arbitrary: v r g and vs r g and ms r g
    rule: json_value_json_elems_json_members.induct)
  case (2 f d s)
  obtain h where g: "g = Suc h" "f \<le> h" using "2.prems"(2) by (cases g) auto
  obtain c t where s: "skip_ws s = c # t" using json_value_nonempty [OF "2.prems"(1)] by (cases "skip_ws s") auto
  then have su: "skip_ws (s @ u) = c # t @ u" by (simp add: skip_ws_more)
  consider (str) "c = quote" | (obj) "c = CHR ''{''" | (arr) "c = CHR ''[''" | (lit) "c \<noteq> quote" "c \<noteq> CHR ''{''" "c \<noteq> CHR ''[''" by blast
  then show ?case
  proof cases
    case str
    then obtain w where w: "json_str t = Some (w, r)" "v = JStr w (take (length t - length r - 1) t)"
      using "2.prems"(1) s by (auto simp: json_value.simps split: option.splits)
    from json_str_Some [OF w(1)] json_str_more [OF w(1), of u] str w(2) show ?thesis
      by (simp add: g(1) json_value.simps su)
  next
    case obj
    have d: "d < max_depth" using "2.prems"(1) s obj by (auto simp: json_value.simps quote_def split: if_splits)
    show ?thesis
    proof (cases "expect (CHR ''}'') t")
      case (Some w)
      then show ?thesis
        using "2.prems"(1) s obj d expect_Some [OF Some] expect_more [of t "CHR ''}''" u]
        by (simp add: g(1) json_value.simps su quote_def)
    next
      case None
      obtain ms where ms: "json_members f (Suc d) t = Some (ms, r)" "v = JObj ms"
        using "2.prems"(1) s obj d None by (auto simp: json_value.simps quote_def split: option.splits)
      have "json_members h (Suc d) (t @ u) = Some (ms, r @ u)"
        using "2.IH"(1) [OF s] obj d None ms(1) g(2) by (simp add: quote_def)
      then show ?thesis
        using s obj d None ms(2) expect_more [OF json_members_nonempty [OF ms(1)], of "CHR ''}''" u]
        by (simp add: g(1) json_value.simps su quote_def)
    qed
  next
    case arr
    have d: "d < max_depth" using "2.prems"(1) s arr by (auto simp: json_value.simps quote_def split: if_splits)
    show ?thesis
    proof (cases "expect (CHR '']'') t")
      case (Some w)
      then show ?thesis
        using "2.prems"(1) s arr d expect_Some [OF Some] expect_more [of t "CHR '']''" u]
        by (simp add: g(1) json_value.simps su quote_def)
    next
      case None
      obtain vs where vs: "json_elems f (Suc d) t = Some (vs, r)" "v = JArr vs"
        using "2.prems"(1) s arr d None by (auto simp: json_value.simps quote_def split: option.splits)
      have "json_elems h (Suc d) (t @ u) = Some (vs, r @ u)"
        using "2.IH"(2) [OF s] arr d None vs(1) g(2) by (simp add: quote_def)
      then show ?thesis
        using s arr d None vs(2) expect_more [OF json_elems_nonempty [OF vs(1)], of "CHR '']''" u]
        by (simp add: g(1) json_value.simps su quote_def)
    qed
  next
    case lit
    then have "json_literal (c # t) = Some (v, r)" using "2.prems"(1) s by (simp add: json_value.simps)
    from literal_more [OF this "2.prems"(3), of u] lit show ?thesis by (simp add: g(1) json_value.simps su)
  qed
next
  case (4 f d s)
  obtain h where g: "g = Suc h" "f \<le> h" using "4.prems"(2) by (cases g) auto
  obtain v r1 where v: "json_value f d s = Some (v, r1)"
    using "4.prems"(1) by (auto simp: json_elems.simps split: option.splits)
  have r1: "skip_ws r1 \<noteq> []" "r1 \<noteq> []"
    using "4.prems"(1) v by (auto simp: json_elems.simps dest: expect_Some split: option.splits)
  have vu: "json_value h d (s @ u) = Some (v, r1 @ u)" using "4.IH"(1) [OF v g(2)] r1(2) by blast
  show ?case
  proof (cases "expect (CHR '']'') r1")
    case (Some w)
    then show ?thesis using "4.prems"(1) v vu expect_more [OF r1(1)] by (simp add: g(1) json_elems.simps)
  next
    case None
    obtain w vs' where w: "expect (CHR '','') r1 = Some w" "json_elems f d w = Some (vs', r)" "vs = v # vs'"
      using "4.prems"(1) v None by (auto simp: json_elems.simps split: option.splits)
    have "json_elems h d (w @ u) = Some (vs', r @ u)" using "4.IH"(2) [OF v refl None w(1)] w(2) g(2) by blast
    then show ?thesis using v vu None w expect_more [OF r1(1)] by (simp add: g(1) json_elems.simps)
  qed
next
  case (6 f d s)
  obtain h where g: "g = Suc h" "f \<le> h" using "6.prems"(2) by (cases g) auto
  obtain t k r0 r1 v r2 where p: "expect quote s = Some t" "json_str t = Some (k, r0)"
      "expect (CHR '':'') r0 = Some r1" "json_value f d r1 = Some (v, r2)"
    using "6.prems"(1) by (auto simp: json_members.simps split: option.splits)
  have r2: "skip_ws r2 \<noteq> []" "r2 \<noteq> []"
    using "6.prems"(1) p by (auto simp: json_members.simps dest: expect_Some split: option.splits)
  have pu: "expect quote (s @ u) = Some (t @ u)" "json_str (t @ u) = Some (k, r0 @ u)"
      "expect (CHR '':'') (r0 @ u) = Some (r1 @ u)" "json_value h d (r1 @ u) = Some (v, r2 @ u)"
    using p(1,3) expect_Some [OF p(1)] expect_Some [OF p(3)] json_str_more [OF p(2), of u]
      "6.IH"(1) [OF p(1,2) refl p(3,4) g(2)] r2(2) by (simp_all add: expect_more)
  show ?case
  proof (cases "expect (CHR ''}'') r2")
    case (Some w)
    then show ?thesis using "6.prems"(1) p pu expect_more [OF r2(1)] by (simp add: g(1) json_members.simps)
  next
    case None
    obtain w ms' where w: "expect (CHR '','') r2 = Some w" "json_members f d w = Some (ms', r)" "ms = (k, v) # ms'"
      using "6.prems"(1) p None by (auto simp: json_members.simps split: option.splits)
    have "json_members h d (w @ u) = Some (ms', r @ u)"
      using "6.IH"(2) [OF p(1,2) refl p(3,4) refl None w(1)] w(2) g(2) by blast
    then show ?thesis using p pu None w expect_more [OF r2(1)] by (simp add: g(1) json_members.simps)
  qed
qed (simp_all add: json_value.simps json_elems.simps json_members.simps)

section \<open>The fuel is enough\<close>

text \<open>
  A value is read with no more fuel than the bytes it takes, so what any fuel reads, \<open>json_decode\<close> reads.
\<close>

lemma extends_shorter:
  "num_digits s = Some (a, r) \<Longrightarrow> length r < length s"
  "num_frac s = Some (a, r) \<Longrightarrow> length r \<le> length s" "num_exp s = Some (a, r) \<Longrightarrow> length r \<le> length s"
proof -
  have dig: "num_digits s = Some (a, r) \<Longrightarrow> length r < length s" for s a r
  proof -
    assume n: "num_digits s = Some (a, r)"
    have "length (takeWhile is_digit s) + length (dropWhile is_digit s) = length s"
      by (metis length_append takeWhile_dropWhile_id)
    moreover have "0 < length (takeWhile is_digit s)" using n by (simp add: num_digits_def split: if_splits)
    ultimately have "length (dropWhile is_digit s) < length s" by linarith
    then show ?thesis using n by (simp add: num_digits_def split: if_splits)
  qed
  show "num_digits s = Some (a, r) \<Longrightarrow> length r < length s" by (rule dig)
  show "num_frac s = Some (a, r) \<Longrightarrow> length r \<le> length s"
    by (cases s) (fastforce simp: num_frac_def split: if_splits dest: dig)+
  show "num_exp s = Some (a, r) \<Longrightarrow> length r \<le> length s"
    by (cases s) (fastforce simp: num_exp_def split: if_splits dest: dig)+
qed

lemma json_number_shorter: "json_number s = Some (n, r) \<Longrightarrow> length r < length s"
proof -
  assume "json_number s = Some (n, r)"
  then obtain x s1 where "num_sign s = Some (x, s1)" "scan_then num_int (scan_then num_frac num_exp) s1 \<noteq> None"
      "\<exists>m. scan_then num_int (scan_then num_frac num_exp) s1 = Some (m, r)"
    by (auto simp: json_number_def scan_then_def [of num_sign] split: option.splits)
  moreover from this(3) obtain a s2 where "num_int s1 = Some (a, s2)" "\<exists>m. scan_then num_frac num_exp s2 = Some (m, r)"
    by (auto simp: scan_then_def [of num_int] split: option.splits)
  moreover from this(2) obtain b s3 e where "num_frac s2 = Some (b, s3)" "num_exp s3 = Some (e, r)"
    by (auto simp: scan_then_def split: option.splits)
  moreover have "length s1 \<le> length s" using \<open>num_sign s = _\<close> by (auto simp: num_sign_def split: if_splits)
  moreover have "length s2 < length s1" using \<open>num_int s1 = _\<close>
    by (cases s1) (auto simp: num_int_def split: if_splits dest: extends_shorter(1))
  ultimately show ?thesis using extends_shorter(2,3) by (meson order.strict_trans1 order.strict_trans2)
qed

lemma literal_shorter: "json_literal s = Some (v, r) \<Longrightarrow> length r < length s"
  by (cases s) (auto simp: json_literal_def has_prefix_iff split: if_splits dest: json_number_shorter)

lemma skip_ws_length: "length (skip_ws s) \<le> length s"
  by (simp add: skip_ws_def length_dropWhile_le)

lemma json_fuel:
  "json_value f d s = Some (v, r) \<Longrightarrow> length r < length s \<and> (\<forall>g. length s \<le> g + length r \<longrightarrow> json_value g d s = Some (v, r))"
  "json_elems f d s = Some (vs, r) \<Longrightarrow> length r < length s \<and> (\<forall>g. length s \<le> g + length r \<longrightarrow> json_elems g d s = Some (vs, r))"
  "json_members f d s = Some (ms, r) \<Longrightarrow> length r < length s \<and> (\<forall>g. length s \<le> g + length r \<longrightarrow> json_members g d s = Some (ms, r))"
proof (induction f d s and f d s and f d s arbitrary: v r and vs r and ms r
    rule: json_value_json_elems_json_members.induct)
  case (2 f d s)
  obtain c t where s: "skip_ws s = c # t" using json_value_nonempty [OF "2.prems"] by (cases "skip_ws s") auto
  have ls: "length t < length s" using skip_ws_length [of s] s by simp
  have suc: "\<exists>h. g = Suc h \<and> length t \<le> h + length r" if "length r \<le> length t" "length s \<le> g + length r" for g
    using that ls by (cases g) auto
  consider (str) "c = quote" | (obj) "c = CHR ''{''" | (arr) "c = CHR ''[''" | (lit) "c \<noteq> quote" "c \<noteq> CHR ''{''" "c \<noteq> CHR ''[''" by blast
  then show ?case
  proof cases
    case str
    then obtain w where w: "json_str t = Some (w, r)" "v = JStr w (take (length t - length r - 1) t)"
      using "2.prems" s by (auto simp: json_value.simps split: option.splits)
    have r: "length r < length t" using json_str_Some [OF w(1)] by simp
    have "json_value g d s = Some (v, r)" if "length s \<le> g + length r" for g
      using suc [OF _ that] r w str s by (auto simp: json_value.simps)
    with r ls show ?thesis by simp
  next
    case obj
    have d: "d < max_depth" using "2.prems" s obj by (auto simp: json_value.simps quote_def split: if_splits)
    show ?thesis
    proof (cases "expect (CHR ''}'') t")
      case (Some w)
      then have r: "w = r" "v = JObj []" using "2.prems" s obj d by (auto simp: json_value.simps quote_def)
      have "json_value g d s = Some (v, r)" if "length s \<le> g + length r" for g
        using suc [OF _ that] expect_Some [OF Some] r Some s obj d by (auto simp: json_value.simps quote_def)
      with expect_Some [OF Some] ls show ?thesis by (simp add: r)
    next
      case None
      obtain ms where ms: "json_members f (Suc d) t = Some (ms, r)" "v = JObj ms"
        using "2.prems" s obj d None by (auto simp: json_value.simps quote_def split: option.splits)
      have ih: "length r < length t \<and> (\<forall>g. length t \<le> g + length r \<longrightarrow> json_members g (Suc d) t = Some (ms, r))"
        using "2.IH"(1) [OF s] obj d None ms(1) by (simp add: quote_def)
      have "json_value g d s = Some (v, r)" if "length s \<le> g + length r" for g
        using suc [OF _ that] ih None s obj d ms(2) by (auto simp: json_value.simps quote_def)
      with ih ls show ?thesis by simp
    qed
  next
    case arr
    have d: "d < max_depth" using "2.prems" s arr by (auto simp: json_value.simps quote_def split: if_splits)
    show ?thesis
    proof (cases "expect (CHR '']'') t")
      case (Some w)
      then have r: "w = r" "v = JArr []" using "2.prems" s arr d by (auto simp: json_value.simps quote_def)
      have "json_value g d s = Some (v, r)" if "length s \<le> g + length r" for g
        using suc [OF _ that] expect_Some [OF Some] r Some s arr d by (auto simp: json_value.simps quote_def)
      with expect_Some [OF Some] ls show ?thesis by (simp add: r)
    next
      case None
      obtain vs where vs: "json_elems f (Suc d) t = Some (vs, r)" "v = JArr vs"
        using "2.prems" s arr d None by (auto simp: json_value.simps quote_def split: option.splits)
      have ih: "length r < length t \<and> (\<forall>g. length t \<le> g + length r \<longrightarrow> json_elems g (Suc d) t = Some (vs, r))"
        using "2.IH"(2) [OF s] arr d None vs(1) by (simp add: quote_def)
      have "json_value g d s = Some (v, r)" if "length s \<le> g + length r" for g
        using suc [OF _ that] ih None s arr d vs(2) by (auto simp: json_value.simps quote_def)
      with ih ls show ?thesis by simp
    qed
  next
    case lit
    then have l: "json_literal (c # t) = Some (v, r)" using "2.prems" s by (simp add: json_value.simps)
    then have r: "length r \<le> length t" using literal_shorter by fastforce
    have "json_value g d s = Some (v, r)" if "length s \<le> g + length r" for g
      using suc [OF r that] lit l s by (auto simp: json_value.simps)
    with r ls show ?thesis by simp
  qed
next
  case (4 f d s)
  obtain v r1 where v: "json_value f d s = Some (v, r1)"
    using "4.prems" by (auto simp: json_elems.simps split: option.splits)
  note ih1 = "4.IH"(1) [OF v]
  show ?case
  proof (cases "expect (CHR '']'') r1")
    case (Some w)
    then have r: "w = r" "vs = [v]" using "4.prems" v by (auto simp: json_elems.simps)
    have lt: "length r < length r1" using expect_Some [OF Some] r by simp
    have "json_elems g d s = Some (vs, r)" if "length s \<le> g + length r" for g
      using that ih1 lt Some r by (cases g) (auto simp: json_elems.simps)
    with lt ih1 show ?thesis by simp
  next
    case None
    obtain w vs' where w: "expect (CHR '','') r1 = Some w" "json_elems f d w = Some (vs', r)" "vs = v # vs'"
      using "4.prems" v None by (auto simp: json_elems.simps split: option.splits)
    note ih2 = "4.IH"(2) [OF v refl None w(1,2)]
    have lt: "length w < length r1" using expect_Some [OF w(1)] by simp
    have "json_elems g d s = Some (vs, r)" if "length s \<le> g + length r" for g
      using that ih1 ih2 lt None w(1,3) by (cases g) (auto simp: json_elems.simps)
    with lt ih1 ih2 show ?thesis by simp
  qed
next
  case (6 f d s)
  obtain t k r0 r1 v r2 where p: "expect quote s = Some t" "json_str t = Some (k, r0)"
      "expect (CHR '':'') r0 = Some r1" "json_value f d r1 = Some (v, r2)"
    using "6.prems" by (auto simp: json_members.simps split: option.splits)
  note ih1 = "6.IH"(1) [OF p(1,2) refl p(3,4)]
  have lt: "length r1 < length s" using expect_Some [OF p(1)] expect_Some [OF p(3)] json_str_Some [OF p(2)] by simp
  show ?case
  proof (cases "expect (CHR ''}'') r2")
    case (Some w)
    then have r: "w = r" "ms = [(k, v)]" using "6.prems" p by (auto simp: json_members.simps)
    have lt2: "length r < length r2" using expect_Some [OF Some] r by simp
    have "json_members g d s = Some (ms, r)" if "length s \<le> g + length r" for g
      using that ih1 lt lt2 Some r p by (cases g) (auto simp: json_members.simps)
    with lt lt2 ih1 show ?thesis by simp
  next
    case None
    obtain w ms' where w: "expect (CHR '','') r2 = Some w" "json_members f d w = Some (ms', r)" "ms = (k, v) # ms'"
      using "6.prems" p None by (auto simp: json_members.simps split: option.splits)
    note ih2 = "6.IH"(2) [OF p(1,2) refl p(3,4) refl None w(1,2)]
    have lt2: "length w < length r2" using expect_Some [OF w(1)] by simp
    have "json_members g d s = Some (ms, r)" if "length s \<le> g + length r" for g
      using that ih1 ih2 lt lt2 None w(1,3) p by (cases g) (auto simp: json_members.simps)
    with lt lt2 ih1 ih2 show ?thesis by simp
  qed
qed (simp_all add: json_value.simps json_elems.simps json_members.simps)

lemma json_decode_complete: "json_value f 0 s = Some (v, r) \<Longrightarrow> json_decode s = Some (v, r)"
  using json_fuel(1) [of f 0 s v r] by (simp add: json_decode_def)

section \<open>Reading back what was written\<close>

lemma digit_char: "(d :: nat) < 10 \<Longrightarrow> is_digit (char_of (48 + d))"
  by (simp add: is_digit_def digit_val_char_of)

lemma nat_digits_digits: "\<forall>c \<in> set (nat_digits n). is_digit c"
proof (induction n rule: nat_digits.induct)
  case (1 n)
  then show ?case by (subst nat_digits.simps) (auto simp: digit_char)
qed

lemma nat_digits_zero: "n \<noteq> 0 \<Longrightarrow> hd (nat_digits n) \<noteq> CHR ''0'' \<and> nat_digits n \<noteq> []"
proof (induction n rule: nat_digits.induct)
  case (1 n)
  show ?case
  proof (cases "n < 10")
    case True
    have "char_of (48 + n) \<noteq> (CHR ''0'' :: char)"
    proof
      assume "char_of (48 + n) = (CHR ''0'' :: char)"
      then have "byte (char_of (48 + n)) = byte CHR ''0''" by (rule arg_cong)
      with True "1.prems" show False by simp
    qed
    with True show ?thesis by (subst (1 2) nat_digits.simps) simp
  next
    case False
    with 1 show ?thesis by (subst (1 2) nat_digits.simps) simp
  qed
qed

definition ends_number :: "string \<Rightarrow> bool" where
  "ends_number t \<longleftrightarrow> t \<noteq> [] \<and> \<not> is_digit (hd t) \<and> hd t \<notin> {CHR ''.'', CHR ''e'', CHR ''E''}"

lemma num_rest:
  assumes "ends_number t"
  shows "scan_then num_frac num_exp t = Some ([], t)"
  using assms by (cases t) (auto simp: ends_number_def scan_then_def num_frac_def num_exp_def)

lemma num_int_nat:
  assumes "ends_number t"
  shows "scan_then num_int (scan_then num_frac num_exp) (nat_digits n @ t) = Some (nat_digits n, t)"
proof (cases "n = 0")
  case True
  have "nat_digits 0 = ''0''" by (subst nat_digits.simps) (simp add: char_of_def bit_0)
  then show ?thesis using True num_rest [OF assms] by (simp add: scan_then_def num_int_def)
next
  case False
  obtain c s where c: "nat_digits n = c # s" "c \<noteq> CHR ''0''"
    using nat_digits_zero [OF False] by (cases "nat_digits n") auto
  have t: "takeWhile is_digit t = []" "dropWhile is_digit t = t" using assms by (cases t; simp add: ends_number_def)+
  have "takeWhile is_digit (nat_digits n @ t) = nat_digits n" "dropWhile is_digit (nat_digits n @ t) = t"
    using nat_digits_digits t by (simp_all add: takeWhile_append2 dropWhile_append2)
  then have "num_int (nat_digits n @ t) = Some (nat_digits n, t)" using c by (simp add: num_int_def num_digits_def)
  then show ?thesis using num_rest [OF assms] by (simp add: scan_then_def)
qed

lemma json_number_itoa:
  assumes "ends_number t"
  shows "json_number (itoa n @ t) = Some (itoa n, t)"
proof (cases "n < 0")
  case True
  then show ?thesis
    using num_int_nat [OF assms, of "nat (- n)"] by (simp add: json_number_def itoa_def scan_then_def [of num_sign] num_sign_def)
next
  case False
  obtain c s where c: "nat_digits (nat n) = c # s" "is_digit c" using nat_digits_head by blast
  then have "c \<noteq> CHR ''-''" by (auto simp: is_digit_def digit_val_def)
  with False c num_int_nat [OF assms, of "nat n"] show ?thesis
    by (simp add: json_number_def itoa_def scan_then_def [of num_sign] num_sign_def)
qed

fun json_of_field :: "field \<Rightarrow> json" where
  "json_of_field (FString s) = JStr (to_valid s) (json_esc s)"
| "json_of_field (FInt n) = JNum (itoa n)"

lemma skip_ws_Cons: "c \<notin> {CHR 0x20, CHR 0x09, CHR 0x0A, CHR 0x0D} \<Longrightarrow> skip_ws (c # s) = c # s"
  by (simp add: skip_ws_def)

lemma expect_Cons: "c \<notin> {CHR 0x20, CHR 0x09, CHR 0x0A, CHR 0x0D} \<Longrightarrow> expect d (c # s) = (if c = d then Some s else None)"
  by (simp add: expect_def skip_ws_Cons)

lemma itoa_head: "\<exists>c s. itoa n = c # s \<and> (c = CHR ''-'' \<or> is_digit c)"
  using nat_digits_head [of "nat n"] by (auto simp: itoa_def)

lemma read_field:
  assumes "ends_number t"
  shows "json_value (Suc f) d (encode_field v @ t) = Some (json_of_field v, t)"
proof (cases v)
  case (FString s)
  then show ?thesis
    using json_str_esc [of s t] by (simp add: json_string_def json_value.simps skip_ws_Cons quote_def)
next
  case (FInt n)
  obtain c s where c: "itoa n = c # s" "c = CHR ''-'' \<or> is_digit c" using itoa_head by blast
  then have no: "c \<notin> {CHR 0x20, CHR 0x09, CHR 0x0A, CHR 0x0D, quote, CHR ''{'', CHR ''['', CHR ''n'', CHR ''t'', CHR ''f''}"
    by (auto simp: is_digit_def digit_val_def quote_def)
  have "json_literal (c # s @ t) = Some (JNum (itoa n), t)"
    using no json_number_itoa [OF assms, of n] c(1) by (auto simp: json_literal_def)
  then show ?thesis using no c(1) by (simp add: FInt json_value.simps skip_ws_Cons)
qed

lemma read_member:
  assumes "ends_number t"
  shows "json_members (Suc (Suc g)) d (encode_member m @ t) =
    (case expect (CHR ''}'') t of
       Some u \<Rightarrow> Some ([(to_valid (fst m), json_of_field (snd m))], u)
     | None \<Rightarrow> (case expect (CHR '','') t of None \<Rightarrow> None
               | Some u \<Rightarrow> (case json_members (Suc g) d u of None \<Rightarrow> None
                            | Some (ms, r) \<Rightarrow> Some ((to_valid (fst m), json_of_field (snd m)) # ms, r))))"
  using read_field [OF assms, of g d "snd m"] json_str_esc [of "fst m" "CHR '':'' # encode_field (snd m) @ t"]
  by (simp add: encode_member_def json_string_def json_members.simps [of "Suc g"] expect_Cons) (simp add: expect_Cons quote_def)

lemma read_members:
  "ms \<noteq> [] \<Longrightarrow> length ms < f \<Longrightarrow>
    json_members f d (encode_members ms @ CHR ''}'' # t) = Some (map (\<lambda>(k, v). (to_valid k, json_of_field v)) ms, t)"
proof (induction ms arbitrary: f rule: encode_members.induct)
  case (2 m)
  obtain g where f: "f = Suc (Suc g)" using "2.prems"(2) by (cases f; cases "f - 1") auto
  have "ends_number (CHR ''}'' # t)" by (simp add: ends_number_def is_digit_def digit_val_def)
  from read_member [OF this, of g d m] show ?case by (simp add: f expect_Cons split_beta)
next
  case (3 m m' ms)
  let ?r = "encode_members (m' # ms) @ CHR ''}'' # t"
  obtain g where f: "f = Suc (Suc g)" using "3.prems"(2) by (cases f; cases "f - 1") auto
  have "ends_number (CHR '','' # ?r)" by (simp add: ends_number_def is_digit_def digit_val_def)
  from read_member [OF this, of g d m]
  have "json_members f d (encode_member m @ CHR '','' # ?r) =
      (case json_members (Suc g) d ?r of None \<Rightarrow> None
       | Some (ms, r) \<Rightarrow> Some ((to_valid (fst m), json_of_field (snd m)) # ms, r))"
    by (simp add: f expect_Cons del: encode_members.simps)
  moreover have "json_members (Suc g) d ?r = Some (map (\<lambda>(k, v). (to_valid k, json_of_field v)) (m' # ms), t)"
    using "3.IH" [of "Suc g"] "3.prems"(2) by (simp add: f del: encode_members.simps)
  moreover have "encode_members (m # m' # ms) @ CHR ''}'' # t = encode_member m @ CHR '','' # ?r" by simp
  ultimately show ?case by (simp add: split_beta del: encode_members.simps)
qed simp

lemma encode_members_length: "2 * length ms \<le> length (encode_members ms)"
  by (induction ms rule: encode_members.induct) (simp_all add: encode_member_def json_string_def)

lemma encode_members_head: "ms \<noteq> [] \<Longrightarrow> \<exists>s. encode_members ms = quote # s"
  by (cases ms rule: encode_members.cases) (simp_all add: encode_member_def json_string_def)

lemma decode_encode_object:
  "json_decode (encode_object ms @ t) = Some (JObj (map (\<lambda>(k, v). (to_valid k, json_of_field v)) ms), t)"
proof (cases "ms = []")
  case True
  then show ?thesis
    by (simp add: json_decode_def encode_object_def json_value.simps skip_ws_Cons quote_def max_depth_def expect_Cons)
next
  case False
  let ?n = "length (encode_object ms @ t)"
  have "length ms < ?n" using encode_members_length [of ms] by (simp add: encode_object_def)
  from read_members [OF False this, of 1 t] have
    m: "json_members ?n (Suc 0) (encode_members ms @ CHR ''}'' # t) = Some (map (\<lambda>(k, v). (to_valid k, json_of_field v)) ms, t)"
    by simp
  obtain s where s: "encode_members ms = quote # s" using encode_members_head [OF False] by blast
  have "expect (CHR ''}'') (encode_members ms @ CHR ''}'' # t) = None"
    by (simp add: s expect_Cons quote_def)
  with m show ?thesis
    unfolding json_decode_def
    by (simp add: json_value.simps encode_object_def skip_ws_Cons quote_def max_depth_def)
qed

text \<open>An object of which the end is missing does not read.\<close>

lemma decode_cut_object:
  assumes "n < length (encode_object ms)"
  shows "json_decode (take n (encode_object ms)) = None"
proof (rule ccontr)
  let ?e = "encode_object ms"
  assume "json_decode (take n ?e) \<noteq> None"
  then obtain v r where vr: "json_decode (take n ?e) = Some (v, r)" by auto
  then have "n \<noteq> 0" by (cases n) (auto simp: json_decode_def json_value.simps skip_ws_def)
  then obtain w where w: "take n ?e = CHR ''{'' # w" by (cases n) (auto simp: encode_object_def)
  have "\<not> number_json v"
    using vr by (auto simp: w json_decode_def json_value.simps skip_ws_Cons quote_def number_json_def split: if_splits option.splits)
  moreover have "Suc (length (take n ?e)) \<le> Suc (length ?e)" by simp
  ultimately have "json_value (Suc (length ?e)) 0 (take n ?e @ drop n ?e) = Some (v, r @ drop n ?e)"
    using json_more(1) vr unfolding json_decode_def by blast
  then have "json_decode ?e = Some (v, r @ drop n ?e)" by (simp add: json_decode_def)
  with decode_encode_object [of ms "[]"] assms show False by simp
qed

end
