(* ===== verification/Router.thy ===== *)
theory Router
  imports Auth Telemetry JsonValue
begin

text \<open>
  The rest of \<open>router.go\<close> and \<open>response.go\<close>: the bodies of the responses as JSON, the middlewares for panics,
  metrics and the access log around the routes of theory Auth, and the version handler. Parameters: chi's
  \<open>RoutePattern\<close>, the text of a time stamp, and the duration and size the wrapped writer reports.
\<close>

section \<open>Bodies\<close>

definition omit_empty :: "(string \<times> field) list \<Rightarrow> (string \<times> field) list" where
  "omit_empty = filter (\<lambda>m. \<not> empty_field (snd m))"

text \<open>The members of \<open>jobResponse\<close> by their tags; \<open>fmt\<close> formats a time in UTC.\<close>

definition job_members :: "(time \<Rightarrow> string) \<Rightarrow> jobResponse \<Rightarrow> (string \<times> field) list" where
  "job_members fmt r =
     [(''id'', FString (JR_ID r)), (''status'', FString (JR_Status r))] @
     omit_empty [(''text'', FString (JR_Text r)), (''file_name'', FString (JR_FileName r)),
                 (''content_type'', FString (JR_ContentType r))] @
     [(''size_bytes'', FInt (JR_SizeBytes r))] @
     omit_empty [(''result_summary'', FString (JR_ResultSummary r)), (''error_message'', FString (JR_ErrorMessage r))] @
     [(''attempts'', FInt (JR_Attempts r)), (''created_at'', FString (fmt (JR_CreatedAt r))),
      (''updated_at'', FString (fmt (JR_UpdatedAt r)))] @
     (case JR_CompletedAt r of None \<Rightarrow> [] | Some t \<Rightarrow> [(''completed_at'', FString (fmt t))])"

text \<open>\<open>errorBody\<close> around \<open>errorDetail\<close>.\<close>

definition error_json :: "string \<Rightarrow> string \<Rightarrow> string \<Rightarrow> string" where
  "error_json code msg requestID =
     CHR ''{'' # json_string ''error'' @ CHR '':'' #
       encode_object ([(''code'', FString code), (''message'', FString msg)] @ omit_empty [(''request_id'', FString requestID)])
     @ ''}''"

definition writeJSON :: "(time \<Rightarrow> string) \<Rightarrow> string \<Rightarrow> resp_body \<Rightarrow> bytes" where
  "writeJSON fmt requestID b =
     (case b of
        JobBody r \<Rightarrow> encode_object (job_members fmt r) @ [CHR 0x0A]
      | ErrorBody code msg \<Rightarrow> error_json code msg requestID @ [CHR 0x0A]
      | RawBody s \<Rightarrow> s
      | NoBody \<Rightarrow> [])"

text \<open>A map is encoded with its keys in order.\<close>

definition VersionHandler :: "buildinfo \<Rightarrow> config \<Rightarrow> response" where
  "VersionHandler b cfg =
     \<lparr>R_status = 200, R_headers = [],
      R_body = RawBody (encode_object [(''commit'', FString (Commit b)), (''mode'', FString (AppMode cfg)),
                                       (''version'', FString (Version b))] @ [CHR 0x0A])\<rparr>"

section \<open>Middlewares\<close>

text \<open>
  A handler answers, or panics (\<open>None\<close>). Beside the state of the application it changes what is observed:
  the metric calls and the access log.
\<close>

record access_entry =
  A_method :: string
  A_path :: string
  A_route :: string
  A_status :: int
  A_bytes :: int
  A_request_id :: string
  A_trace :: "(string \<times> string) option"

record observed =
  samples :: "sample list"
  access :: "access_entry list"

type_synonym 'w mux = "'w \<times> observed \<Rightarrow> response option \<times> 'w \<times> observed"

text \<open>A call: the request, what chi says its pattern was, how long it took, its request id and span.\<close>

record http_call =
  C_method :: string
  C_path :: string
  C_authorization :: string
  C_xApiKey :: string
  C_pattern :: "string option"
  C_took :: duration
  C_reqid :: string
  C_span :: "(string \<times> string) option"

definition routePattern :: "http_call \<Rightarrow> string" where
  "routePattern c =
     (case C_pattern c of None \<Rightarrow> ''unmatched'' | Some p \<Rightarrow> if p \<noteq> '''' then p else ''unmatched'')"

text \<open>\<open>ww.Status()\<close> is 0 for a handler that wrote nothing, and \<open>ww.BytesWritten()\<close> the length of the body.\<close>

definition ww_status :: "response \<Rightarrow> int" where
  "ww_status r = (if r = unwritten then 0 else R_status r)"

definition ww_bytes :: "(time \<Rightarrow> string) \<Rightarrow> http_call \<Rightarrow> response \<Rightarrow> int" where
  "ww_bytes fmt c r = int (length (writeJSON fmt (C_reqid c) (R_body r)))"

definition metrics :: "(time \<Rightarrow> string) \<Rightarrow> http_call \<Rightarrow> 'w mux \<Rightarrow> 'w mux" where
  "metrics fmt c next s =
     (if C_path c = ''/metrics'' then next s
      else case next s of
             (None, s') \<Rightarrow> (None, s')
           | (Some r, w, ob) \<Rightarrow>
               (Some r, w, ob\<lparr>samples := samples ob @
                  [Inc HTTPRequests [C_method c, routePattern c, itoa (ww_status r)],
                   Observe HTTPDuration [C_method c, routePattern c] (C_took c),
                   Observe HTTPResponseBytes [C_method c, routePattern c] (ww_bytes fmt c r)]\<rparr>))"

definition accessLog :: "(time \<Rightarrow> string) \<Rightarrow> http_call \<Rightarrow> 'w mux \<Rightarrow> 'w mux" where
  "accessLog fmt c next s =
     (case next s of
        (None, s') \<Rightarrow> (None, s')
      | (Some r, w, ob) \<Rightarrow>
          (Some r, w, ob\<lparr>access := access ob @
             [\<lparr>A_method = C_method c, A_path = C_path c, A_route = routePattern c, A_status = ww_status r,
               A_bytes = ww_bytes fmt c r, A_request_id = C_reqid c, A_trace = C_span c\<rparr>]\<rparr>))"

text \<open>chi's \<open>Recoverer\<close>, outermost of the three: a panic becomes a 500 without a body.\<close>

definition panic_response :: response where
  "panic_response = \<lparr>R_status = 500, R_headers = [], R_body = NoBody\<rparr>"

definition recoverer :: "'w mux \<Rightarrow> 'w \<times> observed \<Rightarrow> response \<times> 'w \<times> observed" where
  "recoverer next s = (case next s of (None, s') \<Rightarrow> (panic_response, s') | (Some r, s') \<Rightarrow> (r, s'))"

definition instrumented :: "(time \<Rightarrow> string) \<Rightarrow> http_call \<Rightarrow> 'w mux \<Rightarrow> 'w \<times> observed \<Rightarrow> response \<times> 'w \<times> observed" where
  "instrumented fmt c next = recoverer (metrics fmt c (accessLog fmt c next))"

text \<open>
  A handler of a route answers or panics, with whatever it changed until then. Every handler of the package writes its
  answer as the last thing it does, so that a panic comes before anything is written; none panics with
  \<open>http.ErrAbortHandler\<close>. The key check passes a panic of the handler behind it on: the flag beside the state
  carries it through \<open>serve\<close>, where the response of a panicking handler is never looked at.
\<close>

type_synonym 'w handlers = "route \<Rightarrow> 'w \<Rightarrow> response option \<times> 'w"

definition may_panic :: "'w handlers \<Rightarrow> route \<Rightarrow> 'w \<times> bool \<Rightarrow> response \<times> 'w \<times> bool" where
  "may_panic handlers rt s =
     (case handlers rt (fst s) of (None, w) \<Rightarrow> (unwritten, w, True) | (Some r, w) \<Rightarrow> (r, w, snd s))"

definition answer ::
  "(string \<Rightarrow> 'd) \<Rightarrow> string list \<Rightarrow> 'w handlers \<Rightarrow> http_call \<Rightarrow> 'w \<Rightarrow> response option \<times> 'w" where
  "answer sha keys handlers c w =
     (case serve sha keys (may_panic handlers) (C_method c) (C_path c) (C_authorization c) (C_xApiKey c) (w, False) of
        (r, w', panicked) \<Rightarrow> (if panicked then None else Some r, w'))"

text \<open>\<open>NewRouter\<close>; and the filter of the tracing around it.\<close>

definition NewRouter ::
  "(time \<Rightarrow> string) \<Rightarrow> (string \<Rightarrow> 'd) \<Rightarrow> string list \<Rightarrow> 'w handlers \<Rightarrow> http_call \<Rightarrow>
   'w \<times> observed \<Rightarrow> response \<times> 'w \<times> observed" where
  "NewRouter fmt sha keys handlers c =
     instrumented fmt c (\<lambda>(w, ob). case answer sha keys handlers c w of (r, w') \<Rightarrow> (r, w', ob))"

definition traced :: "string \<Rightarrow> bool" where
  "traced path \<longleftrightarrow> path \<notin> {''/healthz'', ''/readyz'', ''/metrics''}"

section \<open>Properties\<close>

definition request_samples :: "(time \<Rightarrow> string) \<Rightarrow> http_call \<Rightarrow> response \<Rightarrow> sample list" where
  "request_samples fmt c r =
     (if C_path c = ''/metrics'' then []
      else [Inc HTTPRequests [C_method c, routePattern c, itoa (ww_status r)],
            Observe HTTPDuration [C_method c, routePattern c] (C_took c),
            Observe HTTPResponseBytes [C_method c, routePattern c] (ww_bytes fmt c r)])"

definition log_entry :: "(time \<Rightarrow> string) \<Rightarrow> http_call \<Rightarrow> response \<Rightarrow> access_entry" where
  "log_entry fmt c r =
     \<lparr>A_method = C_method c, A_path = C_path c, A_route = routePattern c, A_status = ww_status r,
      A_bytes = ww_bytes fmt c r, A_request_id = C_reqid c, A_trace = C_span c\<rparr>"

lemma instrumented_answer:
  assumes "next (w, ob) = (Some r, w', ob)"
  shows "instrumented fmt c next (w, ob) =
    (r, w', ob\<lparr>samples := samples ob @ request_samples fmt c r, access := access ob @ [log_entry fmt c r]\<rparr>)"
  using assms
  by (cases "C_path c = ''/metrics''")
     (auto simp: instrumented_def recoverer_def metrics_def accessLog_def request_samples_def log_entry_def)

text \<open>What a call adds to the samples and to the log; nothing, if its handler panics.\<close>

definition call_samples :: "(time \<Rightarrow> string) \<Rightarrow> http_call \<Rightarrow> response option \<Rightarrow> sample list" where
  "call_samples fmt c a = (case a of None \<Rightarrow> [] | Some r \<Rightarrow> request_samples fmt c r)"

definition call_entries :: "(time \<Rightarrow> string) \<Rightarrow> http_call \<Rightarrow> response option \<Rightarrow> access_entry list" where
  "call_entries fmt c a = (case a of None \<Rightarrow> [] | Some r \<Rightarrow> [log_entry fmt c r])"

definition recovered :: "response option \<Rightarrow> response" where
  "recovered a = (case a of None \<Rightarrow> panic_response | Some r \<Rightarrow> r)"

lemma NewRouter_answer:
  assumes "answer sha keys handlers c w = (a, w')"
  shows "NewRouter fmt sha keys handlers c (w, ob) =
    (recovered a, w', ob\<lparr>samples := samples ob @ call_samples fmt c a, access := access ob @ call_entries fmt c a\<rparr>)"
proof (cases a)
  case None
  with assms show ?thesis
    by (simp add: NewRouter_def instrumented_def recoverer_def metrics_def accessLog_def recovered_def call_samples_def
        call_entries_def)
next
  case (Some r)
  with assms show ?thesis
    unfolding NewRouter_def recovered_def call_samples_def call_entries_def
    by (simp add: instrumented_answer)
qed

text \<open>A sequence of calls, from a state and what was observed so far; and the same calls as the handlers answer them.\<close>

fun serve_all ::
  "(time \<Rightarrow> string) \<Rightarrow> (string \<Rightarrow> 'd) \<Rightarrow> string list \<Rightarrow> 'w handlers \<Rightarrow> http_call list \<Rightarrow>
   'w \<times> observed \<Rightarrow> response list \<times> 'w \<times> observed" where
  "serve_all fmt sha keys handlers [] s = ([], s)"
| "serve_all fmt sha keys handlers (c # cs) s =
     (case NewRouter fmt sha keys handlers c s of
        (r, s1) \<Rightarrow> (case serve_all fmt sha keys handlers cs s1 of (rs, s2) \<Rightarrow> (r # rs, s2)))"

fun answers ::
  "(string \<Rightarrow> 'd) \<Rightarrow> string list \<Rightarrow> 'w handlers \<Rightarrow> http_call list \<Rightarrow> 'w \<Rightarrow> response option list \<times> 'w" where
  "answers sha keys handlers [] w = ([], w)"
| "answers sha keys handlers (c # cs) w =
     (case answer sha keys handlers c w of
        (a, w1) \<Rightarrow> (case answers sha keys handlers cs w1 of (xs, w2) \<Rightarrow> (a # xs, w2)))"

lemma serve_all_answers:
  assumes "answers sha keys handlers cs w = (xs, w')"
  shows "length xs = length cs \<and> serve_all fmt sha keys handlers cs (w, ob) =
    (map recovered xs, w', ob\<lparr>samples := samples ob @ concat (map2 (call_samples fmt) cs xs),
                              access := access ob @ concat (map2 (call_entries fmt) cs xs)\<rparr>)"
  using assms
proof (induction cs arbitrary: w ob xs)
  case (Cons c cs)
  obtain a w1 where a: "answer sha keys handlers c w = (a, w1)" by fastforce
  with Cons.prems obtain ys where ys: "answers sha keys handlers cs w1 = (ys, w')" "xs = a # ys"
    by (auto split: prod.splits)
  show ?case using Cons.IH [OF ys(1)] by (simp add: NewRouter_answer [OF a] ys(2))
qed auto

text \<open>The entries of the log that the metrics count: a request for \<open>/metrics\<close> is logged, not counted.\<close>

definition logged :: "string \<Rightarrow> string \<Rightarrow> (string \<Rightarrow> bool) \<Rightarrow> access_entry list \<Rightarrow> int" where
  "logged m pat ok es =
     int (length (filter (\<lambda>e. A_path e \<noteq> ''/metrics'' \<and> A_method e = m \<and> A_route e = pat \<and> ok (itoa (A_status e))) es))"

definition observations :: "metric \<Rightarrow> string list \<Rightarrow> sample list \<Rightarrow> int" where
  "observations m vs ss = int (length (filter (\<lambda>s. sample_series s = (m, vs)) ss))"

lemma logged_append [simp]: "logged m pat ok [] = 0" "logged m pat ok (es @ es') = logged m pat ok es + logged m pat ok es'"
  by (simp_all add: logged_def)

lemma observations_append [simp]:
  "observations m vs [] = 0" "observations m vs (ss @ ss') = observations m vs ss + observations m vs ss'"
  by (simp_all add: observations_def)

lemma call_agree:
  "counted HTTPRequests [m, pat, st] (call_samples fmt c a) = logged m pat (\<lambda>x. x = st) (call_entries fmt c a)"
  "h \<in> {HTTPDuration, HTTPResponseBytes} \<Longrightarrow>
     observations h [m, pat] (call_samples fmt c a) = logged m pat (\<lambda>_. True) (call_entries fmt c a)"
  by (auto simp: call_samples_def call_entries_def request_samples_def log_entry_def logged_def observations_def
      split: option.splits)

lemma calls_agree:
  "counted HTTPRequests [m, pat, st] (concat (map2 (call_samples fmt) cs xs)) =
     logged m pat (\<lambda>x. x = st) (concat (map2 (call_entries fmt) cs xs))"
  "h \<in> {HTTPDuration, HTTPResponseBytes} \<Longrightarrow>
     observations h [m, pat] (concat (map2 (call_samples fmt) cs xs)) =
     logged m pat (\<lambda>_. True) (concat (map2 (call_entries fmt) cs xs))"
  by (induction cs xs rule: list_induct2') (auto simp: call_agree)

lemma map_entries:
  "map (\<lambda>e. (A_method e, A_path e, A_route e, A_status e)) (concat (map2 (call_entries fmt) cs xs)) =
   concat (map2 (\<lambda>c a. case a of None \<Rightarrow> [] | Some r \<Rightarrow> [(C_method c, C_path c, routePattern c, ww_status r)]) cs xs)"
  by (induction cs xs rule: list_induct2') (auto simp: call_entries_def log_entry_def split: option.split)

text \<open>A job body reads back, member by member.\<close>

lemma job_body_reads:
  "json_decode (writeJSON fmt rid (JobBody r)) =
     Some (JObj (map (\<lambda>(k, v). (to_valid k, json_of_field v)) (job_members fmt r)), [CHR 0x0A])"
  by (simp add: writeJSON_def decode_encode_object)

text \<open>
  C31. The metrics and the access log agree, and observing changes nothing. Any sequence of calls, with handlers
  that answer or panic, is answered as the routes, the key check and the handlers answer it (a panic as a 500)
  and leaves the state they leave. The log grows by one line for each call that did not panic, in order, with its
  method, path, route pattern and the status that was written; and for every method, pattern and status the
  counter of requests grows by the number of those lines that are not for \<open>/metrics\<close>, as do the numbers of
  durations and of sizes for every method and pattern. A call that panicked is in neither.
\<close>
theorem requests_counted_once:
  assumes "answers sha keys handlers cs w = (xs, w')"
    and "serve_all fmt sha keys handlers cs (w, ob) = (rs, w2, ob2)"
  shows "w2 = w' \<and> rs = map (\<lambda>a. case a of None \<Rightarrow> panic_response | Some r \<Rightarrow> r) xs \<and>
    (\<exists>new. access ob2 = access ob @ new \<and>
      map (\<lambda>e. (A_method e, A_path e, A_route e, A_status e)) new =
        concat (map2 (\<lambda>c a. case a of None \<Rightarrow> [] | Some r \<Rightarrow> [(C_method c, C_path c, routePattern c, ww_status r)]) cs xs) \<and>
      (\<forall>m pat st. counted HTTPRequests [m, pat, st] (samples ob2) =
        counted HTTPRequests [m, pat, st] (samples ob) + logged m pat (\<lambda>x. x = st) new) \<and>
      (\<forall>m pat. \<forall>h \<in> {HTTPDuration, HTTPResponseBytes}.
        observations h [m, pat] (samples ob2) = observations h [m, pat] (samples ob) + logged m pat (\<lambda>_. True) new))"
proof (intro conjI exI)
  note run = conjunct2 [OF serve_all_answers [OF assms(1), of fmt ob], unfolded assms(2)]
  let ?new = "concat (map2 (call_entries fmt) cs xs)"
  show "w2 = w'" "rs = map (\<lambda>a. case a of None \<Rightarrow> panic_response | Some r \<Rightarrow> r) xs" "access ob2 = access ob @ ?new"
    using run by (auto simp: recovered_def)
  show "\<forall>m pat st. counted HTTPRequests [m, pat, st] (samples ob2) =
      counted HTTPRequests [m, pat, st] (samples ob) + logged m pat (\<lambda>x. x = st) ?new"
    using run by (auto simp: calls_agree(1))
  show "\<forall>m pat. \<forall>h \<in> {HTTPDuration, HTTPResponseBytes}.
      observations h [m, pat] (samples ob2) = observations h [m, pat] (samples ob) + logged m pat (\<lambda>_. True) ?new"
    using run calls_agree(2) by auto
qed (rule map_entries)

text \<open>One call is refused for its key, one is answered, one panics: two lines, two counts, three responses.\<close>

definition odd_handlers :: "nat handlers" where
  "odd_handlers rt n = (case rt of RGetJob _ \<Rightarrow> (None, Suc n) | _ \<Rightarrow> (Some Healthz, Suc n))"

definition sample_call :: "string \<Rightarrow> string \<Rightarrow> http_call" where
  "sample_call path key = \<lparr>C_method = ''GET'', C_path = path, C_authorization = '''', C_xApiKey = key,
     C_pattern = Some path, C_took = 5, C_reqid = ''r'', C_span = None\<rparr>"

theorem requests_counted_once_witness:
  "\<exists>rs ob2. serve_all (\<lambda>_. ''now'') id [''k''] odd_handlers
      [sample_call ''/api/v1/jobs/1'' '''', sample_call ''/healthz'' '''', sample_call ''/api/v1/jobs/1'' ''k'']
      (0, \<lparr>samples = [], access = []\<rparr>) = (rs, 2, ob2) \<and>
    map R_status rs = [401, 200, 500] \<and> length (access ob2) = 2 \<and>
    counted HTTPRequests [''GET'', ''/api/v1/jobs/1'', ''401''] (samples ob2) = 1 \<and>
    counted HTTPRequests [''GET'', ''/api/v1/jobs/1'', ''500''] (samples ob2) = 0"
proof -
  let ?cs = "[sample_call ''/api/v1/jobs/1'' '''', sample_call ''/healthz'' '''', sample_call ''/api/v1/jobs/1'' ''k'']"
  let ?refused = "(writeError (Sentinel ErrUnauthorized))
      \<lparr>R_headers := [(''WWW-Authenticate'', ''Bearer realm=\"payload-service\"'')]\<rparr>"
  have ans: "answers id [''k''] odd_handlers ?cs 0 = ([Some ?refused, Some Healthz, None], 2)" by code_simp
  obtain rs w2 ob2 where run: "serve_all (\<lambda>_. ''now'') id [''k''] odd_handlers ?cs (0, \<lparr>samples = [], access = []\<rparr>) = (rs, w2, ob2)"
    using prod_cases3 by blast
  note res = requests_counted_once [OF ans run]
  obtain new where new: "access ob2 = new"
    "map (\<lambda>e. (A_method e, A_path e, A_route e, A_status e)) new =
      [(''GET'', ''/api/v1/jobs/1'', ''/api/v1/jobs/1'', ww_status ?refused), (''GET'', ''/healthz'', ''/healthz'', ww_status Healthz)]"
    "\<And>st. counted HTTPRequests [''GET'', ''/api/v1/jobs/1'', st] (samples ob2) = logged ''GET'' ''/api/v1/jobs/1'' (\<lambda>x. x = st) new"
    using res by (auto simp: sample_call_def routePattern_def)
  have st: "ww_status ?refused = 401" "R_status Healthz = 200" "R_status ?refused = 401" "R_status panic_response = 500" by code_simp+
  have i: "itoa 401 = ''401''" by code_simp
  from new(2) obtain e1 e2 where e: "new = [e1, e2]" by (auto simp: map_eq_Cons_conv)
  have "logged ''GET'' ''/api/v1/jobs/1'' (\<lambda>x. x = ''401'') new = 1" "logged ''GET'' ''/api/v1/jobs/1'' (\<lambda>x. x = ''500'') new = 0"
    using new(2) st(1) i by (auto simp: e logged_def)
  with new res st run e show ?thesis by auto
qed

text \<open>
  A request whose handler panics is not observed. The client gets a 500, but the metrics and the access
  log sit inside the recoverer and run after the handler, so nothing is counted and no line is logged:
  the errors that matter most are missing from the rate of errors.
\<close>
theorem panic_is_not_observed:
  assumes "next (w, ob) = (None, w', ob)"
  shows "instrumented fmt c next (w, ob) = (panic_response, w', ob)"
  using assms by (simp add: instrumented_def recoverer_def metrics_def accessLog_def)

theorem panic_is_not_observed_witness:
  "instrumented (\<lambda>_. ''now'') \<lparr>C_method = ''GET'', C_path = ''/api/v1/jobs/1'', C_authorization = '''', C_xApiKey = '''',
     C_pattern = Some ''/api/v1/jobs/{id}'', C_took = 5, C_reqid = ''r'', C_span = None\<rparr> (\<lambda>(w, ob). (None, Suc w, ob))
     (0 :: nat, \<lparr>samples = [], access = []\<rparr>) = (panic_response, 1, \<lparr>samples = [], access = []\<rparr>)"
  by (subst panic_is_not_observed) simp_all

definition series :: "observed \<Rightarrow> (metric \<times> string list) set" where
  "series ob = set (map sample_series (samples ob))"

lemma serve_all_series:
  assumes "answers sha keys handlers cs w = (xs, w')"
  shows "series (snd (snd (serve_all fmt sha keys handlers cs (w, ob)))) =
    series ob \<union> (\<Union>(c, a) \<in> set (zip cs xs). set (map sample_series (call_samples fmt c a)))"
  using serve_all_answers [OF assms, of fmt ob] by (simp add: series_def image_Un image_UN split_def)

definition probe :: "nat \<Rightarrow> http_call" where
  "probe n = \<lparr>C_method = replicate n (CHR ''A''), C_path = ''/'', C_authorization = '''', C_xApiKey = '''',
     C_pattern = None, C_took = 0, C_reqid = '''', C_span = None\<rparr>"

lemma probes_answered:
  assumes "\<And>w. fst (handlers RNone w) \<noteq> None"
  shows "None \<notin> set (fst (answers sha keys handlers (map probe ns) w))"
proof (induction ns arbitrary: w)
  case (Cons k ns)
  have "route_of (C_method (probe k)) (C_path (probe k)) = RNone" "\<not> guarded (C_path (probe k))"
    by (simp_all add: probe_def route_of_def guarded_def cut_prefix_def has_prefix_def jobs_prefix_def)
  then have "fst (answer sha keys handlers (probe k) w) \<noteq> None"
    using assms [of w] by (auto simp: answer_def serve_def may_panic_def split: option.splits prod.splits)
  with Cons.IH show ?case by (auto split: prod.splits) (metis fst_conv)+
qed simp

text \<open>
  A client without a key decides how many series there are. The labels take the route's pattern so
  that paths cannot multiply them, but the method is taken from the request as it is: for every number
  there are that many requests, to a path that does not exist and without a key, that leave at least
  that many series of the request counter in the process. The answer to a path without a handler is chi's,
  which does not panic.
\<close>
theorem series_unbounded_by_method:
  assumes "\<And>w. fst (handlers RNone w) \<noteq> None"
  shows "\<exists>cs. length cs = n \<and> (\<forall>c \<in> set cs. C_path c = ''/'' \<and> C_authorization c = '''' \<and> C_xApiKey c = '''') \<and>
    n \<le> card {vs. (HTTPRequests, vs) \<in> series (snd (snd (serve_all fmt sha keys handlers cs (w, ob))))}"
proof (intro exI conjI)
  let ?cs = "map probe [0..<n]"
  obtain xs w' where ans: "answers sha keys handlers ?cs w = (xs, w')" by fastforce
  let ?S = "{vs. (HTTPRequests, vs) \<in> series (snd (snd (serve_all fmt sha keys handlers ?cs (w, ob))))}"
  show "length ?cs = n" "\<forall>c \<in> set ?cs. C_path c = ''/'' \<and> C_authorization c = '''' \<and> C_xApiKey c = ''''"
    by (simp_all add: probe_def)
  have "?S \<subseteq> snd ` series (snd (snd (serve_all fmt sha keys handlers ?cs (w, ob))))" by force
  then have fin: "finite ?S" by (rule finite_subset) (simp add: series_def)
  have "(\<lambda>k. replicate k (CHR ''A'')) ` {0..<n} \<subseteq> hd ` ?S"
  proof
    fix m
    assume "m \<in> (\<lambda>k. replicate k (CHR ''A'')) ` {0..<n}"
    then obtain k where k: "k < n" "m = replicate k (CHR ''A'')" by auto
    have len: "length xs = n" using serve_all_answers [OF ans] by simp
    then have "xs ! k \<noteq> None"
      using probes_answered [of handlers sha keys "[0..<n]" w] assms ans k(1) by (metis fst_conv nth_mem)
    then obtain r where r: "xs ! k = Some r" by blast
    have "(probe k, xs ! k) \<in> set (zip ?cs xs)" using k(1) len by (auto simp: set_zip intro!: exI [of _ k])
    moreover have "(HTTPRequests, [m, routePattern (probe k), itoa (ww_status r)]) \<in>
        set (map sample_series (call_samples fmt (probe k) (xs ! k)))"
      by (simp add: r call_samples_def request_samples_def) (simp add: probe_def k(2))
    ultimately have "[m, routePattern (probe k), itoa (ww_status r)] \<in> ?S"
      unfolding serve_all_series [OF ans] by blast
    then show "m \<in> hd ` ?S" by force
  qed
  then have "card ((\<lambda>k. replicate k (CHR ''A'')) ` {0..<n}) \<le> card (hd ` ?S)"
    using fin by (intro card_mono finite_imageI)
  moreover have "card (hd ` ?S) \<le> card ?S" by (rule card_image_le [OF fin])
  moreover have "inj_on (\<lambda>k. replicate k (CHR ''A'')) {0..<n}" by (rule inj_onI) (metis length_replicate)
  then have "card ((\<lambda>k. replicate k (CHR ''A'')) ` {0..<n}) = n" by (simp add: card_image)
  ultimately show "n \<le> card ?S" by linarith
qed

end
