(* ===== verification/Metrics.thy ===== *)
theory Metrics
  imports WorkerPool Uploads Router
begin

text \<open>
  What the worker, the store and the handlers report to the collectors of theory Telemetry, call by call:
  the calls always fit the collectors, and the counts say what happened to the rows.
\<close>

section \<open>The worker\<close>

definition recordFailure_samples :: "config \<Rightarrow> job \<Rightarrow> goerr \<Rightarrow> pg \<Rightarrow> sample list" where
  "recordFailure_samples cfg job cause p =
     (if errors_is cause ErrPermanent then []
      else case fst (Retry (ID job) (err_text cause) (MaxAttempts cfg) (RetryBackoffBase cfg) (RetryBackoffMax cfg) p) of
             Inr True \<Rightarrow> [Inc JobsRetried []]
           | _ \<Rightarrow> [])"

text \<open>\<open>d\<close> is the time since the job was started, when the duration is observed.\<close>

definition process_samples ::
  "config \<Rightarrow> job \<Rightarrow> goerr + ProcessResult \<Rightarrow> duration \<Rightarrow> duration \<Rightarrow> pg \<Rightarrow> sample list" where
  "process_samples cfg job res took d p =
     (case res of
        Inl e \<Rightarrow> ObserveJobDuration ''failed'' d @ [Inc ProcessorErrors []] @
                 recordFailure_samples cfg job e (final_pg took p)
      | Inr r \<Rightarrow> (case fst (Complete (ID job) (Summary r) (final_pg took p)) of
                   Some e \<Rightarrow> ObserveJobDuration ''failed'' d
                 | None \<Rightarrow> ObserveJobDuration ''completed'' d))"

definition claim_samples :: "goerr + job list \<Rightarrow> sample list" where
  "claim_samples r =
     (case r of Inl e \<Rightarrow> []
      | Inr jobs \<Rightarrow> if jobs = [] then [] else [Add JobsClaimed [] (int (length jobs))])"

definition reap_samples :: "goerr + nat \<Rightarrow> sample list" where
  "reap_samples r = (case r of Inl e \<Rightarrow> [] | Inr n \<Rightarrow> if n > 0 then [Add JobsReaped [] (int n)] else [])"

section \<open>The store\<close>

definition put_mode :: "store_cfg \<Rightarrow> int \<Rightarrow> string" where
  "put_mode c sz = (if sz > 0 \<and> sz < multipartThreshold c then ''put'' else if sz > 0 then ''multipart'' else ''auto'')"

definition Put_samples :: "store_cfg \<Rightarrow> int \<Rightarrow> duration \<Rightarrow> goerr + int \<Rightarrow> sample list" where
  "Put_samples c sz d r =
     ObserveS3Upload (put_mode c sz) d (case r of Inl e \<Rightarrow> False | Inr n \<Rightarrow> True) @
     (case r of Inl e \<Rightarrow> [] | Inr n \<Rightarrow> [Add S3UploadBytes [] n])"

text \<open>The uploaders count a part when it has been recorded.\<close>

definition part_samples :: "'s pipe \<Rightarrow> sample list" where
  "part_samples p = replicate (length (p_parts p)) (Inc S3MultipartParts [])"

section \<open>What a success of Put says is never negative\<close>

lemma pipe_total_pos: "pipe_step api key uid c m p = Some q \<Longrightarrow> 0 \<le> p_total p \<Longrightarrow> 0 \<le> p_total q"
  by (cases m)
     (auto simp: set_up_def fail_up_def split: producer.splits prod.splits if_splits option.splits uploader.splits
        list.splits sum.splits)

lemma multipart_total_pos:
  assumes "fst (fst (putMultipartFromFirst api c sched key first body ct s)) = Inr n"
  shows "0 \<le> n"
proof -
  obtain uid s1 where uid: "api_create api key ct s = (Inr uid, s1)"
    using assms by (cases "api_create api key ct s"; cases "fst (api_create api key ct s)")
      (auto simp: putMultipartFromFirst_def)
  let ?p = "run_pipe api key uid c sched (pipe_init c first body s1)"
  have "0 \<le> p_total ?p"
    by (rule run_pipe_invariant [where I = "\<lambda>p. 0 \<le> p_total p"]) (auto intro: pipe_total_pos simp: pipe_init_def)
  moreover have "n = p_total ?p"
    using assms by (auto simp: putMultipartFromFirst_def uid finish_pipe_def Let_def split: prod.splits option.splits producer.splits)
  ultimately show ?thesis by simp
qed

lemma put_written_pos:
  assumes "fst (fst (Put api c sched key body sz ct s)) = Inr n"
  shows "0 \<le> n"
proof -
  have single: "0 \<le> n" if "fst (fst (putObject api key b k ct s)) = Inr n" "0 \<le> k" for b k
    using that by (auto simp: putObject_def split: prod.splits option.splits)
  have auto: "0 \<le> n" if "fst (fst (putAuto api c sched key body ct s)) = Inr n"
  proof -
    obtain bs e b where f: "fill (nat (partSize c)) body = ((bs, e), b)" by (metis prod.exhaust)
    show ?thesis
    proof (cases e)
      case None
      then show ?thesis
        using that multipart_total_pos [of api c sched key "Some bs" b ct s n] by (simp add: putAuto_def f)
    next
      case (Some x)
      then have "fst (fst (putObject api key (Stream [Data bs None]) (int (length bs)) ct s)) = Inr n"
        using that by (auto simp: putAuto_def f split: if_splits prod.splits)
      then show ?thesis by (rule single) simp
    qed
  qed
  show ?thesis
    using assms single multipart_total_pos auto by (auto simp: Put_def split: if_splits)
qed

section \<open>Properties\<close>

text \<open>The labels that are no constants: the method, a token; the pattern chi reports; the linker's and the mode's text.\<close>

definition call_ok :: "http_call \<Rightarrow> bool" where
  "call_ok c \<longleftrightarrow> is_ascii (C_method c) \<and> (\<forall>p. C_pattern c = Some p \<longrightarrow> valid_utf8 p)"

lemma labels_ok_Nil: "O_labels (metric_opts m) = [] \<Longrightarrow> labels_ok m []"
  by (simp add: labels_ok_def)

lemma route_valid: "call_ok c \<Longrightarrow> valid_utf8 (routePattern c)"
  by (auto simp: call_ok_def routePattern_def valid_utf8_ascii is_ascii_def split: option.split)

lemma request_samples_ok: "call_ok c \<Longrightarrow> list_all sample_ok (request_samples fmt c r)"
  using route_valid [of c]
  by (auto simp: request_samples_def labels_ok_def call_ok_def valid_utf8_ascii itoa_ascii)

lemma plain_labels: "labels_ok BuildInfo [a, b, c] = list_all valid_utf8 [a, b, c]"
  "labels_ok JobDuration [a] = valid_utf8 a" "labels_ok S3UploadDuration [a, b] = list_all valid_utf8 [a, b]"
  by (simp_all add: labels_ok_def)

lemma text_valid:
  "valid_utf8 ''failed''" "valid_utf8 ''completed''" "valid_utf8 ''ok''" "valid_utf8 ''error''"
  "valid_utf8 ''put''" "valid_utf8 ''multipart''" "valid_utf8 ''auto''"
  by (simp_all add: valid_utf8_ascii is_ascii_def)

lemma process_samples_ok: "list_all sample_ok (process_samples cfg job res took d p)"
  by (auto simp: process_samples_def recordFailure_samples_def ObserveJobDuration_def plain_labels text_valid labels_ok_Nil
      split: sum.split option.split bool.split)

lemma claim_samples_ok: "list_all sample_ok (claim_samples r)" "list_all sample_ok (reap_samples r')"
  by (auto simp: claim_samples_def reap_samples_def labels_ok_Nil split: sum.split)

lemma Put_samples_ok: "list_all sample_ok (Put_samples c sz d (fst (fst (Put api c sched key body sz ct s))))"
  using put_written_pos [of api c sched key body sz ct s]
  by (auto simp: Put_samples_def ObserveS3Upload_def put_mode_def plain_labels text_valid labels_ok_Nil split: sum.split)

lemma part_samples_ok: "list_all sample_ok (part_samples p)"
  by (simp add: part_samples_def list_all_iff labels_ok_Nil)

lemma gauge_samples_ok: "list_all sample_ok (StartPendingGauge f ps)"
  by (induction ps) (auto simp: labels_ok_Nil split: sum.split)

lemma request_step_samples:
  assumes "request_step api cfg (x, used, ss) (y, used', ss')" and "list_all sample_ok ss"
  shows "list_all sample_ok ss'"
  using assms by cases (auto simp: labels_ok_Nil)

lemma up_samples_ok: "uploads_reachable api cfg u \<Longrightarrow> list_all sample_ok (up_samples u)"
proof (induction rule: uploads_reachable.induct)
  case (step u v)
  from step(2) show ?case
  proof cases
    case (act as x bs y used ss)
    then show ?thesis using request_step_samples step(3) by fastforce
  qed (use step(3) in simp)
qed simp

text \<open>
  C32. The metrics cannot bring the process down. Registration accepts the collectors the package declares
  (well-formed unique names, distinct labels, increasing buckets), and every call the router, the upload
  slots, the store, the worker, the reaper and the queue gauge make gives each label of its collector one
  valid value, fits the collector's kind, and never adds a negative amount to a counter: none of the
  conditions under which the library panics can occur.
\<close>
theorem metric_calls_never_panic:
  assumes "call_ok c" and "list_all valid_utf8 [Version b, Commit b, mode]" and "uploads_reachable api cfg u"
  shows "registers (map metric_opts all_metrics) \<and> set all_metrics = UNIV \<and>
    list_all sample_ok (SetBuildInfo b mode @ request_samples fmt c r @ up_samples u @
      Put_samples sc sz d (fst (fst (Put api' sc sched key body sz ct s))) @ part_samples pp @
      claim_samples cl @ process_samples cfg job res took d' p @ reap_samples n @ StartPendingGauge f ticks)"
  using assms(2)
  by (simp add: all_metrics_register all_metrics_UNIV request_samples_ok [OF assms(1)] up_samples_ok [OF assms(3)]
      Put_samples_ok part_samples_ok claim_samples_ok process_samples_ok gauge_samples_ok SetBuildInfo_def plain_labels)

definition job_call :: http_call where
  "job_call = \<lparr>C_method = ''GET'', C_path = ''/api/v1/jobs/1'', C_authorization = '''', C_xApiKey = '''',
     C_pattern = Some ''/api/v1/jobs/{id}'', C_took = 5, C_reqid = ''r'', C_span = None\<rparr>"

theorem metric_calls_never_panic_witness:
  "list_all sample_ok (request_samples (\<lambda>_. ''now'') job_call Healthz) \<and>
   request_samples (\<lambda>_. ''now'') job_call Healthz ! 0 = Inc HTTPRequests [''GET'', ''/api/v1/jobs/{id}'', ''200'']"
proof -
  have c: "call_ok job_call" by (simp add: call_ok_def job_call_def is_ascii_def valid_utf8_ascii)
  have b: "list_all valid_utf8 [Version default_build, Commit default_build, ''all'']"
    by (simp add: default_build_def valid_utf8_ascii is_ascii_def)
  have u: "uploads_reachable (fake_api no_url) worker_cfg \<lparr>phases = [], slots_used = 0, up_samples = []\<rparr>"
    by (rule uploads_reachable.start)
  have "list_all sample_ok (request_samples (\<lambda>_. ''now'') job_call Healthz)"
    by (rule metric_calls_never_panic [OF c b u, unfolded list_all_append, THEN conjunct2, THEN conjunct2,
          THEN conjunct2, THEN conjunct1])
  moreover have "itoa 200 = ''200''" by code_simp
  ultimately show ?thesis
    by (simp add: request_samples_def job_call_def routePattern_def ww_status_def Healthz_def unwritten_def)
qed

text \<open>
  C33. The job metrics say what happened to the rows. On a server that answers, with an outcome in time, a job
  in processing makes one observation of its duration, under \<open>completed\<close> exactly when its row became
  completed; it counts a processor error exactly when it did not, and a retry exactly when the row went
  back to pending.
\<close>
theorem job_metrics_are_true:
  assumes "row_of (rows p) (ID job) = Some r" and "Status r = StatusProcessing"
    and "distinct (map ID (rows p))" and "next_fault p = Reply" and "took < final_timeout"
    and "row_of (rows (snd (Worker.process cfg job res took p))) (ID job) = Some k"
  shows "process_samples cfg job res took d p =
    [Observe JobDuration [if Status k = StatusCompleted then ''completed'' else ''failed''] d] @
    (if Status k = StatusCompleted then [] else [Inc ProcessorErrors []]) @
    (if Status k = StatusPending then [Inc JobsRetried []] else [])"
proof -
  have "rows (snd (Worker.process cfg job res took p)) =
      update_where (owned (ID job)) (settled_row cfg res (db_now p)) (rows p)"
    using process_prompt [OF assms(1-5)] by simp
  then have k: "k = settled_row cfg res (db_now p) r"
    using row_of_owned_update(1) [OF assms(1,2), of "settled_row cfg res (db_now p)"] assms(6) by simp
  show ?thesis
  proof (cases res)
    case (Inr out)
    have "fst (Complete (ID job) (Summary out) (final_pg took p)) = None"
      using affected_owned_Some [OF assms(1,2)] assms(4,5) by (simp add: final_pg_early Complete_def exec_one_Reply)
    then show ?thesis
      using Inr by (simp add: process_samples_def ObserveJobDuration_def k settled_row_def complete_row_def)
  next
    case (Inl e)
    have f: "find (owned (ID job)) (rows p) = Some r" using find_owned [OF assms(3)] assms(1,2) by simp
    show ?thesis
      using Inl assms(4,5) f
      by (auto simp: process_samples_def recordFailure_samples_def ObserveJobDuration_def k settled_row_def fail_row_def
          final_pg_early Retry_def round_trip_Reply sql_retry_def Let_def retry_row_def split: bool.split)
  qed
qed

theorem job_metrics_are_true_witness:
  "process_samples worker_cfg (sample_job ''a'' 1) (Inl (Opaque ''down'')) 1000 1500 (sample_pg running_table) =
     [Observe JobDuration [''failed''] 1500, Inc ProcessorErrors [], Inc JobsRetried []]"
proof -
  let ?e = "Opaque ''down'' :: goerr"
  let ?k = "settled_row worker_cfg (Inl ?e) 5 (claim_row 9 ''w'' 5 (sample_job ''a'' 1))"
  have i: "ID (sample_job ''a'' 1) = ''a''" by (simp add: sample_job_def zero_job_def)
  have d: "distinct (map ID (rows (sample_pg running_table)))"
    using reachable_table_ok [OF running_reachable] by (simp add: table_ok_def)
  have "MaxAttempts worker_cfg = 5" by code_simp
  then have st: "Status ?k = StatusPending" by (simp add: settled_row_def retry_row_def running_row)
  have p: "row_of (rows (sample_pg running_table)) (ID (sample_job ''a'' 1)) = Some (claim_row 9 ''w'' 5 (sample_job ''a'' 1))"
    "next_fault (sample_pg running_table) = Reply" "1000 < final_timeout"
    using running_row(1) by (simp_all add: i final_timeout_def)
  have "row_of (rows (snd (Worker.process worker_cfg (sample_job ''a'' 1) (Inl ?e) 1000 (sample_pg running_table))))
      (ID (sample_job ''a'' 1)) = Some ?k"
    using process_prompt [OF p(1) running_row(2) d p(2,3), of worker_cfg "Inl ?e"]
      row_of_owned_update(1) [OF running_row(1,2), of "settled_row worker_cfg (Inl ?e) 5"] by (simp add: i)
  from job_metrics_are_true [OF p(1) running_row(2) d p(2,3) this] show ?thesis using st by simp
qed

end
