(* ===== verification/Columns.thy ===== *)
theory Columns
  imports JobRepo Utf8 Processor WorkerSpec
begin

text \<open>
  The rows of \<open>internal/storage/postgres/jobs.go\<close> column by column: what \<open>Create\<close> sends, what a column of the
  type the migrations give it makes of the value (a UUID in canonical form, a time to the microsecond, text only if
  the server can store it), and what \<open>scanJob\<close> reads through \<open>jobColumns\<close>; and the opening of the pool.
\<close>

section \<open>Values and columns\<close>

datatype sqlval = VText string | VInt int | VTime time | VNull

definition jobColumns :: "string list" where
  "jobColumns =
     [''id'', ''status'', ''text_content'', ''object_key'', ''content_type'', ''file_name'',
      ''size_bytes'', ''result_summary'', ''error_message'', ''attempts'', ''trace_context'',
      ''idempotency_key'', ''locked_by'', ''lease_until'', ''next_attempt_at'',
      ''created_at'', ''updated_at'', ''completed_at'']"

text \<open>The column list of the \<open>INSERT\<close>, written out a second time in the code, and its arguments.\<close>

definition insert_columns :: "string list" where
  "insert_columns =
     [''id'', ''status'', ''text_content'', ''object_key'', ''content_type'', ''file_name'',
      ''size_bytes'', ''result_summary'', ''error_message'', ''attempts'', ''trace_context'',
      ''idempotency_key'', ''locked_by'', ''lease_until'', ''next_attempt_at'',
      ''created_at'', ''updated_at'', ''completed_at'']"

definition time_val :: "time option \<Rightarrow> sqlval" where
  "time_val t = (case t of None \<Rightarrow> VNull | Some x \<Rightarrow> VTime x)"

definition insert_args :: "job \<Rightarrow> sqlval list" where
  "insert_args j =
     [VText (ID j), VText (status_text (Status j)), VText (Text j), VText (ObjectKey j), VText (ContentType j),
      VText (FileName j), VInt (SizeBytes j), VText (ResultSummary j), VText (ErrorMessage j), VInt (Attempts j),
      VText (TraceContext j), VText (IdempotencyKey j), VText (LockedBy j), time_val (LeaseUntil j),
      time_val (NextAttemptAt j), VTime (CreatedAt j), VTime (UpdatedAt j), time_val (CompletedAt j)]"

text \<open>
  A UTF-8 database takes a text parameter only if it is valid UTF-8 and has no zero byte; otherwise it answers with an
  error (SQLSTATE 22021) and does not execute the statement.
\<close>

definition storable :: "string \<Rightarrow> bool" where
  "storable s \<longleftrightarrow> valid_utf8 s \<and> CHR 0x00 \<notin> set s"

text \<open>The columns of \<open>migrations/001_jobs.sql\<close>, and those that 002 and 003 add.\<close>

datatype column =
    UUID | STATUS | TEXT | BIGINT | INTEGER
  | TIMESTAMPTZ \<comment> \<open>\<open>NOT NULL\<close>\<close>
  | TIMESTAMPTZ_NULL

definition jobs_table :: "(string \<times> column) list" where
  "jobs_table =
     [(''id'', UUID), (''status'', STATUS), (''text_content'', TEXT), (''object_key'', TEXT), (''content_type'', TEXT),
      (''file_name'', TEXT), (''size_bytes'', BIGINT), (''result_summary'', TEXT), (''error_message'', TEXT),
      (''attempts'', INTEGER), (''trace_context'', TEXT), (''lease_until'', TIMESTAMPTZ_NULL),
      (''created_at'', TIMESTAMPTZ), (''updated_at'', TIMESTAMPTZ), (''completed_at'', TIMESTAMPTZ_NULL)]"

definition added_columns :: "(string \<times> column) list" where
  "added_columns = [(''locked_by'', TEXT), (''next_attempt_at'', TIMESTAMPTZ_NULL), (''idempotency_key'', TEXT)]"

definition column_type :: "string \<rightharpoonup> column" where
  "column_type = map_of (jobs_table @ added_columns)"

text \<open>
  What a column keeps of a value sent to it, \<open>None\<close> where the insert is refused. \<open>pg_uuid\<close> is the reading of a text
  as a UUID, in canonical form; \<open>micro\<close> brings a time to the resolution of \<open>TIMESTAMPTZ\<close>, a microsecond. \<open>NULL\<close> goes
  only into a column that allows it.
\<close>

fun to_column :: "(string \<Rightarrow> string option) \<Rightarrow> (time \<Rightarrow> time) \<Rightarrow> column \<Rightarrow> sqlval \<Rightarrow> sqlval option" where
  "to_column pg_uuid micro UUID (VText s) = map_option VText (pg_uuid s)"
| "to_column pg_uuid micro STATUS (VText s) =
     (if s \<in> {''pending'', ''processing'', ''completed'', ''failed''} then Some (VText s) else None)"
| "to_column pg_uuid micro TEXT (VText s) = (if storable s then Some (VText s) else None)"
| "to_column pg_uuid micro BIGINT (VInt n) = (if - (2 ^ 63) \<le> n \<and> n < 2 ^ 63 then Some (VInt n) else None)"
| "to_column pg_uuid micro INTEGER (VInt n) = (if - (2 ^ 31) \<le> n \<and> n < 2 ^ 31 then Some (VInt n) else None)"
| "to_column pg_uuid micro TIMESTAMPTZ (VTime t) = Some (VTime (micro t))"
| "to_column pg_uuid micro TIMESTAMPTZ_NULL (VTime t) = Some (VTime (micro t))"
| "to_column pg_uuid micro TIMESTAMPTZ_NULL VNull = Some VNull"
| "to_column pg_uuid micro _ _ = None"

text \<open>The row the insert leaves, by column name, or \<open>None\<close> if a value is refused; a \<open>SELECT\<close> with a column list.\<close>

definition column_value :: "(string \<Rightarrow> string option) \<Rightarrow> (time \<Rightarrow> time) \<Rightarrow> string \<Rightarrow> sqlval \<Rightarrow> sqlval option" where
  "column_value pg_uuid micro c v = (case column_type c of None \<Rightarrow> None | Some t \<Rightarrow> to_column pg_uuid micro t v)"

definition insert_row :: "(string \<Rightarrow> string option) \<Rightarrow> (time \<Rightarrow> time) \<Rightarrow> job \<Rightarrow> (string \<rightharpoonup> sqlval) option" where
  "insert_row pg_uuid micro j =
     map_option (\<lambda>vs. map_of (zip insert_columns vs))
       (those (map2 (column_value pg_uuid micro) insert_columns (insert_args j)))"

definition select_columns :: "string list \<Rightarrow> (string \<rightharpoonup> sqlval) \<Rightarrow> sqlval option list" where
  "select_columns cs row = map row cs"

section \<open>scanJob\<close>

text \<open>\<open>Scan\<close> into a \<open>string\<close>, an integer, a \<open>time.Time\<close>, a \<open>*time.Time\<close>: \<open>NULL\<close> goes only into the last.\<close>

fun scan_text :: "sqlval option \<Rightarrow> string option" where
  "scan_text (Some (VText s)) = Some s" | "scan_text _ = None"

fun scan_int :: "sqlval option \<Rightarrow> int option" where
  "scan_int (Some (VInt n)) = Some n" | "scan_int _ = None"

fun scan_time :: "sqlval option \<Rightarrow> time option" where
  "scan_time (Some (VTime t)) = Some t" | "scan_time _ = None"

fun scan_null_time :: "sqlval option \<Rightarrow> time option option" where
  "scan_null_time (Some (VTime t)) = Some (Some t)" | "scan_null_time (Some VNull) = Some None"
| "scan_null_time _ = None"

text \<open>\<open>domain.Status(status)\<close>; the table's check admits these four texts.\<close>

definition status_of :: "string \<Rightarrow> status option" where
  "status_of s = find (\<lambda>st. status_text st = s) [StatusPending, StatusProcessing, StatusCompleted, StatusFailed]"

definition scanJob :: "sqlval option list \<Rightarrow> job option" where
  "scanJob vs =
     (case vs of
        [c1, c2, c3, c4, c5, c6, c7, c8, c9, c10, c11, c12, c13, c14, c15, c16, c17, c18] \<Rightarrow>
          (case (scan_text c1, Option.bind (scan_text c2) status_of, scan_text c3, scan_text c4, scan_text c5,
                 scan_text c6, scan_int c7, scan_text c8, scan_text c9) of
             (Some i, Some st, Some t, Some k, Some ct, Some f, Some n, Some su, Some er) \<Rightarrow>
               (case (scan_int c10, scan_text c11, scan_text c12, scan_text c13, scan_null_time c14,
                      scan_null_time c15, scan_time c16, scan_time c17, scan_null_time c18) of
                  (Some n2, Some tr, Some ik, Some lb, Some lu, Some na, Some cr, Some up, Some co) \<Rightarrow>
                    Some \<lparr>ID = i, Status = st, Text = t, ObjectKey = k, ContentType = ct, FileName = f,
                          SizeBytes = n, ResultSummary = su, ErrorMessage = er, Attempts = n2, TraceContext = tr,
                          IdempotencyKey = ik, LockedBy = lb, LeaseUntil = lu, NextAttemptAt = na,
                          CreatedAt = cr, UpdatedAt = up, CompletedAt = co\<rparr>
                | _ \<Rightarrow> None)
           | _ \<Rightarrow> None)
      | _ \<Rightarrow> None)"

section \<open>The pool\<close>

text \<open>
  \<open>NewPool\<close>: \<open>parsed\<close> is the limit in the parsed URL, \<open>connect\<close> and \<open>ping\<close> how those calls end. The result is
  the limit of the pool, and whether a pool was opened and closed again.
\<close>

datatype pool_event = PoolOpen | PoolPing | PoolClose

definition NewPool ::
  "goerr + int \<Rightarrow> goerr option \<Rightarrow> goerr option \<Rightarrow> int \<Rightarrow> (goerr + int) \<times> pool_event list" where
  "NewPool parsed connect ping maxConns =
     (case parsed of
        Inl e \<Rightarrow> (Inl (wrap ''parse database url'' e), [])
      | Inr n0 \<Rightarrow>
          (let n = (if maxConns > 0 then maxConns else n0)
           in case connect of
                Some e \<Rightarrow> (Inl (wrap ''connect database'' e), [])
              | None \<Rightarrow>
                  (case ping of
                     Some e \<Rightarrow> (Inl (wrap ''ping database'' e), [PoolOpen, PoolPing, PoolClose])
                   | None \<Rightarrow> (Inr n, [PoolOpen, PoolPing]))))"

lemma NewPool_no_leak:
  "PoolClose \<in> set (snd (NewPool parsed connect ping n)) \<longleftrightarrow>
   PoolOpen \<in> set (snd (NewPool parsed connect ping n)) \<and> (\<exists>e. fst (NewPool parsed connect ping n) = Inl e)"
  by (auto simp: NewPool_def Let_def split: sum.split option.split)

section \<open>Reading back a row\<close>

lemma status_of_text: "status_of (status_text st) = Some st"
  by (cases st) (simp_all add: status_of_def)

lemma scan_null_time_val: "scan_null_time (Some (time_val t)) = Some t"
  by (cases t) (simp_all add: time_val_def)

text \<open>The jobs whose every value its column takes, and what comes back of one.\<close>

definition job_texts :: "job \<Rightarrow> string list" where
  "job_texts j = [Text j, ObjectKey j, ContentType j, FileName j, ResultSummary j, ErrorMessage j, TraceContext j,
     IdempotencyKey j, LockedBy j]"

definition insertable :: "(string \<Rightarrow> string option) \<Rightarrow> job \<Rightarrow> bool" where
  "insertable pg_uuid j \<longleftrightarrow> pg_uuid (ID j) \<noteq> None \<and> list_all storable (job_texts j) \<and>
     - (2 ^ 63) \<le> SizeBytes j \<and> SizeBytes j < 2 ^ 63 \<and> - (2 ^ 31) \<le> Attempts j \<and> Attempts j < 2 ^ 31"

definition as_stored :: "(string \<Rightarrow> string option) \<Rightarrow> (time \<Rightarrow> time) \<Rightarrow> job \<Rightarrow> job" where
  "as_stored pg_uuid micro j =
     j\<lparr>ID := (case pg_uuid (ID j) of None \<Rightarrow> ID j | Some i \<Rightarrow> i), LeaseUntil := map_option micro (LeaseUntil j),
       NextAttemptAt := map_option micro (NextAttemptAt j), CreatedAt := micro (CreatedAt j),
       UpdatedAt := micro (UpdatedAt j), CompletedAt := map_option micro (CompletedAt j)\<rparr>"

definition job_times :: "job \<Rightarrow> time list" where
  "job_times j = CreatedAt j # UpdatedAt j #
     concat (map (\<lambda>t. case t of None \<Rightarrow> [] | Some x \<Rightarrow> [x]) [LeaseUntil j, NextAttemptAt j, CompletedAt j])"

lemma column_value_simps [simp]:
  "column_value u m ''id'' v = to_column u m UUID v"
  "column_value u m ''status'' v = to_column u m STATUS v"
  "column_value u m ''text_content'' v = to_column u m TEXT v"
  "column_value u m ''object_key'' v = to_column u m TEXT v"
  "column_value u m ''content_type'' v = to_column u m TEXT v"
  "column_value u m ''file_name'' v = to_column u m TEXT v"
  "column_value u m ''size_bytes'' v = to_column u m BIGINT v"
  "column_value u m ''result_summary'' v = to_column u m TEXT v"
  "column_value u m ''error_message'' v = to_column u m TEXT v"
  "column_value u m ''attempts'' v = to_column u m INTEGER v"
  "column_value u m ''trace_context'' v = to_column u m TEXT v"
  "column_value u m ''idempotency_key'' v = to_column u m TEXT v"
  "column_value u m ''locked_by'' v = to_column u m TEXT v"
  "column_value u m ''lease_until'' v = to_column u m TIMESTAMPTZ_NULL v"
  "column_value u m ''next_attempt_at'' v = to_column u m TIMESTAMPTZ_NULL v"
  "column_value u m ''created_at'' v = to_column u m TIMESTAMPTZ v"
  "column_value u m ''updated_at'' v = to_column u m TIMESTAMPTZ v"
  "column_value u m ''completed_at'' v = to_column u m TIMESTAMPTZ_NULL v"
  by (simp_all add: column_value_def column_type_def jobs_table_def added_columns_def)

lemma to_column_time: "to_column u m TIMESTAMPTZ_NULL (time_val t) = Some (time_val (map_option m t))"
  by (cases t) (simp_all add: time_val_def)

lemma insert_values:
  "those (map2 (column_value u m) insert_columns (insert_args j)) =
    (if insertable u j then Some (insert_args (as_stored u m j)) else None)"
  by (cases "u (ID j)"; cases "Status j")
    (auto simp: insert_columns_def insert_args_def insertable_def job_texts_def as_stored_def to_column_time)

lemma select_inserted:
  "select_columns jobColumns (map_of (zip insert_columns (insert_args j))) = map Some (insert_args j)"
  by (simp add: select_columns_def insert_columns_def jobColumns_def insert_args_def)

lemma scan_inserted: "scanJob (map Some (insert_args j)) = Some j"
  by (simp add: scanJob_def insert_args_def status_of_text scan_null_time_val)

lemma insert_row_eq:
  "insert_row u m j =
    (if insertable u j then Some (map_of (zip insert_columns (insert_args (as_stored u m j)))) else None)"
  by (simp add: insert_row_def insert_values)

lemma as_stored_same:
  "u (ID j) = Some (ID j) \<Longrightarrow> list_all (\<lambda>t. m t = t) (job_times j) \<Longrightarrow> as_stored u m j = j"
  by (cases "LeaseUntil j"; cases "NextAttemptAt j"; cases "CompletedAt j") (auto simp: as_stored_def job_times_def)

text \<open>
  C30. What comes back of a job that was inserted. The column list of the insert, its arguments, the column types of
  the migrations, the list of every \<open>SELECT\<close> and \<open>RETURNING\<close>, and the destinations of \<open>scanJob\<close> are lists that must
  agree in eighteen places. The insert is refused exactly when the id is no UUID, a text is not valid
  UTF-8 or has a zero byte, or a number does not fit its column; otherwise reading the row by \<open>jobColumns\<close> gives
  the job with its id in canonical form and its times to the microsecond and every other field, unset times
  included, from its own column: the same job, if its id is canonical and its times are whole microseconds. What
  was read would be stored as the same row again.
\<close>
theorem row_round_trip:
  assumes "\<And>i i'. pg_uuid i = Some i' \<Longrightarrow> pg_uuid i' = Some i'" and "\<And>t. micro (micro t) = micro t"
  shows "case insert_row pg_uuid micro j of
      None \<Rightarrow> \<not> insertable pg_uuid j
    | Some row \<Rightarrow> insertable pg_uuid j \<and>
        (\<exists>k. scanJob (select_columns jobColumns row) = Some k \<and> k = as_stored pg_uuid micro j \<and>
          (pg_uuid (ID j) = Some (ID j) \<and> list_all (\<lambda>t. micro t = t) (job_times j) \<longrightarrow> k = j) \<and>
          insert_row pg_uuid micro k = Some row)"
proof (cases "insertable pg_uuid j")
  case True
  then obtain i where i: "pg_uuid (ID j) = Some i" by (auto simp: insertable_def)
  let ?k = "as_stored pg_uuid micro j"
  have "insertable pg_uuid ?k" using True assms(1) [OF i] by (simp add: insertable_def as_stored_def i job_texts_def)
  moreover have "as_stored pg_uuid micro ?k = ?k"
    using assms(1) [OF i] by (simp add: as_stored_def i option.map_comp o_def assms(2))
  ultimately show ?thesis
    using True as_stored_same [of pg_uuid j micro] by (simp add: insert_row_eq select_inserted scan_inserted)
qed (simp add: insert_row_eq)

text \<open>A job stamped between two microseconds, with an id in capitals, to a server that lowers them.\<close>

definition lower_uuid :: "string \<Rightarrow> string option" where
  "lower_uuid s = (if s \<in> {''6F'', ''6f''} then Some ''6f'' else None)"

definition odd_job :: job where
  "odd_job = (sample_job ''6F'' 1)\<lparr>CreatedAt := 1234567, UpdatedAt := 1234567\<rparr>"

theorem row_round_trip_witness:
  "\<exists>row k. insert_row lower_uuid (\<lambda>t. t div 1000 * 1000) odd_job = Some row \<and>
     scanJob (select_columns jobColumns row) = Some k \<and> ID k = ''6f'' \<and> CreatedAt k = 1234000 \<and>
     Text k = Text odd_job \<and> insert_row lower_uuid (\<lambda>t. t div 1000 * 1000) k = Some row"
proof -
  let ?m = "\<lambda>t::time. t div 1000 * 1000"
  have ins: "insertable lower_uuid odd_job" by code_simp
  have "case insert_row lower_uuid ?m odd_job of None \<Rightarrow> \<not> insertable lower_uuid odd_job
    | Some row \<Rightarrow> insertable lower_uuid odd_job \<and>
        (\<exists>k. scanJob (select_columns jobColumns row) = Some k \<and> k = as_stored lower_uuid ?m odd_job \<and>
          (lower_uuid (ID odd_job) = Some (ID odd_job) \<and> list_all (\<lambda>t. ?m t = t) (job_times odd_job) \<longrightarrow> k = odd_job) \<and>
          insert_row lower_uuid ?m k = Some row)"
    by (rule row_round_trip) (auto simp: lower_uuid_def split: if_splits)
  then obtain row where row: "insert_row lower_uuid ?m odd_job = Some row"
    "scanJob (select_columns jobColumns row) = Some (as_stored lower_uuid ?m odd_job)"
    "insert_row lower_uuid ?m (as_stored lower_uuid ?m odd_job) = Some row"
    using ins by (auto split: option.splits)
  moreover have "ID (as_stored lower_uuid ?m odd_job) = ''6f''" "CreatedAt (as_stored lower_uuid ?m odd_job) = 1234000"
    "Text (as_stored lower_uuid ?m odd_job) = Text odd_job"
    by (simp_all add: as_stored_def odd_job_def lower_uuid_def sample_job_def)
  ultimately show ?thesis by blast
qed

section \<open>Text the server refuses\<close>

text \<open>A statement that is refused for a text is for the table one that was never sent.\<close>

definition encoding_error :: goerr where
  "encoding_error = Opaque ''ERROR: invalid byte sequence for encoding UTF8 (SQLSTATE 22021)''"

definition checks_text :: "string \<Rightarrow> pg \<Rightarrow> pg" where
  "checks_text s p = (if storable s then p else p\<lparr>faults := NotSent encoding_error # faults p\<rparr>)"

lemma checks_text_sel: "rows (checks_text s p) = rows p" "\<not> storable s \<Longrightarrow> next_fault (checks_text s p) = NotSent encoding_error"
  by (simp_all add: checks_text_def next_fault_def)

lemma unstorable_failure_not_recorded:
  assumes "\<not> storable (err_text e)"
  shows "rows (snd (Worker.process cfg job (Inl e) took (checks_text (err_text e) p))) = rows p \<and>
    fst (Worker.process cfg job (Inl e) took (checks_text (err_text e) p)) \<noteq> None"
proof -
  let ?p = "final_pg took (checks_text (err_text e) p)"
  obtain x where x: "next_fault ?p = NotSent x"
    using checks_text_sel(2) [OF assms, of p] by (cases "took \<ge> final_timeout") (auto simp: final_pg_def next_fault_def)
  show ?thesis
    by (simp add: Worker.process_def recordFailure_def Fail_def Retry_def checks_text_sel exec_one_NotSent [OF x]
        round_trip_NotSent [OF x])
qed

text \<open>The text of a processor error ends with the bytes of the answer, cut at \<open>maxErrorBody\<close>.\<close>

lemma error_text_unstorable:
  assumes "E_build env = None" and "E_reply env n = Resp code body" and "400 \<le> code"
    and "\<not> valid_utf8 (take maxErrorBody body)"
  shows "\<exists>e. fst (attempt_result env n) = Inl e \<and> \<not> storable (err_text e)"
proof -
  let ?b = "take maxErrorBody body"
  have ascii: "valid_utf8 s" if "is_ascii s" for s using that by (rule valid_utf8_ascii)
  have num: "is_ascii (itoa code)" by (rule itoa_ascii)
  have "\<not> valid_utf8 (a @ ?b)" if "is_ascii a" for a
    using assms(4) valid_utf8_append [OF ascii [OF that]] by blast
  from this [of "''processor status '' @ itoa code @ '': ''"]
    this [of "sentinel_text ErrPermanent @ '': '' @ ''processor rejected job with '' @ itoa code @ '': ''"]
  have "\<not> valid_utf8 (''processor status '' @ itoa code @ '': '' @ ?b)"
    "\<not> valid_utf8 (sentinel_text ErrPermanent @ '': '' @ ''processor rejected job with '' @ itoa code @ '': '' @ ?b)"
    using num by (simp_all add: is_ascii_def)
  then show ?thesis
    using assms(1-3) by (auto simp: attempt_result_def doOnce_def storable_def werr_def)
qed

text \<open>
  C20. A job can fail in a way that cannot be recorded. The client keeps the first 4096 bytes of a failing answer
  for the message; when that cut falls into a character, or the answer is no UTF-8, the message is text the database
  does not take: with every attempt answered like that, \<open>Process\<close> returns an error whose text is refused, so
  the statement that would fail or reschedule the job is never executed and its row stays in processing,
  until the reaper hands it out to the same end.
\<close>
theorem cut_error_never_recorded:
  assumes "E_build env = None" and "\<forall>n. E_cancel env n = None"
    and "\<forall>n. \<exists>code body. E_reply env n = Resp code body \<and> 400 \<le> code \<and> \<not> valid_utf8 (take maxErrorBody body)"
  shows "\<exists>e ws. Process env retries None = (Inl e, ws) \<and>
    rows (snd (Worker.process cfg job (Inl e) took (checks_text (err_text e) p))) = rows p \<and>
    fst (Worker.process cfg job (Inl e) took (checks_text (err_text e) p)) \<noteq> None"
proof -
  obtain M where m: "1 \<le> M" "new_retries retries = int M"
    by (rule that [of "nat (new_retries retries)"]) (auto simp: new_retries_def)
  let ?n = "settling env 1 M"
  obtain code body where r: "E_reply env ?n = Resp code body" "400 \<le> code" "\<not> valid_utf8 (take maxErrorBody body)"
    using assms(3) by blast
  from error_text_unstorable [OF assms(1) r] obtain e
    where e: "fst (attempt_result env ?n) = Inl e" "\<not> storable (err_text e)" by blast
  have "fst (Process env retries None) = Inl e"
    using process_loop_reference [OF assms(2) m(1), of first_backoff] e(1) by (simp add: Process_def m(2))
  then show ?thesis using unstorable_failure_not_recorded [OF e(2), of cfg job took p] by (metis prod.collapse)
qed

text \<open>An answer of valid UTF-8 whose character number 4096 takes two bytes.\<close>

definition accented :: string where
  "accented = replicate 4095 (CHR ''x'') @ [CHR 0xC3, CHR 0xA9]"

theorem cut_error_never_recorded_witness:
  "valid_utf8 accented \<and>
   (\<exists>e ws. Process (flaky_env\<lparr>E_reply := (\<lambda>_. Resp 502 accented)\<rparr>) 3 None = (Inl e, ws) \<and>
     rows (snd (Worker.process worker_cfg (sample_job ''a'' 1) (Inl e) 1000
        (checks_text (err_text e) (sample_pg running_table)))) = running_table)"
proof -
  have pre: "valid_utf8 (replicate 4095 (CHR ''x''))" by (rule valid_utf8_ascii) (simp add: is_ascii_def list_all_iff)
  have "valid_utf8 [CHR 0xC3, CHR 0xA9]" "\<not> valid_utf8 [CHR 0xC3]" by code_simp+
  moreover have "take maxErrorBody accented = replicate 4095 (CHR ''x'') @ [CHR 0xC3]"
    by (simp add: accented_def maxErrorBody_def)
  ultimately have v: "valid_utf8 accented" "\<not> valid_utf8 (take maxErrorBody accented)"
    by (simp_all only: accented_def valid_utf8_append [OF pre]) simp_all
  let ?env = "flaky_env\<lparr>E_reply := (\<lambda>_. Resp 502 accented)\<rparr>"
  have "\<exists>e ws. Process ?env 3 None = (Inl e, ws) \<and>
      rows (snd (Worker.process worker_cfg (sample_job ''a'' 1) (Inl e) 1000 (checks_text (err_text e) (sample_pg running_table)))) =
        rows (sample_pg running_table) \<and>
      fst (Worker.process worker_cfg (sample_job ''a'' 1) (Inl e) 1000 (checks_text (err_text e) (sample_pg running_table))) \<noteq> None"
    by (rule cut_error_never_recorded) (use v(2) in \<open>simp_all add: flaky_env_def\<close>)
  with v(1) show ?thesis by auto
qed

text \<open>A text with a zero byte passes every check of the API and cannot be inserted.\<close>

lemma zero_byte_accepted:
  "readTextPart (Stream [Data [CHR ''a'', CHR 0x00] None]) 100 = Inr [CHR ''a'', CHR 0x00] \<and>
   \<not> storable (Text (d_job (SetText [CHR ''a'', CHR 0x00] (NewDraft ''u1'' ''''))))"
proof -
  have "Text (d_job (SetText [CHR ''a'', CHR 0x00] (NewDraft ''u1'' ''''))) = [CHR ''a'', CHR 0x00]" by code_simp
  moreover have "readTextPart (Stream [Data [CHR ''a'', CHR 0x00] None]) 100 = Inr [CHR ''a'', CHR 0x00]" by code_simp
  ultimately show ?thesis by (simp add: storable_def)
qed

end
