(* ===== verification/Wire.thy ===== *)
theory Wire
  imports JsonValue Processor MockProcessor WorkerSpec
begin

text \<open>
  The protocol between the service and the processor: what \<open>internal/processor/http.go\<close> writes and reads,
  what \<open>cmd/mockprocessor/main.go\<close> reads and writes, and the two put together. The text of a time stamp
  (RFC 3339) and the error values of the decoder are parameters.
\<close>

section \<open>Struct tags\<close>

text \<open>
  The decoder looks a key up by its exact name, then by its folded name: ASCII letters are folded, and
  the two other runes that fold to ASCII letters.
\<close>

definition ascii_upper :: "char \<Rightarrow> char" where
  "ascii_upper c = (if 97 \<le> byte c \<and> byte c \<le> 122 then char_of (byte c - 32) else c)"

function fold_name :: "string \<Rightarrow> string" where
  "fold_name s =
     (if s = [] then []
      else if has_prefix [CHR 0xC5, CHR 0xBF] s then CHR ''S'' # fold_name (drop 2 s)
      else if has_prefix [CHR 0xE2, CHR 0x84, CHR 0xAA] s then CHR ''K'' # fold_name (drop 3 s)
      else ascii_upper (hd s) # fold_name (tl s))"
  by pat_completeness auto
termination
  by (relation "measure length") auto

declare fold_name.simps [simp del]

definition field_of :: "string list \<Rightarrow> string \<Rightarrow> string option" where
  "field_of names key =
     (if key \<in> set names then Some key else find (\<lambda>n. fold_name n = fold_name key) names)"

text \<open>A string or an \<open>int64\<close> field: \<open>null\<close> leaves it as it is, another type is an error.\<close>

fun read_string :: "json \<Rightarrow> string \<Rightarrow> string option" where
  "read_string JNull old = Some old"
| "read_string (JStr s raw) old = Some s"
| "read_string _ old = None"

fun read_int64 :: "json \<Rightarrow> int \<Rightarrow> int option" where
  "read_int64 JNull old = Some old"
| "read_int64 (JNum n) old = parse_int n"
| "read_int64 _ old = None"

text \<open>The members of an object, in order, into a struct; the first error is what \<open>Decode\<close> returns.\<close>

fun read_fields :: "(string \<times> json \<Rightarrow> 'a \<Rightarrow> 'a option) \<Rightarrow> (string \<times> json) list \<Rightarrow> 'a \<Rightarrow> 'a option" where
  "read_fields assign [] x = Some x"
| "read_fields assign (m # ms) x = (case assign m x of None \<Rightarrow> None | Some y \<Rightarrow> read_fields assign ms y)"

definition decode_struct :: "(string \<times> json \<Rightarrow> 'a \<Rightarrow> 'a option) \<Rightarrow> 'a \<Rightarrow> bytes \<Rightarrow> 'a option" where
  "decode_struct assign zero b =
     (case json_decode b of
        Some (JObj ms, r) \<Rightarrow> read_fields assign ms zero
      | Some (JNull, r) \<Rightarrow> Some zero
      | _ \<Rightarrow> None)"

section \<open>The request\<close>

text \<open>\<open>requestBody\<close>: the fields with \<open>omitempty\<close> are left out when they are zero.\<close>

definition requestBody :: "ProcessInput \<Rightarrow> (string \<times> field) list" where
  "requestBody i =
     (''job_id'', FString (PI_JobID i)) #
     filter (\<lambda>m. \<not> empty_field (snd m))
       [(''text'', FString (PI_Text i)), (''content_type'', FString (PI_ContentType i)),
        (''size_bytes'', FInt (PI_SizeBytes i)), (''download_url'', FString (PI_DownloadURL i))]"

definition encode_request :: "ProcessInput \<Rightarrow> bytes" where
  "encode_request i = encode_object (requestBody i)"

definition zero_request :: processRequest where
  "zero_request = \<lparr>PR_JobID = [], PR_Text = [], PR_ContentType = [], PR_SizeBytes = 0, PR_DownloadURL = []\<rparr>"

definition request_tags :: "string list" where
  "request_tags = [''job_id'', ''text'', ''content_type'', ''size_bytes'', ''download_url'']"

definition request_field :: "string \<times> json \<Rightarrow> processRequest \<Rightarrow> processRequest option" where
  "request_field m x =
     (case field_of request_tags (fst m) of
        None \<Rightarrow> Some x
      | Some n \<Rightarrow>
          (if n = ''job_id'' then map_option (\<lambda>v. x\<lparr>PR_JobID := v\<rparr>) (read_string (snd m) (PR_JobID x))
           else if n = ''text'' then map_option (\<lambda>v. x\<lparr>PR_Text := v\<rparr>) (read_string (snd m) (PR_Text x))
           else if n = ''content_type''
           then map_option (\<lambda>v. x\<lparr>PR_ContentType := v\<rparr>) (read_string (snd m) (PR_ContentType x))
           else if n = ''size_bytes'' then map_option (\<lambda>v. x\<lparr>PR_SizeBytes := v\<rparr>) (read_int64 (snd m) (PR_SizeBytes x))
           else map_option (\<lambda>v. x\<lparr>PR_DownloadURL := v\<rparr>) (read_string (snd m) (PR_DownloadURL x))))"

definition decode_request :: "bytes \<Rightarrow> processRequest option" where
  "decode_request = decode_struct request_field zero_request"

section \<open>The response\<close>

text \<open>\<open>processResponse\<close>, through \<open>json.NewEncoder\<close>, which ends the line; \<open>fmt\<close> is \<open>Time.MarshalJSON\<close>.\<close>

definition encode_response :: "(time \<Rightarrow> string) \<Rightarrow> string \<Rightarrow> time \<Rightarrow> bytes" where
  "encode_response fmt summary tm =
     encode_object [(''summary'', FString summary), (''processed_at'', FString (fmt tm))] @ [CHR 0x0A]"

definition mock_error :: "string \<Rightarrow> bytes" where
  "mock_error msg = encode_object [(''error'', FString msg)] @ [CHR 0x0A]"

text \<open>
  \<open>responseBody\<close>: \<open>time_of\<close> is \<open>Time.UnmarshalJSON\<close> on the text between the quotes, \<open>Some None\<close> for the zero
  time; it is asked for every JSON type but \<open>null\<close>.
\<close>

definition response_field ::
  "(string \<Rightarrow> time option option) \<Rightarrow> string \<times> json \<Rightarrow> string \<times> time option \<Rightarrow> (string \<times> time option) option" where
  "response_field time_of m x =
     (case field_of [''summary'', ''processed_at''] (fst m) of
        None \<Rightarrow> Some x
      | Some n \<Rightarrow>
          (if n = ''summary'' then map_option (\<lambda>v. (v, snd x)) (read_string (snd m) (fst x))
           else case snd m of
                  JNull \<Rightarrow> Some x
                | JStr v raw \<Rightarrow> map_option (\<lambda>t. (fst x, t)) (time_of raw)
                | _ \<Rightarrow> None))"

definition decode_response :: "(string \<Rightarrow> time option option) \<Rightarrow> (bytes \<Rightarrow> goerr) \<Rightarrow> decoder" where
  "decode_response time_of err b =
     (case decode_struct (response_field time_of) ([], None) b of None \<Rightarrow> Inl (err b) | Some x \<Rightarrow> Inr x)"

section \<open>The two sides together\<close>

text \<open>
  The request \<open>doOnce\<close> builds has no query and no failure header, and waits for the answer; a handler
  that answers nothing is a connection that broke.
\<close>

definition client_request :: "bytes \<Rightarrow> mock_request" where
  "client_request payload =
     \<lparr>Q_fail_header = '''', Q_fail = '''', Q_delay_ms = '''', Q_gone = False, Q_body = payload\<rparr>"

definition mock_reply :: "(time \<Rightarrow> string) \<Rightarrow> mock_response \<Rightarrow> http_reply" where
  "mock_reply fmt m =
     (case m of
        NoAnswer \<Rightarrow> DoErr (Opaque ''EOF'')
      | MockError code msg \<Rightarrow> Resp code (mock_error msg)
      | MockOk summary tm \<Rightarrow> Resp 200 (encode_response fmt summary tm))"

definition call_mock ::
  "(string \<Rightarrow> get_reply) \<Rightarrow> (time \<Rightarrow> string) \<Rightarrow> time \<Rightarrow> bytes \<Rightarrow> server \<Rightarrow> http_reply \<times> server" where
  "call_mock get fmt now payload s =
     (case MockProcessor.process decode_request get now (client_request payload) s of
        (m, s') \<Rightarrow> (mock_reply fmt m, s'))"

section \<open>Round trips\<close>

lemma read_fields_append:
  "read_fields f (ms @ ns) x = (case read_fields f ms x of None \<Rightarrow> None | Some y \<Rightarrow> read_fields f ns y)"
  by (induction ms arbitrary: x) (auto split: option.split)

text \<open>What the mock reads of an input: the same values, invalid UTF-8 replaced.\<close>

definition read_request :: "ProcessInput \<Rightarrow> processRequest" where
  "read_request i =
     \<lparr>PR_JobID = to_valid (PI_JobID i), PR_Text = to_valid (PI_Text i), PR_ContentType = to_valid (PI_ContentType i),
      PR_SizeBytes = PI_SizeBytes i, PR_DownloadURL = to_valid (PI_DownloadURL i)\<rparr>"

lemma to_valid_Nil [simp]: "to_valid [] = []"
  by (simp add: to_valid.simps)

lemma to_valid_ascii: "is_ascii s \<Longrightarrow> to_valid s = s"
  by (simp add: to_valid_id valid_utf8_ascii)

lemma tags_ascii:
  "to_valid ''job_id'' = ''job_id''" "to_valid ''text'' = ''text''" "to_valid ''content_type'' = ''content_type''"
  "to_valid ''size_bytes'' = ''size_bytes''" "to_valid ''download_url'' = ''download_url''"
  "to_valid ''summary'' = ''summary''" "to_valid ''processed_at'' = ''processed_at''" "to_valid ''error'' = ''error''"
  by (simp_all add: to_valid_ascii is_ascii_def)

lemma decode_request_encoded:
  assumes "- (2 ^ 63) \<le> PI_SizeBytes i" and "PI_SizeBytes i < 2 ^ 63"
  shows "decode_request (encode_request i @ t) = Some (read_request i)"
proof -
  have size: "parse_int (itoa (PI_SizeBytes i)) = Some (PI_SizeBytes i)" by (rule parse_int_itoa [OF assms])
  show ?thesis
    by (simp add: decode_request_def decode_struct_def encode_request_def decode_encode_object requestBody_def
        request_field_def field_of_def request_tags_def tags_ascii zero_request_def read_request_def size)
qed

lemma decode_cut_request: "n < length (encode_request i) \<Longrightarrow> decode_request (take n (encode_request i)) = None"
  by (simp add: decode_request_def decode_struct_def encode_request_def decode_cut_object)

lemma valid_summary:
  assumes "valid_utf8 (PR_ContentType q)"
  shows "valid_utf8 (buildSummary q n)"
proof -
  have lit: "valid_utf8 ''processed''" "valid_utf8 '' text_len=''" "valid_utf8 '' content_type=''"
    "valid_utf8 '' downloaded_bytes=''"
    by (simp_all add: valid_utf8_ascii is_ascii_def)
  have num: "valid_utf8 (itoa k)" for k by (rule valid_utf8_ascii [OF itoa_ascii])
  show ?thesis unfolding buildSummary_def by (simp add: valid_utf8_append lit num assms del: append_Cons)
qed

lemma decode_response_encoded:
  assumes "time_of (json_esc (fmt t)) = Some z" and "valid_utf8 summary"
  shows "decode_response time_of err (encode_response fmt summary t) = Inr (summary, z)"
  using assms
  by (simp add: decode_response_def decode_struct_def encode_response_def decode_encode_object
      response_field_def field_of_def tags_ascii to_valid_id)

text \<open>The escaped text is at least as long as the text.\<close>

lemma json_esc_length: "length s \<le> length (json_esc s)"
proof (induction s rule: json_esc.induct)
  case (1 s)
  show ?case
  proof (cases s)
    case (Cons c t)
    let ?n = "rune_len s"
    have a: "1 \<le> length (esc_ascii c)" by (simp add: esc_ascii_def)
    have "length (take ?n s) = ?n" using rune_len_le [of s] by simp
    then have r: "?n \<le> length (esc_rune (take ?n s))" by (auto simp: esc_rune_def simp del: length_take)
    show ?thesis
      using "1.IH"(1) [OF Cons] "1.IH"(2) [OF Cons] "1.IH"(3) [OF Cons] a r rune_len_le [of s]
      by (subst json_esc.simps) (auto simp: Cons simp del: rune_len.simps)
  qed simp
qed

lemma encode_request_length:
  assumes "PI_Text i \<noteq> []"
  shows "length (PI_JobID i) + length (PI_Text i) + 23 \<le> length (encode_request i)"
proof -
  have member: "length (encode_member (k, FString s)) = length (json_esc k) + length (json_esc s) + 5" for k s
    by (simp add: encode_member_def json_string_def)
  obtain ms where ms: "requestBody i = (''job_id'', FString (PI_JobID i)) # (''text'', FString (PI_Text i)) # ms"
    using assms by (simp add: requestBody_def)
  have "length (encode_member m) \<le> length (encode_members (m # ms))" for m ms by (cases ms) simp_all
  then have "length (encode_member (''job_id'', FString (PI_JobID i))) + 1 + length (encode_member (''text'', FString (PI_Text i)))
      \<le> length (encode_members (requestBody i))" by (simp add: ms)
  moreover have "6 \<le> length (json_esc ''job_id'')" "4 \<le> length (json_esc ''text'')"
    using json_esc_length [of "''job_id''"] json_esc_length [of "''text''"] by simp_all
  ultimately show ?thesis
    using json_esc_length [of "PI_JobID i"] json_esc_length [of "PI_Text i"]
    by (simp add: encode_request_def encode_object_def member)
qed

section \<open>Properties\<close>

text \<open>
  C11. Service and processor understand each other. A payload of at most 1 MiB whose strings are UTF-8
  arrives at the mock processor as it was sent, whatever characters are in it; when the job is new there and its
  presigned URL can be read, \<open>Process\<close> returns at the first attempt the summary of exactly this payload
  with the processor's time, and the processor remembers it for the job.
\<close>
theorem processor_understands_service:
  assumes "E_build env = None" and "E_decode env = decode_response time_of err"
    and "call_mock get fmt now (encode_request i) s = (E_reply env 1, s')"
    and "length (encode_request i) \<le> 2 ^ 20"
    and "list_all valid_utf8 [PI_JobID i, PI_Text i, PI_ContentType i, PI_DownloadURL i]"
    and "- (2 ^ 63) \<le> PI_SizeBytes i" and "PI_SizeBytes i < 2 ^ 63"
    and "PI_JobID i \<noteq> ''''" and "cached s (PI_JobID i) = None"
    and "(if PI_DownloadURL i = '''' then Inr 0 else download (get (PI_DownloadURL i))) = Inr n"
    and "summary = buildSummary \<lparr>PR_JobID = PI_JobID i, PR_Text = PI_Text i, PR_ContentType = PI_ContentType i,
        PR_SizeBytes = PI_SizeBytes i, PR_DownloadURL = PI_DownloadURL i\<rparr> n"
    and "time_of (json_esc (fmt now)) = Some (Some now)"
    and "length (encode_response fmt summary now) \<le> 2 ^ 20"
  shows "Process env retries None = (Inr \<lparr>Summary = summary, ProcessedAt = now\<rparr>, []) \<and>
    s' = remember (PI_JobID i) summary s"
proof -
  have rd: "read_request i = \<lparr>PR_JobID = PI_JobID i, PR_Text = PI_Text i, PR_ContentType = PI_ContentType i,
      PR_SizeBytes = PI_SizeBytes i, PR_DownloadURL = PI_DownloadURL i\<rparr>"
    using assms(5) by (simp add: read_request_def to_valid_id)
  have "decode_request (take (2 ^ 20) (encode_request i)) = Some (read_request i)"
    using decode_request_encoded [OF assms(6,7), of "[]"] assms(4) by simp
  then have "call_mock get fmt now (encode_request i) s =
      (Resp 200 (encode_response fmt summary now), remember (PI_JobID i) summary s)"
    using assms(8-10) unfolding assms(11) call_mock_def
    by (cases "PI_DownloadURL i = []")
       (simp_all add: MockProcessor.process_def client_request_def rd mock_reply_def parse_int_def Let_def)
  then have r: "E_reply env 1 = Resp 200 (encode_response fmt summary now)" "s' = remember (PI_JobID i) summary s"
    using assms(3) by simp_all
  have "valid_utf8 summary" using assms(5) unfolding assms(11) by (intro valid_summary) simp
  from decode_response_encoded [where time_of = time_of and err = err and fmt = fmt and t = now, OF assms(12) this]
  have "attempt_result env 1 = (Inr \<lparr>Summary = summary, ProcessedAt = now\<rparr>, False)"
    using r(1) assms(1,2,13) by (simp add: attempt_result_def doOnce_def)
  then show ?thesis using r(2) unfolding Process_def by (subst process_loop.simps) simp
qed

text \<open>
  A payload over 1 MiB is cut by the mock's \<open>LimitReader\<close> inside the object, so it never parses: the answer
  is 400, which the client takes for a permanent rejection.
\<close>

lemma oversized_rejected:
  assumes "E_build env = None" and "call_mock get fmt now (encode_request i) s = (E_reply env 1, s')"
    and "2 ^ 20 < length (encode_request i)"
  shows "\<exists>e. Process env retries None = (Inl e, []) \<and> errors_is e ErrPermanent \<and> s' = s"
proof -
  have "decode_request (take (2 ^ 20) (encode_request i)) = None" by (rule decode_cut_request [OF assms(3)])
  then have "call_mock get fmt now (encode_request i) s = (Resp 400 (mock_error ''malformed json''), s)"
    by (simp add: call_mock_def MockProcessor.process_def client_request_def mock_reply_def parse_int_def Let_def)
  with assms(2) have "E_reply env 1 = Resp 400 (mock_error ''malformed json'')" "s' = s" by simp_all
  with rejection_is_permanent [OF assms(1) this(1)] show ?thesis by simp
qed

text \<open>
  C19. A text that the API accepts can be impossible to process. \<open>MAX_TEXT_BYTES\<close> is 1 MiB by default, and the
  processor reads 1 MiB of the request: a job whose id and text, with the 23 bytes of the object around
  them, come to more than that is rejected by the processor as malformed, whatever else is in it, and
  marked failed at its first attempt with no retry, although the request that made it was answered 202.
\<close>
theorem accepted_text_never_processed:
  assumes "2 ^ 20 < length (ID job) + length (Text job) + 23" and "Text job \<noteq> ''''"
    and "E_build env = None"
    and "call_mock get fmt now (encode_request (process_input job url)) s = (E_reply env 1, s')"
    and "row_of (rows p) (ID job) = Some r" and "Status r = StatusProcessing" and "distinct (map ID (rows p))"
    and "next_fault p = Reply" and "took < final_timeout"
  shows "s' = s \<and> (\<exists>msg. rows (snd (Worker.process cfg job (fst (Process env retries None)) took p)) =
      update_where (owned (ID job)) (fail_row msg (db_now p)) (rows p))"
proof -
  have "2 ^ 20 < length (encode_request (process_input job url))"
    using encode_request_length [of "process_input job url"] assms(1,2) by (simp add: process_input_def)
  from oversized_rejected [OF assms(3,4) this] obtain e
    where e: "Process env retries None = (Inl e, [])" "errors_is e ErrPermanent" "s' = s" by blast
  have "rows (snd (Worker.process cfg job (Inl e) took p)) =
      update_where (owned (ID job)) (fail_row (err_text e) (db_now p)) (rows p)"
    using process_prompt [OF assms(5-9), of cfg "Inl e"] e(2) by (simp add: settled_row_def)
  with e show ?thesis by auto
qed

section \<open>Concrete calls\<close>

definition wire_input :: ProcessInput where
  "wire_input = \<lparr>PI_JobID = ''j1'', PI_Text = ''a<\"b'', PI_ContentType = '''', PI_SizeBytes = 0,
     PI_DownloadURL = '''', PI_TraceContext = ''''\<rparr>"

definition wire_env :: "http_reply \<Rightarrow> http_env" where
  "wire_env reply = \<lparr>E_decode = decode_response (\<lambda>_. Some (Some 9)) (\<lambda>_. Opaque ''json''), E_now = (\<lambda>_. 5), E_build = None,
     E_reply = (\<lambda>_. reply), E_jitter = (\<lambda>_. 0), E_cancel = (\<lambda>_. None)\<rparr>"

lemma wire_request:
  "encode_request wire_input =
     ''{\"job_id\":\"j1\",\"text\":\"a'' @ [backslash] @ ''u003c'' @ [backslash, quote] @ ''b\"}''"
  by code_simp

theorem processor_understands_service_witness:
  "Process (wire_env (fst (call_mock (\<lambda>_. GetErr (Opaque ''down'')) (\<lambda>_. ''now'') 9 (encode_request wire_input) new_server))) 3 None
     = (Inr \<lparr>Summary = ''processed text_len=4'', ProcessedAt = 9\<rparr>, []) \<and>
   cached (snd (call_mock (\<lambda>_. GetErr (Opaque ''down'')) (\<lambda>_. ''now'') 9 (encode_request wire_input) new_server)) ''j1''
     = Some ''processed text_len=4''"
proof -
  let ?call = "call_mock (\<lambda>_. GetErr (Opaque ''down'')) (\<lambda>_. ''now'') 9 (encode_request wire_input) new_server"
  let ?env = "wire_env (fst ?call)"
  have i: "itoa 4 = ''4''" by code_simp
  have len: "length (encode_request wire_input) \<le> 2 ^ 20" by (simp add: wire_request)
  have rlen: "length (encode_response (\<lambda>_. ''now'') ''processed text_len=4'' 9) \<le> 2 ^ 20"
  proof -
    have "length (encode_response (\<lambda>_. ''now'') ''processed text_len=4'' 9) \<le> 100" by code_simp
    then show ?thesis by simp
  qed
  have "Process ?env 3 None = (Inr \<lparr>Summary = ''processed text_len=4'', ProcessedAt = 9\<rparr>, []) \<and>
      snd ?call = remember (PI_JobID wire_input) ''processed text_len=4'' new_server"
  proof (rule processor_understands_service)
    show "length (encode_request wire_input) \<le> 2 ^ 20" by (rule len)
    show "length (encode_response (\<lambda>_. ''now'') ''processed text_len=4'' 9) \<le> 2 ^ 20" by (rule rlen)
    show "call_mock (\<lambda>_. GetErr (Opaque ''down'')) (\<lambda>_. ''now'') 9 (encode_request wire_input) new_server = (E_reply ?env 1, snd ?call)"
      by (simp add: wire_env_def)
    show "list_all valid_utf8 [PI_JobID wire_input, PI_Text wire_input, PI_ContentType wire_input, PI_DownloadURL wire_input]"
      by (simp add: wire_input_def valid_utf8_ascii is_ascii_def)
  qed (simp_all add: wire_env_def wire_input_def cached_def new_server_def buildSummary_def i)
  moreover have "cached (remember ''j1'' m new_server) ''j1'' = Some m" for m
    by (simp add: cached_def remember_def new_server_def maxRememberedJobs_def)
  ultimately show ?thesis by (simp add: wire_input_def)
qed

text \<open>A job whose text is within the default limit of 1 MiB, in processing.\<close>

definition long_job :: job where
  "long_job = (sample_job ''j1'' 1)\<lparr>Text := replicate (2 ^ 20) (CHR ''x''), Status := StatusProcessing, Attempts := 1\<rparr>"

definition long_pg :: pg where
  "long_pg = \<lparr>rows = [long_job], db_now = 5, app_now = 5, faults = []\<rparr>"

theorem accepted_text_never_processed_witness:
  "int (length (Text long_job)) \<le> MaxTextBytes worker_cfg \<and>
   (\<exists>j. rows (snd (Worker.process worker_cfg long_job
       (fst (Process (wire_env (fst (call_mock (\<lambda>_. GetErr (Opaque ''down'')) (\<lambda>_. ''now'') 9
          (encode_request (process_input long_job '''')) new_server))) 3 None)) 1000 long_pg)) = [j] \<and>
      Status j = StatusFailed)"
proof -
  let ?call = "call_mock (\<lambda>_. GetErr (Opaque ''down'')) (\<lambda>_. ''now'') 9 (encode_request (process_input long_job '''')) new_server"
  have limit: "MaxTextBytes worker_cfg = 2 ^ 20" by code_simp
  have "\<exists>msg. rows (snd (Worker.process worker_cfg long_job (fst (Process (wire_env (fst ?call)) 3 None)) 1000 long_pg)) =
      update_where (owned (ID long_job)) (fail_row msg (db_now long_pg)) (rows long_pg)"
  proof (rule accepted_text_never_processed [THEN conjunct2])
    show "2 ^ 20 < length (ID long_job) + length (Text long_job) + 23" by (simp add: long_job_def)
    show "call_mock (\<lambda>_. GetErr (Opaque ''down'')) (\<lambda>_. ''now'') 9 (encode_request (process_input long_job '''')) new_server
        = (E_reply (wire_env (fst ?call)) 1, snd ?call)" by (simp add: wire_env_def)
    show "row_of (rows long_pg) (ID long_job) = Some long_job" by (simp add: long_pg_def row_of_def)
  qed (simp_all add: long_job_def long_pg_def wire_env_def next_fault_def final_timeout_def)
  then obtain msg where "rows (snd (Worker.process worker_cfg long_job (fst (Process (wire_env (fst ?call)) 3 None)) 1000 long_pg)) =
      update_where (owned (ID long_job)) (fail_row msg (db_now long_pg)) (rows long_pg)" by blast
  moreover have "update_where (owned (ID long_job)) (fail_row msg (db_now long_pg)) (rows long_pg) = [fail_row msg 5 long_job]"
    by (simp add: update_where_def long_pg_def owned_def) (simp add: long_job_def)
  moreover have "Status (fail_row msg 5 long_job) = StatusFailed" by (simp add: fail_row_def)
  ultimately show ?thesis using limit by (simp add: long_job_def)
qed

end
