(* ===== verification/MockServer.thy ===== *)
theory MockServer
  imports Wire Telemetry "HOL-Library.Sublist"
begin

text \<open>
  \<open>main\<close> and \<open>run\<close> of \<open>cmd/mockprocessor/main.go\<close>: the environment it reads, the order in which it starts and stops,
  its two routes. How the calls into libraries end is a parameter, and what \<open>run\<close> does is the list of its
  effects in order, deferred calls included.
\<close>

section \<open>Start and stop\<close>

datatype mock_event = MTracing | MServe | MHttpShutdown | MTracingShutdown

text \<open>
  How the calls end: the two calls of the tracing set-up, the listener (\<open>None\<close>: a signal came first), and the
  shutdown of the HTTP server.
\<close>

record mock_boot =
  MB_env :: environ
  MB_build :: buildinfo
  MB_resource :: "goerr option"
  MB_exporter :: "goerr option"
  MB_listen :: "goerr option"
  MB_shutdown :: "goerr option"

definition mock_addr :: "environ \<Rightarrow> string" where
  "mock_addr env = getenv env ''HTTP_ADDR'' '':8090''"

definition mock_insecure :: "environ \<Rightarrow> bool" where
  "mock_insecure env \<longleftrightarrow> getenv env ''OTEL_EXPORTER_OTLP_INSECURE'' ''true'' = ''true''"

definition mock_tracing :: "mock_boot \<Rightarrow> otel \<Rightarrow> goerr option \<times> otel" where
  "mock_tracing b =
     SetupTracingFor (MB_build b) (MB_resource b) (MB_exporter b) (getenv (MB_env b) ''SERVICE_NAME'' ''mock-processor'')
       ''mock'' (MB_env b ''OTEL_EXPORTER_OTLP_ENDPOINT'') (mock_insecure (MB_env b))"

definition run :: "mock_boot \<Rightarrow> otel \<Rightarrow> goerr option \<times> mock_event list" where
  "run b otel0 =
     (case fst (mock_tracing b otel0) of
        Some e \<Rightarrow> (Some (wrap ''tracing'' e), [])
      | None \<Rightarrow>
          (case MB_listen b of
             Some e \<Rightarrow> (Some e, [MTracing, MServe, MTracingShutdown])
           | None \<Rightarrow> (MB_shutdown b, [MTracing, MServe, MHttpShutdown, MTracingShutdown])))"

text \<open>The exit code of \<open>main\<close>.\<close>

definition main :: "mock_boot \<Rightarrow> otel \<Rightarrow> int" where
  "main b otel0 = (if fst (run b otel0) = None then 0 else 1)"

section \<open>Routes\<close>

datatype mock_route = MHealthz | MProcess | MNone

definition mock_route :: "string \<Rightarrow> string \<Rightarrow> mock_route" where
  "mock_route meth path =
     (if meth = ''GET'' \<and> path = ''/healthz'' then MHealthz
      else if meth = ''POST'' \<and> path = ''/v1/process'' then MProcess else MNone)"

text \<open>The health answer, as \<open>writeJSON\<close> renders the map.\<close>

definition mock_health :: bytes where
  "mock_health = encode_object [(''status'', FString ''ok'')] @ [CHR 0x0A]"

section \<open>Properties\<close>

text \<open>
  The tracer is shut down exactly when it was set up, and the server is shut down before it; the process ends with 0
  only after a signal and a clean shutdown.
\<close>

lemma mock_life:
  "subseq (snd (run b t)) [MTracing, MServe, MHttpShutdown, MTracingShutdown] \<and>
   (MTracing \<in> set (snd (run b t)) \<longleftrightarrow> MTracingShutdown \<in> set (snd (run b t))) \<and>
   (main b t = 0 \<longleftrightarrow> MHttpShutdown \<in> set (snd (run b t)) \<and> MB_shutdown b = None)"
  by (cases "fst (mock_tracing b t)"; cases "MB_listen b"; cases "MB_shutdown b") (simp_all add: run_def main_def)

text \<open>
  The two programs read the same variable differently: the service takes every spelling of
  \<open>strconv.ParseBool\<close>, the mock only the exact text \<open>true\<close>, so with the value 1 the first exports its
  traces in the clear and the second over TLS.
\<close>

lemma insecure_read_differently:
  assumes "env ''OTEL_EXPORTER_OTLP_INSECURE'' = ''1''"
  shows "OTelInsecure (env_config uni host env) \<and> \<not> mock_insecure env"
  using assms by (simp add: env_config_def mock_insecure_def getenvBool_def getenv_with_def getenv_def parse_bool_def)

text \<open>The path the client posts to, below its base address, is the mock's route for processing.\<close>

definition process_path :: string where
  "process_path = ''/v1/process''"

lemma client_reaches_process: "mock_route ''POST'' process_path = MProcess"
  by (simp add: mock_route_def process_path_def)

lemma mock_health_text: "mock_health = ''{\"status\":\"ok\"}'' @ [CHR 0x0A]"
  by code_simp

end
