(* ===== verification/Buffers.thy ===== *)
theory Buffers
  imports FakeS3
begin

text \<open>
  The buffers of \<open>internal/storage/s3/store.go\<close>. \<open>bufPool\<close> is shared by all uploads of a process: a part travels
  through the goroutines as the address of a buffer and a length (\<open>partJob\<close>), and a buffer goes back to the pool to be
  filled by another upload while the first is still running. Theory \<open>S3Store\<close> has the bytes in place of the address;
  here the buffers are cells of a memory, uploads and pool operations of all requests interleave over one memory and one
  service, and it is shown that nobody writes a buffer somebody else reads: every step is a step of \<open>S3Store\<close>, and
  each upload that succeeds has stored its own bytes.

  The SDK reads a buffer only while the call that was given it runs (it wraps the body so that reads after
  the call has returned find nothing). The size of the body is not known (0), as in every call the service makes.
  Deletions, which the service makes only after an upload has returned, are left out.
\<close>

section \<open>Memory and pool\<close>

text \<open>
  \<open>made\<close> counts the buffers allocated so far, which are the addresses below it. A \<open>sync.Pool\<close> may lose what is in
  it to the garbage collector (\<open>dropped\<close>), and may allocate although it is not empty.
\<close>

record 's memory =
  heap :: "nat \<Rightarrow> bytes"
  pooled :: "nat list"
  made :: nat
  dropped :: "nat list"
  svc :: 's

definition new_buffer :: "store_cfg \<Rightarrow> bytes" where
  "new_buffer c = replicate (nat (partSize c)) (CHR 0x00)"

inductive getBuf :: "store_cfg \<Rightarrow> nat \<Rightarrow> 's memory \<Rightarrow> 's memory \<Rightarrow> bool" for c where
  reuse: "pooled m = xs @ a # ys \<Longrightarrow> getBuf c a m (m\<lparr>pooled := xs @ ys\<rparr>)"
| alloc: "getBuf c (made m) m (m\<lparr>made := Suc (made m), heap := (heap m)(made m := new_buffer c)\<rparr>)"

definition putBuf :: "nat \<Rightarrow> 's memory \<Rightarrow> 's memory" where
  "putBuf a m = m\<lparr>pooled := a # pooled m\<rparr>"

text \<open>\<open>fill\<close> writes the first bytes of the buffer and leaves the rest, what an earlier part put there, as it is.\<close>

definition read_into :: "nat \<Rightarrow> bytes \<Rightarrow> 's memory \<Rightarrow> 's memory" where
  "read_into a bs m = m\<lparr>heap := (heap m)(a := bs @ drop (length bs) (heap m a))\<rparr>"

definition buf_bytes :: "'s memory \<Rightarrow> nat \<Rightarrow> nat \<Rightarrow> bytes" where
  "buf_bytes m a n = take n (heap m a)"

section \<open>A multipart upload over buffers\<close>

record partJob =
  jb_num :: int
  jb_buf :: nat
  jb_len :: nat

datatype buf_producer = BFirst nat nat | BGet | BFill nat | BSend partJob "goerr option" | BDone "goerr option"

datatype buf_uploader = BIdle | BBusy partJob | BExit

record buf_pipe =
  b_body :: reader
  b_prod :: buf_producer
  b_num :: int
  b_jobs :: "partJob list"
  b_ups :: "buf_uploader list"
  b_parts :: "(int \<times> string) list"
  b_total :: int
  b_err :: "goerr option"
  b_cancelled :: bool

definition after_read :: "goerr option \<Rightarrow> buf_producer" where
  "after_read e = (case e of
     None \<Rightarrow> BGet
   | Some x \<Rightarrow> BDone (if errors_is x EOF then None else Some (wrap ''read part'' x)))"

definition first_err :: "goerr option \<Rightarrow> goerr \<Rightarrow> goerr option" where
  "first_err e x = (case e of None \<Rightarrow> Some x | y \<Rightarrow> y)"

inductive buf_move ::
  "'s s3_api \<Rightarrow> string \<Rightarrow> string \<Rightarrow> store_cfg \<Rightarrow> buf_pipe \<times> 's memory \<Rightarrow> buf_pipe \<times> 's memory \<Rightarrow> bool"
  for api key uid c where
  send_first: "b_prod b = BFirst a n \<Longrightarrow> int (length (b_jobs b)) < partConcurrency c \<Longrightarrow>
    buf_move api key uid c (b, m)
      (b\<lparr>b_prod := BGet, b_num := b_num b + 1, b_jobs := b_jobs b @ [\<lparr>jb_num = b_num b, jb_buf = a, jb_len = n\<rparr>]\<rparr>, m)"
| give_up_first: "b_prod b = BFirst a n \<Longrightarrow> b_cancelled b \<Longrightarrow>
    buf_move api key uid c (b, m) (b\<lparr>b_prod := BDone (Some (Sentinel Canceled))\<rparr>, putBuf a m)"
| get: "b_prod b = BGet \<Longrightarrow> getBuf c a m m' \<Longrightarrow> buf_move api key uid c (b, m) (b\<lparr>b_prod := BFill a\<rparr>, m')"
| read: "b_prod b = BFill a \<Longrightarrow> fill (nat (partSize c)) (b_body b) = ((bs, e), r) \<Longrightarrow> bs \<noteq> [] \<Longrightarrow>
    buf_move api key uid c (b, m)
      (b\<lparr>b_body := r, b_prod := BSend \<lparr>jb_num = b_num b, jb_buf = a, jb_len = length bs\<rparr> e\<rparr>, read_into a bs m)"
| read_nothing: "b_prod b = BFill a \<Longrightarrow> fill (nat (partSize c)) (b_body b) = (([], e), r) \<Longrightarrow>
    buf_move api key uid c (b, m) (b\<lparr>b_body := r, b_prod := after_read e\<rparr>, putBuf a m)"
| send: "b_prod b = BSend j e \<Longrightarrow> int (length (b_jobs b)) < partConcurrency c \<Longrightarrow>
    buf_move api key uid c (b, m)
      (b\<lparr>b_prod := after_read e, b_num := b_num b + 1, b_jobs := b_jobs b @ [j]\<rparr>, m)"
| give_up: "b_prod b = BSend j e \<Longrightarrow> b_cancelled b \<Longrightarrow>
    buf_move api key uid c (b, m) (b\<lparr>b_prod := BDone (Some (Sentinel Canceled))\<rparr>, putBuf (jb_buf j) m)"
| receive: "b_ups b = us @ BIdle # vs \<Longrightarrow> b_jobs b = j # js \<Longrightarrow>
    buf_move api key uid c (b, m) (b\<lparr>b_ups := us @ BBusy j # vs, b_jobs := js\<rparr>, m)"
| uploaded: "b_ups b = us @ BBusy j # vs \<Longrightarrow>
    api_part api key uid (jb_num j) (buf_bytes m (jb_buf j) (jb_len j)) (svc m) = (Inr etag, s) \<Longrightarrow>
    buf_move api key uid c (b, m)
      (b\<lparr>b_ups := us @ BIdle # vs, b_parts := b_parts b @ [(jb_num j, etag)], b_total := b_total b + int (jb_len j)\<rparr>,
       putBuf (jb_buf j) (m\<lparr>svc := s\<rparr>))"
| refused: "b_ups b = us @ BBusy j # vs \<Longrightarrow>
    api_part api key uid (jb_num j) (buf_bytes m (jb_buf j) (jb_len j)) (svc m) = (Inl x, s) \<Longrightarrow>
    buf_move api key uid c (b, m)
      (b\<lparr>b_ups := us @ BExit # vs, b_err := first_err (b_err b) (upload_err (jb_num j) x), b_cancelled := True\<rparr>,
       putBuf (jb_buf j) (m\<lparr>svc := s\<rparr>))"
| abandoned: "b_ups b = us @ BBusy j # vs \<Longrightarrow> b_cancelled b \<Longrightarrow>
    buf_move api key uid c (b, m)
      (b\<lparr>b_ups := us @ BExit # vs, b_err := first_err (b_err b) (upload_err (jb_num j) (Sentinel Canceled)),
         b_cancelled := True\<rparr>, putBuf (jb_buf j) m)"
| closed: "b_ups b = us @ BIdle # vs \<Longrightarrow> b_jobs b = [] \<Longrightarrow> b_prod b = BDone e \<Longrightarrow>
    buf_move api key uid c (b, m) (b\<lparr>b_ups := us @ BExit # vs\<rparr>, m)"
| cancel: "buf_move api key uid c (b, m) (b\<lparr>b_cancelled := True\<rparr>, m)"

definition buf_init :: "store_cfg \<Rightarrow> nat \<Rightarrow> nat \<Rightarrow> reader \<Rightarrow> buf_pipe" where
  "buf_init c a n r =
     \<lparr>b_body = r, b_prod = BFirst a n, b_num = 1, b_jobs = [], b_ups = replicate (nat (partConcurrency c)) BIdle,
      b_parts = [], b_total = 0, b_err = None, b_cancelled = False\<rparr>"

definition buf_done :: "buf_pipe \<Rightarrow> bool" where
  "buf_done b \<longleftrightarrow> (\<exists>e. b_prod b = BDone e) \<and> list_all (\<lambda>u. u = BExit) (b_ups b)"

section \<open>What it stands for\<close>

text \<open>The buffers a pipe holds, and the pipe of \<open>S3Store\<close> with their bytes in place of their addresses.\<close>

fun producer_owns :: "buf_producer \<Rightarrow> nat list" where
  "producer_owns (BFirst a n) = [a]" | "producer_owns BGet = []" | "producer_owns (BFill a) = [a]"
| "producer_owns (BSend j e) = [jb_buf j]" | "producer_owns (BDone e) = []"

fun uploader_owns :: "buf_uploader \<Rightarrow> nat list" where
  "uploader_owns (BBusy j) = [jb_buf j]" | "uploader_owns BIdle = []" | "uploader_owns BExit = []"

definition pipe_owns :: "buf_pipe \<Rightarrow> nat list" where
  "pipe_owns b = producer_owns (b_prod b) @ map jb_buf (b_jobs b) @ concat (map uploader_owns (b_ups b))"

definition see_job :: "'s memory \<Rightarrow> partJob \<Rightarrow> part_job" where
  "see_job m j = \<lparr>pj_num = jb_num j, pj_data = buf_bytes m (jb_buf j) (jb_len j)\<rparr>"

fun see_producer :: "'s memory \<Rightarrow> buf_producer \<Rightarrow> producer" where
  "see_producer m (BFirst a n) = PFirst (buf_bytes m a n)" | "see_producer m BGet = PFill"
| "see_producer m (BFill a) = PFill" | "see_producer m (BSend j e) = PSend (see_job m j) e"
| "see_producer m (BDone e) = PDone e"

fun see_uploader :: "'s memory \<Rightarrow> buf_uploader \<Rightarrow> uploader" where
  "see_uploader m (BBusy j) = UBusy (see_job m j)" | "see_uploader m BIdle = UIdle" | "see_uploader m BExit = UExit"

definition see_pipe :: "'s memory \<Rightarrow> buf_pipe \<Rightarrow> 's pipe" where
  "see_pipe m b =
     \<lparr>p_body = b_body b, p_prod = see_producer m (b_prod b), partNum = b_num b, p_jobs = map (see_job m) (b_jobs b),
      p_ups = map (see_uploader m) (b_ups b), p_parts = b_parts b, p_total = b_total b, gerr = b_err b,
      gdone = b_cancelled b, s3 = svc m\<rparr>"

lemma memory_sel [simp]:
  "heap (putBuf a m) = heap m" "made (putBuf a m) = made m" "svc (putBuf a m) = svc m"
  "dropped (putBuf a m) = dropped m" "pooled (putBuf a m) = a # pooled m"
  "pooled (read_into a bs m) = pooled m" "made (read_into a bs m) = made m" "svc (read_into a bs m) = svc m"
  "dropped (read_into a bs m) = dropped m"
  by (simp_all add: putBuf_def read_into_def)

lemma buf_bytes_read [simp]:
  "buf_bytes (read_into a bs m) x n = (if x = a then take n (bs @ drop (length bs) (heap m a)) else buf_bytes m x n)"
  by (simp add: buf_bytes_def read_into_def)

lemma see_after_read [simp]: "see_producer m (after_read e) = after_fill e" "producer_owns (after_read e) = []"
  by (simp_all add: after_read_def after_fill_def split: option.split)

lemma see_putBuf [simp]:
  "buf_bytes (putBuf a m) = buf_bytes m" "see_job (putBuf a m) = see_job m"
  "see_producer (putBuf a m) = see_producer m" "see_uploader (putBuf a m) = see_uploader m"
proof -
  show b: "buf_bytes (putBuf a m) = buf_bytes m" by (simp add: fun_eq_iff buf_bytes_def)
  show j: "see_job (putBuf a m) = see_job m" by (simp add: fun_eq_iff see_job_def b)
  have "see_producer (putBuf a m) q = see_producer m q" "see_uploader (putBuf a m) u = see_uploader m u" for q u
    by (cases q; cases u; simp add: b j)+
  then show "see_producer (putBuf a m) = see_producer m" "see_uploader (putBuf a m) = see_uploader m" by (simp_all add: fun_eq_iff)
qed

lemma see_svc [simp]:
  "buf_bytes (m\<lparr>svc := s\<rparr>) = buf_bytes m" "see_job (m\<lparr>svc := s\<rparr>) = see_job m"
  "see_producer (m\<lparr>svc := s\<rparr>) = see_producer m" "see_uploader (m\<lparr>svc := s\<rparr>) = see_uploader m"
proof -
  show b: "buf_bytes (m\<lparr>svc := s\<rparr>) = buf_bytes m" by (simp add: fun_eq_iff buf_bytes_def)
  show j: "see_job (m\<lparr>svc := s\<rparr>) = see_job m" by (simp add: fun_eq_iff see_job_def b)
  have "see_producer (m\<lparr>svc := s\<rparr>) q = see_producer m q" "see_uploader (m\<lparr>svc := s\<rparr>) u = see_uploader m u" for q u
    by (cases q; cases u; simp add: b j)+
  then show "see_producer (m\<lparr>svc := s\<rparr>) = see_producer m" "see_uploader (m\<lparr>svc := s\<rparr>) = see_uploader m" by (simp_all add: fun_eq_iff)
qed

text \<open>Only the buffers a pipe holds matter to what it stands for.\<close>

lemma see_job_frame: "heap m' (jb_buf j) = heap m (jb_buf j) \<Longrightarrow> see_job m' j = see_job m j"
  by (simp add: see_job_def buf_bytes_def)

lemma see_uploader_frame: "(\<And>x. x \<in> set (uploader_owns u) \<Longrightarrow> heap m' x = heap m x) \<Longrightarrow> see_uploader m' u = see_uploader m u"
  by (cases u) (auto intro: see_job_frame)

lemma see_producer_frame: "(\<And>x. x \<in> set (producer_owns q) \<Longrightarrow> heap m' x = heap m x) \<Longrightarrow> see_producer m' q = see_producer m q"
  by (cases q) (auto simp: buf_bytes_def intro: see_job_frame)

lemma see_pipe_frame:
  assumes "\<And>x. x \<in> set (pipe_owns b) \<Longrightarrow> heap m' x = heap m x"
  shows "see_pipe m' b = (see_pipe m b)\<lparr>s3 := svc m'\<rparr>"
proof -
  have "see_producer m' (b_prod b) = see_producer m (b_prod b)"
    using assms by (intro see_producer_frame) (simp add: pipe_owns_def)
  moreover have "map (see_job m') (b_jobs b) = map (see_job m) (b_jobs b)"
    using assms by (auto simp: pipe_owns_def intro!: see_job_frame)
  moreover have "map (see_uploader m') (b_ups b) = map (see_uploader m) (b_ups b)"
    using assms by (auto simp: pipe_owns_def intro!: see_uploader_frame)
  ultimately show ?thesis by (simp add: see_pipe_def)
qed

lemma getBuf_facts:
  assumes "getBuf c a m m'"
  shows "svc m' = svc m" "made m \<le> made m'" "dropped m' = dropped m" "x < made m \<Longrightarrow> heap m' x = heap m x"
    "mset (pooled m') + {#a#} + mset [0..<made m] = mset (pooled m) + mset [0..<made m']"
  using assms by (cases; force)+

section \<open>One move\<close>

text \<open>
  Every buffer keeps its place in the books: what a move takes from the pool the pipe holds afterwards, and the
  other way round, and a fresh buffer is one more that was made.
\<close>

lemma buf_move_books:
  assumes "buf_move api key uid c (b, m) (b', m')"
  shows "mset (pooled m') + mset (pipe_owns b') + mset [0..<made m] = mset (pooled m) + mset (pipe_owns b) + mset [0..<made m'] \<and>
    dropped m' = dropped m \<and> made m \<le> made m'"
  using assms
proof cases
  case (get a)
  from getBuf_facts [OF get(3)] get(1,2) show ?thesis by (auto simp: pipe_owns_def ac_simps)
qed (auto simp: pipe_owns_def)

text \<open>It writes no buffer but its own.\<close>

lemma buf_move_heap:
  assumes "buf_move api key uid c (b, m) (b', m')" and "x \<notin> set (pipe_owns b)" and "x < made m"
  shows "heap m' x = heap m x"
  using assms(1)
proof cases
  case (get a)
  from getBuf_facts(4) [OF get(3) assms(3)] show ?thesis .
qed (use assms(2) in \<open>auto simp: read_into_def pipe_owns_def\<close>)

text \<open>
  The lengths that travel with the addresses are within the buffers, which never shrink. (In the code a longer
  length would be a panic, \<open>(*job.buf)[:job.n]\<close>.)
\<close>

fun producer_spans :: "buf_producer \<Rightarrow> (nat \<times> nat) list" where
  "producer_spans (BFirst a n) = [(a, n)]" | "producer_spans (BSend j e) = [(jb_buf j, jb_len j)]"
| "producer_spans _ = []"

fun uploader_spans :: "buf_uploader \<Rightarrow> (nat \<times> nat) list" where
  "uploader_spans (BBusy j) = [(jb_buf j, jb_len j)]" | "uploader_spans _ = []"

definition pipe_spans :: "buf_pipe \<Rightarrow> (nat \<times> nat) list" where
  "pipe_spans b = producer_spans (b_prod b) @ map (\<lambda>j. (jb_buf j, jb_len j)) (b_jobs b) @
     concat (map uploader_spans (b_ups b))"

definition fits :: "'s memory \<Rightarrow> (nat \<times> nat) list \<Rightarrow> bool" where
  "fits m xs \<longleftrightarrow> list_all (\<lambda>(a, n). n \<le> length (heap m a)) xs"

lemma fits_simps [simp]:
  "fits m []" "fits m ((a, n) # xs) \<longleftrightarrow> n \<le> length (heap m a) \<and> fits m xs"
  "fits m (xs @ ys) \<longleftrightarrow> fits m xs \<and> fits m ys" "fits (putBuf a m) xs = fits m xs"
  "fits (m\<lparr>svc := s\<rparr>) xs = fits m xs"
  by (simp_all add: fits_def)

lemma spans_owned: "(a, n) \<in> set (pipe_spans b) \<Longrightarrow> a \<in> set (pipe_owns b)"
proof -
  have "fst x \<in> set (producer_owns q)" if "x \<in> set (producer_spans q)" for q x using that by (cases q) auto
  moreover have "fst x \<in> set (uploader_owns u)" if "x \<in> set (uploader_spans u)" for u x using that by (cases u) auto
  ultimately show "(a, n) \<in> set (pipe_spans b) \<Longrightarrow> a \<in> set (pipe_owns b)"
    by (fastforce simp: pipe_spans_def pipe_owns_def)
qed

lemma spans_after_read [simp]: "producer_spans (after_read e) = []"
  by (simp add: after_read_def split: option.split)

lemma fits_grows:
  "fits m xs \<Longrightarrow> (\<And>a n. (a, n) \<in> set xs \<Longrightarrow> length (heap m a) \<le> length (heap m' a)) \<Longrightarrow> fits m' xs"
  by (fastforce simp: fits_def list_all_iff)

lemma buf_move_fits:
  assumes "buf_move api key uid c (b, m) (b', m')" and "fits m (pipe_spans b)" and "\<forall>x \<in> set (pipe_owns b). x < made m"
  shows "fits m' (pipe_spans b')"
  using assms(1)
proof cases
  case (get a)
  have "fits m' (pipe_spans b)"
    by (rule fits_grows [OF assms(2)]) (use getBuf_facts(4) [OF get(3)] assms(3) spans_owned in auto)
  with get show ?thesis by (simp add: pipe_spans_def)
next
  case (read a bs e r)
  have "fits m' (pipe_spans b)"
    by (rule fits_grows [OF assms(2)]) (simp add: read read_into_def, arith)
  with read show ?thesis by (simp add: pipe_spans_def) (simp add: read_into_def)
qed (use assms(2) in \<open>auto simp: pipe_spans_def\<close>)

text \<open>And it is a move of \<open>S3Store\<close>, unless it only takes a buffer.\<close>

lemma up_at_see: "b_ups b = us @ u # vs \<Longrightarrow> up_at (length us) (see_pipe m b) = Some (see_uploader m u)"
  by (simp add: up_at_def see_pipe_def nth_append)

lemma set_up_see: "b_ups b = us @ u # vs \<Longrightarrow>
    set_up (length us) v (see_pipe m b) = (see_pipe m b)\<lparr>p_ups := map (see_uploader m) us @ v # map (see_uploader m) vs\<rparr>"
  by (simp add: set_up_def see_pipe_def list_update_append)

definition moves_or_stays :: "'s s3_api \<Rightarrow> string \<Rightarrow> string \<Rightarrow> store_cfg \<Rightarrow> 's pipe \<Rightarrow> 's pipe \<Rightarrow> bool" where
  "moves_or_stays api key uid c p q \<longleftrightarrow> q = p \<or> (\<exists>mv. pipe_step api key uid c mv p = Some q)"

lemma moves_by: "pipe_step api key uid c mv p = Some q \<Longrightarrow> moves_or_stays api key uid c p q"
  by (auto simp: moves_or_stays_def)

lemma buf_move_simulates:
  assumes "buf_move api key uid c (b, m) (b', m')" and "distinct (pipe_owns b)" and "\<forall>x \<in> set (pipe_owns b). x < made m"
    and "fits m (pipe_spans b)"
  shows "moves_or_stays api key uid c (see_pipe m b) (see_pipe m' b')"
  using assms(1)
proof cases
  case (send_first a n)
  then show ?thesis by (intro moves_by [where mv = MSend]) (simp add: see_pipe_def see_job_def)
next
  case (give_up_first a n)
  then show ?thesis by (intro moves_by [where mv = MGiveUp]) (simp add: see_pipe_def)
next
  case (get a)
  have "see_pipe m' b = (see_pipe m b)\<lparr>s3 := svc m'\<rparr>"
    using getBuf_facts(4) [OF get(3)] assms(3) by (intro see_pipe_frame) blast
  then show ?thesis using get getBuf_facts(1) [OF get(3)] by (simp add: moves_or_stays_def see_pipe_def)
next
  case (read a bs e r)
  have o: "a \<notin> jb_buf ` set (b_jobs b)" "a \<notin> set (concat (map uploader_owns (b_ups b)))"
    using assms(2) read(3) by (auto simp: pipe_owns_def)
  have "map (see_job m') (b_jobs b) = map (see_job m) (b_jobs b)"
    using o(1) by (auto simp: read read_into_def intro!: see_job_frame)
  moreover have "map (see_uploader m') (b_ups b) = map (see_uploader m) (b_ups b)"
    using o(2) by (auto simp: read read_into_def intro!: see_uploader_frame)
  ultimately show ?thesis
    using read by (intro moves_by [where mv = MFill]) (simp add: see_pipe_def see_job_def)
next
  case (read_nothing a e r)
  then show ?thesis by (intro moves_by [where mv = MFill]) (simp add: see_pipe_def)
next
  case (send j e)
  then show ?thesis by (intro moves_by [where mv = MSend]) (simp add: see_pipe_def)
next
  case (give_up j e)
  then show ?thesis by (intro moves_by [where mv = MGiveUp]) (simp add: see_pipe_def)
next
  case (receive us vs j js)
  then show ?thesis
    by (intro moves_by [where mv = "MTake (length us)"])
       (simp add: up_at_see, simp add: see_pipe_def set_up_def list_update_append)
next
  case (uploaded us j vs etag s)
  then have "length (buf_bytes m (jb_buf j) (jb_len j)) = jb_len j" using assms(4) by (simp add: pipe_spans_def buf_bytes_def)
  with uploaded show ?thesis
    by (intro moves_by [where mv = "MUpload (length us)"])
       (simp add: up_at_see, simp add: see_pipe_def set_up_def list_update_append see_job_def)
next
  case (refused us j vs x s)
  then show ?thesis
    by (intro moves_by [where mv = "MUpload (length us)"])
       (simp add: up_at_see, simp add: see_pipe_def set_up_def fail_up_def first_err_def list_update_append see_job_def)
next
  case (abandoned us j vs)
  then show ?thesis
    by (intro moves_by [where mv = "MAbandon (length us)"])
       (simp add: up_at_see, simp add: see_pipe_def set_up_def fail_up_def first_err_def list_update_append see_job_def)
next
  case (closed us vs e)
  then show ?thesis
    by (intro moves_by [where mv = "MExit (length us)"])
       (simp add: up_at_see, simp add: see_pipe_def set_up_def list_update_append)
next
  case cancel
  then show ?thesis by (intro moves_by [where mv = MCancel]) (simp add: see_pipe_def)
qed

section \<open>All uploads of a process\<close>

text \<open>
  \<open>Put\<close> on a body of unknown size, from \<open>putAuto\<close> on: before the first buffer; with it; calling
  \<open>PutObject\<close>; creating a multipart upload; in one; returned.
\<close>

datatype put_stage =
    AGet reader | AFill nat reader | ASingle nat nat | AMulti nat nat reader | APipe string buf_pipe
  | ADone "goerr + int"

record upload =
  q_key :: string
  q_ct :: string
  q_body :: reader
  q_stage :: put_stage

inductive put_move ::
  "'s s3_api \<Rightarrow> store_cfg \<Rightarrow> string \<Rightarrow> string \<Rightarrow> put_stage \<times> 's memory \<Rightarrow> put_stage \<times> 's memory \<Rightarrow> bool"
  for api c key ct where
  first_buffer: "getBuf c a m m' \<Longrightarrow> put_move api c key ct (AGet r, m) (AFill a r, m')"
| short: "fill (nat (partSize c)) r = ((bs, Some e), r') \<Longrightarrow> errors_is e EOF \<Longrightarrow>
    put_move api c key ct (AFill a r, m) (ASingle a (length bs), read_into a bs m)"
| broken: "fill (nat (partSize c)) r = ((bs, Some e), r') \<Longrightarrow> \<not> errors_is e EOF \<Longrightarrow>
    put_move api c key ct (AFill a r, m)
      (ADone (Inl (wrap ''read first part'' e)), putBuf a (read_into a bs m))"
| full: "fill (nat (partSize c)) r = ((bs, None), r') \<Longrightarrow>
    put_move api c key ct (AFill a r, m) (AMulti a (length bs) r', read_into a bs m)"
| single: "putObject api key (Stream [Data (buf_bytes m a n) None]) (int n) ct (svc m) = ((res, r), s) \<Longrightarrow>
    put_move api c key ct (ASingle a n, m) (ADone res, putBuf a (m\<lparr>svc := s\<rparr>))"
| not_created: "api_create api key ct (svc m) = (Inl e, s) \<Longrightarrow>
    put_move api c key ct (AMulti a n r, m) (ADone (Inl (wrap ''create multipart'' e)), putBuf a (m\<lparr>svc := s\<rparr>))"
| created: "api_create api key ct (svc m) = (Inr uid, s) \<Longrightarrow>
    put_move api c key ct (AMulti a n r, m) (APipe uid (buf_init c a n r), m\<lparr>svc := s\<rparr>)"
| move: "buf_move api key uid c (b, m) (b', m') \<Longrightarrow> put_move api c key ct (APipe uid b, m) (APipe uid b', m')"
| finish: "buf_done b \<Longrightarrow> finish_pipe api key uid (see_pipe m b) = (res, s) \<Longrightarrow>
    put_move api c key ct (APipe uid b, m) (ADone res, fold putBuf (map jb_buf (b_jobs b)) (m\<lparr>svc := s\<rparr>))"

text \<open>
  The uploads of all requests, each under a key of its own (the service puts a fresh uuid into it), over one memory
  and one service; and the garbage collector.
\<close>

inductive store_step :: "'s s3_api \<Rightarrow> store_cfg \<Rightarrow> 's memory \<times> upload list \<Rightarrow> 's memory \<times> upload list \<Rightarrow> bool"
  for api c where
  begin_put: "key \<notin> q_key ` set qs \<Longrightarrow>
    store_step api c (m, qs) (m, qs @ [\<lparr>q_key = key, q_ct = ct, q_body = body, q_stage = AGet body\<rparr>])"
| act: "put_move api c (q_key q) (q_ct q) (q_stage q, m) (st, m') \<Longrightarrow>
    store_step api c (m, xs @ q # ys) (m', xs @ q\<lparr>q_stage := st\<rparr> # ys)"
| collect: "pooled m = as @ a # bs \<Longrightarrow>
    store_step api c (m, qs) (m\<lparr>pooled := as @ bs, dropped := a # dropped m\<rparr>, qs)"

inductive store_reachable :: "'s s3_api \<Rightarrow> store_cfg \<Rightarrow> 's memory \<times> upload list \<Rightarrow> bool" for api c where
  fresh: "store_reachable api c (\<lparr>heap = (\<lambda>_. []), pooled = [], made = 0, dropped = [], svc = s\<rparr>, [])"
| more: "store_reachable api c x \<Longrightarrow> store_step api c x y \<Longrightarrow> store_reachable api c y"

fun put_owns :: "put_stage \<Rightarrow> nat list" where
  "put_owns (AGet r) = []" | "put_owns (AFill a r) = [a]" | "put_owns (ASingle a n) = [a]"
| "put_owns (AMulti a n r) = [a]" | "put_owns (APipe uid b) = pipe_owns b" | "put_owns (ADone res) = []"

definition all_owned :: "upload list \<Rightarrow> nat list" where
  "all_owned qs = concat (map (\<lambda>q. put_owns (q_stage q)) qs)"

lemma pooled_fold: "mset (pooled (fold putBuf as m)) = mset as + mset (pooled m)"
  by (induction as arbitrary: m) auto

lemma fold_putBuf_sel [simp]:
  "heap (fold putBuf as m) = heap m" "made (fold putBuf as m) = made m" "dropped (fold putBuf as m) = dropped m"
  "svc (fold putBuf as m) = svc m"
  by (induction as arbitrary: m) auto

lemma done_owns: "buf_done b \<Longrightarrow> pipe_owns b = map jb_buf (b_jobs b)"
proof -
  have "concat (map uploader_owns us) = []" if "list_all (\<lambda>u. u = BExit) us" for us
    using that by (induction us) auto
  then show "buf_done b \<Longrightarrow> pipe_owns b = map jb_buf (b_jobs b)" by (auto simp: buf_done_def pipe_owns_def)
qed

lemma init_owns: "pipe_owns (buf_init c a n r) = [a]"
proof -
  have "concat (map uploader_owns (replicate k BIdle)) = []" for k by (induction k) auto
  then show ?thesis by (simp add: pipe_owns_def buf_init_def)
qed

lemma put_move_books:
  assumes "put_move api c key ct (st, m) (st', m')"
  shows "mset (pooled m') + mset (put_owns st') + mset [0..<made m] =
      mset (pooled m) + mset (put_owns st) + mset [0..<made m'] \<and> dropped m' = dropped m \<and> made m \<le> made m'"
  using assms
proof cases
  case (first_buffer a r)
  from getBuf_facts [OF this(3)] first_buffer(1,2) show ?thesis by (simp add: ac_simps)
next
  case (move uid b b')
  from buf_move_books [OF this(3)] move(1,2) show ?thesis by simp
qed (auto simp: done_owns init_owns pooled_fold)

text \<open>Every buffer that was made is in one place: in the pool, in one hand of one upload, or gone.\<close>

definition accounted :: "'s memory \<times> upload list \<Rightarrow> bool" where
  "accounted x \<longleftrightarrow> mset (dropped (fst x) @ pooled (fst x) @ all_owned (snd x)) = mset [0..<made (fst x)]"

lemma store_step_accounted:
  assumes "store_step api c x y" and "accounted x"
  shows "accounted y"
  using assms
proof cases
  case (act q m st m' xs ys)
  let ?O = "mset (put_owns (q_stage q))" and ?O' = "mset (put_owns st)" and ?R = "mset [0..<made m]"
    and ?R' = "mset [0..<made m']" and ?A = "mset (dropped m) + mset (all_owned xs) + mset (all_owned ys)"
  have b: "mset (pooled m') + ?O' + ?R = mset (pooled m) + ?O + ?R'" and d: "dropped m' = dropped m"
    using put_move_books [OF act(3)] by auto
  have i: "?A + (mset (pooled m) + ?O) = ?R" using assms(2) act(1) by (simp add: accounted_def all_owned_def ac_simps)
  have "?A + (mset (pooled m') + ?O') + ?R = ?A + (mset (pooled m') + ?O' + ?R)" by (simp only: ac_simps)
  also have "\<dots> = ?A + (mset (pooled m) + ?O + ?R')" by (simp only: b)
  also have "\<dots> = ?A + (mset (pooled m) + ?O) + ?R'" by (simp only: ac_simps)
  finally have "?A + (mset (pooled m') + ?O') + ?R = ?R' + ?R" unfolding i add.commute [of ?R ?R'] .
  then have "?A + (mset (pooled m') + ?O') = ?R'" by (rule add_right_imp_eq)
  then show ?thesis using act(2) d by (simp add: accounted_def all_owned_def ac_simps)
qed (auto simp: accounted_def all_owned_def)

lemma accounted_distinct:
  assumes "accounted (m, qs)"
  shows "distinct (dropped m @ pooled m @ all_owned qs)" "set (dropped m @ pooled m @ all_owned qs) = {..<made m}"
proof -
  have e: "mset (dropped m @ pooled m @ all_owned qs) = mset [0..<made m]" using assms by (simp add: accounted_def)
  show "distinct (dropped m @ pooled m @ all_owned qs)" using mset_eq_imp_distinct_iff [OF e] by simp
  show "set (dropped m @ pooled m @ all_owned qs) = {..<made m}"
    using mset_eq_setD [OF e] by (simp only: set_upt atLeast0LessThan)
qed

section \<open>A service that uploads share\<close>

text \<open>
  What S3 promises to several multipart uploads at once: upload ids are not given out twice
  (\<open>used\<close>: those given out so far), and a call for one upload leaves the parts of the others alone.
\<close>

locale shared_s3 = s3_service +
  fixes used :: "'a \<Rightarrow> string set"
  assumes create_new: "api_create api key ct s = (Inr uid, s') \<Longrightarrow> uid \<notin> used s \<and> uid \<in> used s'"
    and create_keeps: "api_create api key ct s = (r1, s') \<Longrightarrow>
      used s \<subseteq> used s' \<and> (\<forall>u \<in> used s. mparts s' u = mparts s u)"
    and put_keeps: "api_put api key n body ct s = (r2, s') \<Longrightarrow> used s' = used s \<and> mparts s' = mparts s"
    and part_keeps: "api_part api key uid k d s = (r3, s') \<Longrightarrow>
      used s' = used s \<and> (\<forall>u. u \<noteq> uid \<longrightarrow> mparts s' u = mparts s u)"
    and complete_keeps: "api_complete api key uid ps s = (r4, s') \<Longrightarrow>
      used s' = used s \<and> (\<forall>u. u \<noteq> uid \<longrightarrow> mparts s' u = mparts s u)"
    and abort_keeps: "used (api_abort api key uid s) = used s \<and>
      (\<forall>u. u \<noteq> uid \<longrightarrow> mparts (api_abort api key uid s) u = mparts s u)"

text \<open>What is true of an upload at each stage, with \<open>bs\<close> and \<open>e\<close> what its body delivers.\<close>

definition upload_ok ::
  "store_cfg \<Rightarrow> ('s \<Rightarrow> string \<Rightarrow> bytes option) \<Rightarrow> ('s \<Rightarrow> string \<Rightarrow> (int \<Rightarrow> bytes option) option) \<Rightarrow> ('s \<Rightarrow> string set) \<Rightarrow>
   string \<Rightarrow> reader \<Rightarrow> put_stage \<Rightarrow> 's memory \<Rightarrow> bool" where
  "upload_ok c objs mparts used key body st m \<longleftrightarrow>
     (case st of
        AGet r \<Rightarrow> r = body
      | AFill a r \<Rightarrow> r = body
      | ASingle a n \<Rightarrow> \<forall>bs e. delivers body bs e \<longrightarrow> buf_bytes m a n = bs \<and> n = length bs \<and> errors_is e EOF
      | AMulti a n r \<Rightarrow> n \<le> length (heap m a) \<and>
          (\<forall>bs e. delivers body bs e \<longrightarrow> (\<exists>rest. bs = buf_bytes m a n @ rest \<and> delivers r rest e))
      | APipe uid b \<Rightarrow> uid \<in> used (svc m) \<and> fits m (pipe_spans b) \<and> shape_ok c (see_pipe m b) \<and>
          (\<forall>bs e. delivers body bs e \<longrightarrow> pipe_inv mparts uid bs e (see_pipe m b))
      | ADone (Inl x) \<Rightarrow> True
      | ADone (Inr n) \<Rightarrow> \<forall>bs e. delivers body bs e \<longrightarrow>
          errors_is e EOF \<and> n = int (length bs) \<and> objs (svc m) key = Some bs)"

fun put_uid :: "put_stage \<Rightarrow> string list" where
  "put_uid (APipe uid b) = [uid]" | "put_uid _ = []"

lemma pipe_inv_frame:
  assumes "pipe_inv mp uid bs e p" and "mp s uid = mp (s3 p) uid"
  shows "pipe_inv mp uid bs e (p\<lparr>s3 := s\<rparr>)"
proof -
  obtain cs where cs: "prod_inv bs e cs p" "data_inv (mp (s3 p) uid) cs p" using assms(1) by (auto simp: pipe_inv_def)
  have "prod_inv bs e cs (p\<lparr>s3 := s\<rparr>)" by (rule prod_inv_cong [OF cs(1)]) simp_all
  moreover have "data_inv (mp s uid) cs (p\<lparr>s3 := s\<rparr>)"
    using cs(2) assms(2) by (simp add: data_inv_def nums_inv_def jobs_inv_def parts_inv_def closed_inv_def)
  ultimately show ?thesis by (auto simp: pipe_inv_def)
qed

lemma upload_ok_frame:
  assumes "upload_ok c objs mparts used key body st m"
    and "\<And>x. x \<in> set (put_owns st) \<Longrightarrow> heap m' x = heap m x" and "objs (svc m') key = objs (svc m) key"
    and "used (svc m) \<subseteq> used (svc m')" and "\<And>u. u \<in> set (put_uid st) \<Longrightarrow> mparts (svc m') u = mparts (svc m) u"
  shows "upload_ok c objs mparts used key body st m'"
proof (cases st)
  case (APipe uid b)
  have v: "see_pipe m' b = (see_pipe m b)\<lparr>s3 := svc m'\<rparr>" using assms(2) APipe by (intro see_pipe_frame) simp
  have "pipe_inv mparts uid bs e (see_pipe m' b)" if "pipe_inv mparts uid bs e (see_pipe m b)" for bs e
    unfolding v using that assms(5) [of uid] APipe by (intro pipe_inv_frame) (simp_all add: see_pipe_def)
  moreover have "fits m' (pipe_spans b)" if "fits m (pipe_spans b)"
    by (rule fits_grows [OF that]) (use assms(2) APipe spans_owned in auto)
  moreover have "shape_ok c (see_pipe m' b) = shape_ok c (see_pipe m b)" by (simp add: v shape_ok_def)
  ultimately show ?thesis using assms(1,4) APipe by (auto simp: upload_ok_def)
qed (use assms(1-3) in \<open>auto simp: upload_ok_def buf_bytes_def split: sum.splits\<close>)

lemma see_init: "see_pipe m (buf_init c a n r) = pipe_init c (Some (buf_bytes m a n)) r (svc m)"
  by (simp add: see_pipe_def buf_init_def pipe_init_def)

lemma init_spans: "pipe_spans (buf_init c a n r) = [(a, n)]"
proof -
  have "concat (map uploader_spans (replicate k BIdle)) = []" for k by (induction k) auto
  then show ?thesis by (simp add: pipe_spans_def buf_init_def)
qed

lemma done_see: "buf_done b \<Longrightarrow> pipe_done (see_pipe m b)"
  by (auto simp: buf_done_def pipe_done_def see_pipe_def list_all_iff)

context shared_s3 begin

lemma buf_move_service:
  assumes "buf_move api key uid c (b, m) (b', m')"
  shows "objs (svc m') = objs (svc m) \<and> used (svc m') = used (svc m) \<and>
    (\<forall>u. u \<noteq> uid \<longrightarrow> mparts (svc m') u = mparts (svc m) u)"
  using assms
proof cases
  case (get a)
  with getBuf_facts(1) [OF get(3)] show ?thesis by simp
next
  case (uploaded us j vs etag s)
  from part_keeps [OF this(4)] part_objs [of key uid "jb_num j" "buf_bytes m (jb_buf j) (jb_len j)" "svc m"] uploaded
  show ?thesis by simp
next
  case (refused us j vs x s)
  from part_keeps [OF this(4)] part_objs [of key uid "jb_num j" "buf_bytes m (jb_buf j) (jb_len j)" "svc m"] refused
  show ?thesis by simp
qed simp_all

lemma finish_keeps:
  assumes "finish_pipe api key uid p = (res, s)"
  shows "used s = used (s3 p) \<and> (\<forall>u. u \<noteq> uid \<longrightarrow> mparts s u = mparts (s3 p) u)"
  using assms abort_keeps complete_keeps
  by (fastforce simp: finish_pipe_def Let_def split: producer.splits option.splits prod.splits)

lemma putObject_keeps:
  assumes "putObject api key body n ct s = (rb, s')"
  shows "used s' = used s \<and> mparts s' = mparts s"
proof -
  obtain x b where "api_put api key (if n > 0 then n else 0) body ct s = ((x, b), s')"
    using assms by (auto simp: putObject_def split: prod.splits option.splits)
  from put_keeps [OF this] show ?thesis .
qed

text \<open>What a step of one upload leaves as it was.\<close>

lemma put_move_frame:
  assumes "put_move api c key ct (st, m) (st', m')"
  shows "used (svc m) \<subseteq> used (svc m') \<and> (\<forall>k. k \<noteq> key \<longrightarrow> objs (svc m') k = objs (svc m) k) \<and>
    (\<forall>u \<in> used (svc m). u \<notin> set (put_uid st) \<longrightarrow> mparts (svc m') u = mparts (svc m) u) \<and>
    (\<forall>x < made m. x \<notin> set (put_owns st) \<longrightarrow> heap m' x = heap m x) \<and>
    (\<forall>u \<in> set (put_uid st'). u \<in> set (put_uid st) \<or> u \<notin> used (svc m))"
  using assms
proof cases
  case (first_buffer a r)
  from getBuf_facts(1,4) [OF first_buffer(3)] first_buffer(1,2) show ?thesis by auto
next
  case (single a n res r s)
  from putObject_keeps [OF single(4)] putObject_frame [OF single(4)] single(1-3) show ?thesis by auto
next
  case (not_created e s a n r)
  from create_keeps [OF not_created(4)] create_err [OF not_created(4)] not_created(1-3) show ?thesis by auto
next
  case (created uid s a n r)
  from create_keeps [OF created(4)] create_ok [OF created(4)] create_new [OF created(4)] created(1-3)
  show ?thesis by auto
next
  case (move uid b b')
  from buf_move_service [OF move(3)] buf_move_heap [OF move(3)] move(1,2) show ?thesis by auto
next
  case (finish b uid res s)
  from finish_keeps [OF finish(5)] finish_pipe_frame [OF finish(5)] finish(1-3) show ?thesis
    by (auto simp: see_pipe_def)
qed (auto simp: read_into_def)

text \<open>What a step keeps of its own upload.\<close>

lemma pipe_ok_moves:
  assumes "moves_or_stays api key uid c p q" and "1 \<le> partSize c"
  shows "(shape_ok c p \<longrightarrow> shape_ok c q) \<and> (pipe_inv mparts uid bs e p \<longrightarrow> pipe_inv mparts uid bs e q)"
  using assms pipe_step_shape pipe_step_inv by (fastforce simp: moves_or_stays_def)

lemma put_move_ok:
  assumes "put_move api c key ct (st, m) (st', m')" and "upload_ok c objs mparts used key body st m"
    and "distinct (put_owns st)" and "\<forall>x \<in> set (put_owns st). x < made m"
    and "1 \<le> partSize c" and "1 \<le> partConcurrency c"
  shows "upload_ok c objs mparts used key body st' m'"
  using assms(1)
proof cases
  case (short r bs e r' a)
  have "fill (nat (partSize c)) body = ((bs, Some e), r')" using short assms(2) by (simp add: upload_ok_def)
  from fill_eof_split [OF this] short show ?thesis by (auto simp: upload_ok_def)
next
  case (full r bs r' a)
  have "fill (nat (partSize c)) body = ((bs, None), r')" using full assms(2) by (simp add: upload_ok_def)
  with full show ?thesis by (auto simp: upload_ok_def read_into_def buf_bytes_def dest: fill_delivers)
next
  case (single a n res r s)
  show ?thesis
  proof (cases res)
    case (Inr k)
    have "errors_is e EOF \<and> k = int (length bs) \<and> objs s key = Some bs" if d: "delivers body bs e" for bs e
    proof -
      have b: "buf_bytes m a n = bs" "n = length bs" "errors_is e EOF"
        using assms(2) d unfolding single(1) upload_ok_def put_stage.case by blast+
      from putObject_ok [OF single(4) [unfolded Inr], of bs "Sentinel EOF"] b show ?thesis by simp
    qed
    with single Inr show ?thesis by (simp add: upload_ok_def)
  qed (use single in \<open>simp add: upload_ok_def\<close>)
next
  case (created uid s a n r)
  have "pipe_inv mparts uid bs e (pipe_init c (Some (buf_bytes m a n)) r s)" if d: "delivers body bs e" for bs e
  proof -
    obtain rest where "bs = buf_bytes m a n @ rest" "delivers r rest e"
      using assms(2) created(1) d by (auto simp: upload_ok_def)
    with pipe_inv_init [of r rest e s uid "Some (buf_bytes m a n)" c] create_ok [OF created(4)] show ?thesis by simp
  qed
  with created assms(2) create_new [OF created(4)] shape_init [OF assms(6)] show ?thesis
    by (simp add: upload_ok_def see_init init_spans)
next
  case (move uid b b')
  have ok: "uid \<in> used (svc m)" "fits m (pipe_spans b)" "shape_ok c (see_pipe m b)"
    "\<And>bs e. delivers body bs e \<Longrightarrow> pipe_inv mparts uid bs e (see_pipe m b)"
    using assms(2) move(1) by (auto simp: upload_ok_def)
  have "moves_or_stays api key uid c (see_pipe m b) (see_pipe m' b')"
    by (rule buf_move_simulates [OF move(3) _ _ ok(2)]) (use assms(3,4) move(1) in auto)
  note pipe_ok_moves [OF this assms(5)]
  moreover have "fits m' (pipe_spans b')"
    by (rule buf_move_fits [OF move(3) ok(2)]) (use assms(4) move(1) in auto)
  ultimately show ?thesis using ok buf_move_service [OF move(3)] move(2) by (simp add: upload_ok_def)
next
  case (finish b uid res s)
  show ?thesis
  proof (cases res)
    case (Inr k)
    have "shape_ok c (see_pipe m b)" "\<And>bs e. delivers body bs e \<Longrightarrow> pipe_inv mparts uid bs e (see_pipe m b)"
      using assms(2) finish(1) by (auto simp: upload_ok_def)
    moreover from this(1) have "p_ups (see_pipe m b) \<noteq> []" using assms(6) by (auto simp: shape_ok_def)
    ultimately show ?thesis
      using finish_pipe_ok [OF finish(5) [unfolded Inr] done_see [OF finish(4)]] finish(2,3) Inr
      by (simp add: upload_ok_def) (metis fun_upd_same)
  qed (use finish in \<open>simp add: upload_ok_def\<close>)
qed (use assms(2) in \<open>auto simp: upload_ok_def\<close>)

definition store_ok :: "store_cfg \<Rightarrow> 'a memory \<times> upload list \<Rightarrow> bool" where
  "store_ok c x \<longleftrightarrow> accounted x \<and> distinct (map q_key (snd x)) \<and>
     distinct (concat (map (\<lambda>q. put_uid (q_stage q)) (snd x))) \<and>
     (\<forall>q \<in> set (snd x). upload_ok c objs mparts used (q_key q) (q_body q) (q_stage q) (fst x))"

lemma put_uid_used: "upload_ok c objs mparts used key body st m \<Longrightarrow> u \<in> set (put_uid st) \<Longrightarrow> u \<in> used (svc m)"
  by (cases st) (auto simp: upload_ok_def)

lemma store_step_ok:
  assumes "store_step api c x y" and "store_ok c x" and "1 \<le> partSize c" and "1 \<le> partConcurrency c"
  shows "store_ok c y"
  using assms(1)
proof cases
  case (begin_put key qs m ct body)
  with assms(2) store_step_accounted [OF assms(1)] show ?thesis by (auto simp: store_ok_def upload_ok_def)
next
  case (act q m st m' xs ys)
  have acc: "accounted (m, xs @ q # ys)" and uids: "distinct (concat (map (\<lambda>q. put_uid (q_stage q)) (xs @ q # ys)))"
    and keys: "distinct (map q_key (xs @ q # ys))"
    and ok: "\<And>p. p \<in> set (xs @ q # ys) \<Longrightarrow> upload_ok c objs mparts used (q_key p) (q_body p) (q_stage p) m"
    using assms(2) act(1) by (auto simp: store_ok_def)
  note fr = put_move_frame [OF act(3)] and d = accounted_distinct [OF acc]
  have own: "distinct (put_owns (q_stage q))" "\<forall>x \<in> set (put_owns (q_stage q)). x < made m"
    using d by (auto simp: all_owned_def)
  have self: "upload_ok c objs mparts used (q_key q) (q_body q) st m'"
    by (rule put_move_ok [OF act(3) ok own assms(3,4)]) simp
  have others: "upload_ok c objs mparts used (q_key p) (q_body p) (q_stage p) m'" if p: "p \<in> set xs \<union> set ys" for p
  proof (rule upload_ok_frame)
    show okp: "upload_ok c objs mparts used (q_key p) (q_body p) (q_stage p) m" using ok p by auto
    show "heap m' x = heap m x" if x: "x \<in> set (put_owns (q_stage p))" for x
    proof -
      have "x \<in> set (all_owned (xs @ q # ys))" using p x by (auto simp: all_owned_def)
      then have "x < made m" using d(2) by auto
      moreover have "x \<notin> set (put_owns (q_stage q))" using d(1) p x by (auto simp: all_owned_def)
      ultimately show ?thesis using fr by blast
    qed
    have "q_key q \<notin> q_key ` (set xs \<union> set ys)" using keys by (simp add: image_Un)
    then have "q_key p \<noteq> q_key q" using imageI [OF p, of q_key] by metis
    then show "objs (svc m') (q_key p) = objs (svc m) (q_key p)" using fr by blast
    show "used (svc m) \<subseteq> used (svc m')" using fr by blast
    show "mparts (svc m') u = mparts (svc m) u" if u: "u \<in> set (put_uid (q_stage p))" for u
    proof -
      have "u \<notin> set (put_uid (q_stage q))" using uids p u by auto
      then show ?thesis using fr put_uid_used [OF okp u] by blast
    qed
  qed
  have uids': "distinct (concat (map (\<lambda>q. put_uid (q_stage q)) (xs @ q\<lparr>q_stage := st\<rparr> # ys)))"
  proof -
    have "u \<notin> set (put_uid st)" if "p \<in> set xs \<union> set ys" "u \<in> set (put_uid (q_stage p))" for p u
      using fr uids that put_uid_used [OF ok, of p u] by auto
    moreover have "distinct (put_uid st)" by (cases st) auto
    ultimately show ?thesis using uids by auto
  qed
  have "accounted y" using store_step_accounted [OF assms(1)] acc act(1) by simp
  moreover have "distinct (map q_key (xs @ q\<lparr>q_stage := st\<rparr> # ys))" using keys by simp
  moreover have "\<forall>p \<in> set (xs @ q\<lparr>q_stage := st\<rparr> # ys). upload_ok c objs mparts used (q_key p) (q_body p) (q_stage p) m'"
  proof
    fix p assume "p \<in> set (xs @ q\<lparr>q_stage := st\<rparr> # ys)"
    then consider "p = q\<lparr>q_stage := st\<rparr>" | "p \<in> set xs \<union> set ys" by auto
    then show "upload_ok c objs mparts used (q_key p) (q_body p) (q_stage p) m'"
    proof cases
      case 1
      with self show ?thesis by simp
    next
      case 2
      then show ?thesis by (rule others)
    qed
  qed
  ultimately show ?thesis using uids' act(2) by (simp only: store_ok_def fst_conv snd_conv)
next
  case (collect m as a bs qs)
  have ok: "distinct (map q_key qs)" "distinct (concat (map (\<lambda>q. put_uid (q_stage q)) qs))"
    "\<And>q. q \<in> set qs \<Longrightarrow> upload_ok c objs mparts used (q_key q) (q_body q) (q_stage q) m"
    using assms(2) collect(1) by (simp_all add: store_ok_def)
  have "upload_ok c objs mparts used (q_key q) (q_body q) (q_stage q) (m\<lparr>pooled := as @ bs, dropped := a # dropped m\<rparr>)"
    if "q \<in> set qs" for q
    by (rule upload_ok_frame [OF ok(3) [OF that]]) simp_all
  moreover have "accounted y" using store_step_accounted [OF assms(1)] assms(2) by (simp add: store_ok_def)
  ultimately show ?thesis using ok(1,2) collect(2) by (simp add: store_ok_def)
qed

lemma store_reachable_ok:
  "store_reachable api c x \<Longrightarrow> 1 \<le> partSize c \<Longrightarrow> 1 \<le> partConcurrency c \<Longrightarrow> store_ok c x"
proof (induction rule: store_reachable.induct)
  case (fresh s)
  then show ?case by (simp add: store_ok_def accounted_def all_owned_def)
next
  case (more x y)
  then show ?case using store_step_ok by blast
qed

end

section \<open>The service of the tests\<close>

definition fake_used :: "fake_s3 \<Rightarrow> string set" where
  "fake_used s = (\<lambda>k. ''upload-'' @ itoa (int k)) ` {1..nextID s}"

lemma itoa_nat_eq [simp]: "itoa (int k) = itoa (int n) \<longleftrightarrow> k = n"
proof
  assume "itoa (int k) = itoa (int n)"
  then have "nat_digits k = nat_digits n" by (simp add: itoa_def)
  then show "k = n" by (metis digits_val_nat_digits option.inject)
qed simp

lemma fake_used_Suc: "nextID s' = Suc (nextID s) \<Longrightarrow>
    fake_used s' = insert (''upload-'' @ itoa (int (nextID s'))) (fake_used s)"
  by (simp add: fake_used_def atLeastAtMostSuc_conv)

lemma fake_used_fresh: "''upload-'' @ itoa (int (Suc (nextID s))) \<notin> fake_used s"
  by (auto simp: fake_used_def simp del: of_nat_Suc)

interpretation fake_shared: shared_s3 "fake_api presign" objects fake_parts fake_used
proof
  fix key ct s uid s'
  assume "api_create (fake_api presign) key ct s = (Inr uid, s')"
  then have "uid = ''upload-'' @ itoa (int (Suc (nextID s)))" "nextID s' = Suc (nextID s)"
    by (auto simp: fake_api_def createMultipart_def Let_def)
  then show "uid \<notin> fake_used s \<and> uid \<in> fake_used s'" using fake_used_fresh fake_used_Suc [of s' s] by simp
next
  fix key ct s r1 s'
  assume a: "api_create (fake_api presign) key ct s = (r1, s')"
  let ?uid = "''upload-'' @ itoa (int (Suc (nextID s)))"
  from a have s': "s' = s\<lparr>nextID := Suc (nextID s), parts := (parts s)(?uid := Some [])\<rparr>"
    by (auto simp: fake_api_def createMultipart_def Let_def)
  have "fake_parts s' u = fake_parts s u" if "u \<in> fake_used s" for u
    using that fake_used_fresh [of s] by (auto simp: s' fake_parts_def)
  moreover have "fake_used s \<subseteq> fake_used s'" using fake_used_Suc [of s' s] by (auto simp: s')
  ultimately show "fake_used s \<subseteq> fake_used s' \<and> (\<forall>u \<in> fake_used s. fake_parts s' u = fake_parts s u)" by blast
qed (auto simp: fake_api_def fake_put_def fake_part_def completeMultipart_def fake_abort_def fake_used_def fake_parts_def
      fun_eq_iff Let_def split: prod.splits if_splits)

lemma fake_shared_service: "shared_s3 (fake_api presign) objects fake_parts fake_used"
  by (rule fake_shared.shared_s3_axioms)

section \<open>Properties\<close>

text \<open>
  C6. Uploads that run at the same time never see each other's bytes, although they fill, send and reuse the same
  buffers. However the reads, the goroutines, the cancellations, the pool and the garbage collector interleave, and
  with any service that keeps apart what was sent for different uploads: every buffer ever allocated is in
  exactly one place (in the pool, in one hand of one upload, or collected), so none is leaked, shared or given back twice;
  and an upload that has succeeded reported the length of its own body and its key still holds exactly the bytes of that body.
\<close>
theorem concurrent_puts_keep_their_bytes:
  assumes "shared_s3 api objs mparts used" and "1 \<le> partSize c" and "1 \<le> partConcurrency c"
    and "store_reachable api c (m, qs)"
  shows "distinct (dropped m @ pooled m @ all_owned qs) \<and>
    set (dropped m @ pooled m @ all_owned qs) = {..<made m} \<and>
    (\<forall>q \<in> set qs. \<forall>n bs e. q_stage q = ADone (Inr n) \<longrightarrow> delivers (q_body q) bs e \<longrightarrow>
       errors_is e EOF \<and> n = int (length bs) \<and> objs (svc m) (q_key q) = Some bs)"
proof -
  have ok: "accounted (m, qs)"
    "\<And>q. q \<in> set qs \<Longrightarrow> upload_ok c objs mparts used (q_key q) (q_body q) (q_stage q) m"
    using shared_s3.store_reachable_ok [OF assms(1,4,2,3)]
    by (simp_all add: shared_s3.store_ok_def [OF assms(1)])
  have "errors_is e EOF \<and> n = int (length bs) \<and> objs (svc m) (q_key q) = Some bs"
    if "q \<in> set qs" "q_stage q = ADone (Inr n)" "delivers (q_body q) bs e" for q n bs e
    using ok(2) [OF that(1)] that(2,3) by (simp add: upload_ok_def)
  with accounted_distinct [OF ok(1)] show ?thesis by blast
qed

text \<open>
  C12. The multipart pipeline over pooled buffers refines the one over byte strings: one move of a goroutine that sends,
  receives or gives back the address of a buffer is one move of the goroutine that handles its contents (or, for taking
  a buffer from the pool, none), whatever the rest of the memory holds, as long as the pipe holds each of its
  buffers once and the lengths that travel with them are within them; and a move keeps both.
\<close>
theorem buffers_refine_bytes:
  assumes "buf_move api key uid c (b, m) (b', m')"
    and "distinct (pooled m @ pipe_owns b)" and "\<forall>x \<in> set (pooled m @ pipe_owns b). x < made m"
    and "fits m (pipe_spans b)"
  shows "(see_pipe m' b' = see_pipe m b \<or> (\<exists>mv. pipe_step api key uid c mv (see_pipe m b) = Some (see_pipe m' b'))) \<and>
    distinct (pooled m' @ pipe_owns b') \<and> (\<forall>x \<in> set (pooled m' @ pipe_owns b'). x < made m') \<and>
    fits m' (pipe_spans b')"
proof -
  have "moves_or_stays api key uid c (see_pipe m b) (see_pipe m' b')"
    using assms(2,3) by (intro buf_move_simulates [OF assms(1) _ _ assms(4)]) auto
  moreover have "fits m' (pipe_spans b')" using assms(3) by (intro buf_move_fits [OF assms(1,4)]) auto
  moreover have "distinct (pooled m' @ pipe_owns b') \<and> (\<forall>x \<in> set (pooled m' @ pipe_owns b'). x < made m')"
  proof -
    from buf_move_books [OF assms(1)] have k: "made m \<le> made m'" and
      e: "mset (pooled m' @ pipe_owns b') + mset [0..<made m] = mset (pooled m @ pipe_owns b) + mset [0..<made m']"
      by auto
    have "mset [0..<made m'] = mset [0..<made m] + mset [made m..<made m']"
      using upt_add_eq_append [of 0 "made m" "made m' - made m"] k by simp
    with e have "mset (pooled m' @ pipe_owns b') = mset ((pooled m @ pipe_owns b) @ [made m..<made m'])"
      by (simp add: ac_simps)
    note same = mset_eq_imp_distinct_iff [OF this] mset_eq_setD [OF this]
    have below: "\<forall>x \<in> set (pooled m' @ pipe_owns b'). x < made m'"
    proof
      fix x assume "x \<in> set (pooled m' @ pipe_owns b')"
      then consider "x \<in> set (pooled m @ pipe_owns b)" | "x < made m'" unfolding same(2) by auto
      then show "x < made m'" using assms(3) k by cases (blast intro: less_le_trans)+
    qed
    have "set (pooled m @ pipe_owns b) \<inter> set [made m..<made m'] = {}"
    proof (rule equals0I)
      fix x assume x: "x \<in> set (pooled m @ pipe_owns b) \<inter> set [made m..<made m']"
      then have "x < made m" using assms(3) by blast
      with x show False by simp
    qed
    with assms(2) have "distinct ((pooled m @ pipe_owns b) @ [made m..<made m'])"
      by (simp only: distinct_append [of "pooled m @ pipe_owns b"] distinct_upt simp_thms)
    with same(1) below show ?thesis by blast
  qed
  ultimately show ?thesis by (auto simp: moves_or_stays_def)
qed

section \<open>Runs\<close>

text \<open>A small body, start to end: one buffer taken, filled, sent in one piece, given back.\<close>

lemma short_put_run:
  assumes "store_reachable api c (m, qs)" and "key \<notin> q_key ` set qs" and "getBuf c a m m1"
    and "fill (nat (partSize c)) body = ((bs, Some e), r')" and "errors_is e EOF"
    and "putObject api key (Stream [Data bs None]) (int (length bs)) ct (svc m) = ((res, r), s)"
  shows "store_reachable api c (putBuf a ((read_into a bs m1)\<lparr>svc := s\<rparr>),
    qs @ [\<lparr>q_key = key, q_ct = ct, q_body = body, q_stage = ADone res\<rparr>])"
proof -
  let ?q = "\<lambda>st. \<lparr>q_key = key, q_ct = ct, q_body = body, q_stage = st\<rparr>"
  have go: "store_reachable api c (m', qs @ [?q st])"
    if "store_reachable api c (m0, qs @ [?q st0])" "put_move api c key ct (st0, m0) (st, m')" for m0 st0 m' st
    using store_reachable.more [OF that(1) store_step.act [where ys = "[]"]] that(2) by simp
  have "store_reachable api c (m, qs @ [?q (AGet body)])"
    by (rule store_reachable.more [OF assms(1) store_step.begin_put [OF assms(2)]])
  from go [OF this put_move.first_buffer [OF assms(3)]] have "store_reachable api c (m1, qs @ [?q (AFill a body)])" .
  from go [OF this put_move.short [OF assms(4,5)]]
  have run: "store_reachable api c (read_into a bs m1, qs @ [?q (ASingle a (length bs))])" .
  have "putObject api key (Stream [Data (buf_bytes (read_into a bs m1) a (length bs)) None]) (int (length bs)) ct
      (svc (read_into a bs m1)) = ((res, r), s)"
    using assms(6) getBuf_facts(1) [OF assms(3)] by simp
  from go [OF run put_move.single [OF this]] show ?thesis .
qed

text \<open>Two uploads one after the other in the same buffer, the second over what the first left there.\<close>

definition start_memory :: "fake_s3 memory" where
  "start_memory = \<lparr>heap = (\<lambda>_. []), pooled = [], made = 0, dropped = [], svc = newFakeS3\<rparr>"

lemma tiny_fill: "fill (nat (partSize tiny_store)) (Stream [Data [x] None]) = (([x], Some (Sentinel EOF)), Stream [])"
  by (simp add: fill_def tiny_store_def read_loop.simps)

lemma fake_short_put:
  "\<exists>r s'. putObject (fake_api no_url) key (Stream [Data [x] None]) (int (length [x])) ct s = ((Inr 1, r), s')"
  by (simp add: putObject_def fake_api_def fake_put_def read_loop.simps)

theorem concurrent_puts_keep_their_bytes_witness:
  "\<exists>m qs. store_reachable (fake_api no_url) tiny_store (m, qs) \<and> made m = 1 \<and> map q_key qs = [''k1'', ''k2''] \<and>
     objects (svc m) ''k1'' = Some ''a'' \<and> objects (svc m) ''k2'' = Some ''b'' \<and> set (pooled m) = {0}"
proof -
  let ?A = "fake_api no_url" and ?B = "\<lambda>x. Stream [Data [x] None] :: reader"
  let ?q = "\<lambda>k x. \<lparr>q_key = k, q_ct = ''image/png'', q_body = ?B x, q_stage = ADone (Inr 1)\<rparr>"
  have s0: "store_reachable ?A tiny_store (start_memory, [])"
    using store_reachable.fresh by (simp add: start_memory_def)
  have g1: "getBuf tiny_store 0 start_memory
      (start_memory\<lparr>made := 1, heap := (heap start_memory)(0 := new_buffer tiny_store)\<rparr>)" (is "getBuf _ _ _ ?m1")
    using getBuf.alloc [of tiny_store start_memory] by (simp add: start_memory_def)
  obtain r1 s1 where p1: "putObject ?A ''k1'' (?B (CHR ''a'')) (int (length ''a'')) ''image/png'' (svc start_memory) = ((Inr 1, r1), s1)"
    using fake_short_put by blast
  let ?m = "putBuf 0 ((read_into 0 ''a'' ?m1)\<lparr>svc := s1\<rparr>)"
  have run1: "store_reachable ?A tiny_store (?m, [?q ''k1'' (CHR ''a'')])"
    using short_put_run [OF s0 _ g1 tiny_fill _ p1] by simp
  have g2: "getBuf tiny_store 0 ?m (?m\<lparr>pooled := []\<rparr>)"
    using getBuf.reuse [of ?m "[]" 0 "[]" tiny_store] by (simp add: start_memory_def)
  obtain r2 s2 where p2: "putObject ?A ''k2'' (?B (CHR ''b'')) (int (length ''b'')) ''image/png'' (svc ?m) = ((Inr 1, r2), s2)"
    using fake_short_put by blast
  let ?n = "putBuf 0 ((read_into 0 ''b'' (?m\<lparr>pooled := []\<rparr>))\<lparr>svc := s2\<rparr>)"
  let ?qs = "[?q ''k1'' (CHR ''a''), ?q ''k2'' (CHR ''b'')]"
  have run2: "store_reachable ?A tiny_store (?n, ?qs)"
    using short_put_run [OF run1 _ g2 tiny_fill _ p2] by simp
  have "1 \<le> partSize tiny_store" "1 \<le> partConcurrency tiny_store" by (simp_all add: tiny_store_def)
  note concurrent_puts_keep_their_bytes [OF fake_shared_service this run2]
  then have "objects (svc ?n) ''k1'' = Some ''a''" "objects (svc ?n) ''k2'' = Some ''b''" by auto
  moreover have "made ?n = 1" "set (pooled ?n) = {0}" by simp_all
  ultimately show ?thesis using run2 by (intro exI [of _ ?n] exI [of _ ?qs]) simp
qed

text \<open>A read into a buffer that another upload has used.\<close>

definition dirty_memory :: "fake_s3 memory" where
  "dirty_memory = \<lparr>heap = (\<lambda>_. ''xy''), pooled = [1], made = 2, dropped = [], svc = newFakeS3\<rparr>"

definition reading_pipe :: buf_pipe where
  "reading_pipe = (buf_init tiny_store 0 0 (Stream [Data ''c'' None]))\<lparr>b_prod := BFill 0\<rparr>"

theorem buffers_refine_bytes_witness:
  "\<exists>b' mv. buf_move (fake_api no_url) ''k'' ''upload-1'' tiny_store (reading_pipe, dirty_memory)
      (b', read_into 0 ''c'' dirty_memory) \<and>
    pipe_step (fake_api no_url) ''k'' ''upload-1'' tiny_store mv (see_pipe dirty_memory reading_pipe) =
      Some (see_pipe (read_into 0 ''c'' dirty_memory) b') \<and>
    p_prod (see_pipe (read_into 0 ''c'' dirty_memory) b') = PSend \<lparr>pj_num = 1, pj_data = ''c''\<rparr> (Some (Sentinel EOF))"
proof -
  let ?b = "reading_pipe\<lparr>b_body := Stream [], b_prod := BSend \<lparr>jb_num = 1, jb_buf = 0, jb_len = 1\<rparr> (Some (Sentinel EOF))\<rparr>"
  have "buf_move (fake_api no_url) ''k'' ''upload-1'' tiny_store (reading_pipe, dirty_memory)
      (?b, read_into 0 ''c'' dirty_memory)"
    using buf_move.read [of reading_pipe 0 tiny_store "''c''" "Some (Sentinel EOF)" "Stream []" "fake_api no_url" "''k''"
        "''upload-1''" dirty_memory] tiny_fill
    by (simp add: reading_pipe_def buf_init_def)
  note move = this
  have e: "concat (map uploader_owns (replicate k BIdle)) = []" "concat (map uploader_spans (replicate k BIdle)) = []" for k
    by (induction k) auto
  have o: "pipe_owns reading_pipe = [0]" "pipe_spans reading_pipe = []"
    by (simp_all add: pipe_owns_def pipe_spans_def reading_pipe_def buf_init_def e)
  have "distinct (pooled dirty_memory @ pipe_owns reading_pipe)"
    "\<forall>x \<in> set (pooled dirty_memory @ pipe_owns reading_pipe). x < made dirty_memory"
    "fits dirty_memory (pipe_spans reading_pipe)"
    by (simp_all add: o dirty_memory_def)
  note buffers_refine_bytes [OF move this]
  moreover have s: "p_prod (see_pipe (read_into 0 ''c'' dirty_memory) ?b) = PSend \<lparr>pj_num = 1, pj_data = ''c''\<rparr> (Some (Sentinel EOF))"
    by (simp add: see_pipe_def see_job_def)
  moreover have "p_prod (see_pipe dirty_memory reading_pipe) = PFill" by (simp add: see_pipe_def reading_pipe_def)
  ultimately show ?thesis using move by (metis producer.distinct)
qed

end
