(* ===== verification/Spec2Isabelle.thy ===== *)
theory Spec2Isabelle
  imports Claims JobRepoSpec Config HandlersSpec Auth Processor MockProcessor WorkerProgress WorkerPool Server
    Metrics Columns MockServer Buffers
begin

text \<open>
  A model of the payload service: an HTTP API that accepts texts and files, a queue of jobs in
  PostgreSQL, object storage on S3, workers that hand jobs to an external processor over HTTP, and the mock of
  that processor. Definitions have the names of the Go functions they translate.

  \<^bold>\<open>The parts and their theories.\<close>

  \<^item> Prelude: 64-bit arithmetic (\<open>i64\<close>), updates of rows, theorem collections. GoStrings and GoPath:
    what the code uses of packages strings, strconv and path/filepath.
  \<^item> Domain (\<open>internal/domain\<close>): jobs, statuses, sentinel errors and \<open>errors.Is\<close> on trees of wrapped errors.
  \<^item> JobRepo (\<open>internal/storage/postgres/jobs.go\<close> and the schema of \<open>migrations\<close>): the table as the list of
    its rows, one function per SQL statement, one per method, each call taking the next fault of a script (answered,
    never sent, or committed with the reply lost). Lifecycle: runs of statements, the table invariant, the edges
    of a job's life. Claims: concurrent claims with row locks. JobRepoSpec: the abstract queue the table
    refines, and the properties of the methods.
  \<^item> Config (\<open>internal/config\<close>): \<open>Load\<close>, \<open>Validate\<close>, the parsers of the environment.
  \<^item> Reader (\<open>io\<close>, and \<open>cappedReader\<close> of \<open>internal/api/http/mime.go\<close>): readers as streams of read
    events. S3Store and S3Upload (\<open>internal/storage/s3/store.go\<close>): \<open>Put\<close> in all its paths; the producer and the
    uploaders of a multipart upload as a step function over schedules. S3Contract: the service's laws and
    the store's promises as locales. FakeS3: the fake of \<open>store_test.go\<close>, which interprets them. Buffers
    (\<open>getBuf\<close>, \<open>bufPool\<close>): all uploads of a process over one memory, one pool and one service.
  \<^item> Service and ServiceSpec (\<open>internal/service\<close>): drafts, and all requests interleaved with the database.
  \<^item> Mime (\<open>mime.go\<close>): which files are accepted. Handlers and HandlersSpec (\<open>handlers.go\<close>,
    \<open>response.go\<close>): a request from its parts to its answer. Uploads (\<open>acquireUploadSlot\<close>): all requests
    waiting for upload slots and uploading, interleaved. Auth (\<open>auth.go\<close>, the routes of \<open>router.go\<close>).
    Router (\<open>router.go\<close>, \<open>writeJSON\<close>): the middlewares around handlers that answer or panic, and the bytes of
    every body.
  \<^item> Utf8, Json and JsonValue: what the code uses of encoding/json, which text it writes for strings and
    objects, and a parser of JSON values. Columns (\<open>jobColumns\<close>, \<open>scanJob\<close>, \<open>NewPool\<close>):
    a job as a row of SQL values, each in a column of the type that \<open>migrations\<close> gives it.
  \<^item> Processor (\<open>internal/processor\<close>): the client with its retries. MockProcessor (\<open>cmd/mockprocessor\<close>): its
    handler; MockServer: its process and routes. Wire: the JSON the two exchange.
  \<^item> Worker (\<open>internal/worker\<close>): each goroutine's operation. WorkerSpec: outcome, trace, heartbeat,
    shutdown, one at a time. WorkerProgress: the queue drains. WorkerPool: replicas interleaved, tickers.
  \<^item> Telemetry (\<open>internal/observability\<close>, \<open>internal/buildinfo\<close>): collectors, log handler, tracer set-up.
    Metrics: the metric calls of all the parts.
  \<^item> Server (\<open>cmd/server\<close>, \<open>migrate.go\<close>): the order of start, shutdown and migration; readiness.

  \<^bold>\<open>How they interact.\<close> A handler reads the parts of a request, validates a file, uploads it through the draft to the
  store and commits the draft to the repository; on every other way out the draft is discarded. The poller claims
  due rows into a channel, a worker takes one, presigns its object, calls the processor and writes the
  outcome, while a heartbeat renews the lease and the reaper requeues rows whose lease ran out. The interfaces are
  locales: \<open>s3_service\<close>, \<open>s3_store\<close> and \<open>shared_s3\<close> (what the store needs of the service, the last for uploads at the same time), \<open>object_store\<close> and
  \<open>job_repository\<close> (what the service needs of both), \<open>job_service\<close>; all are interpreted on the models of the
  code, FakeS3 standing for the service. The theorems of this theory span them: the reported upload memory
  bounds every schedule of every upload, and a job travels from the request through the queue, the worker and the
  processor back to the client.

  \<^bold>\<open>What the lemmas show.\<close> The table refines an abstract queue and keeps its invariant; claims are disjoint; an
  upload stores exactly the bytes it was given, also when others run in the same buffers, ends under every schedule, holds bounded memory, and is deleted when
  no job comes of it; a 202 means the job is what was sent, and a refusal leaves nothing; keys decide access;
  retries, backoff, leases and shutdown behave as stated on every branch; no job is in two hands while leases live;
  a request of the processor reads back as it was written, and a row as its columns keep it; the metrics count what
  happened, and those of requests agree with the access log.
  Some theorems state where the code departs from its documentation: a job slower than 15 seconds is
  never completed, the reaper ignores the attempt limit, a stale worker can fail a job it lost, a lost reply
  leaves a row without its object, a failed upload can be answered by an empty 200, a text near 1 MiB is accepted
  and never processed, an error text cut inside a character is never recorded, intervals that pass the validation
  can end the process.

  \<^bold>\<open>Bounds and fuel.\<close> Two functions have fuel. The JSON parser has the length of its text and one more, which is
  enough: more never changes an answer (\<open>json_decode_complete\<close>). The end of a multipart schedule (\<open>drive\<close>) has the
  potential of the pipe, which is enough for all goroutines to return (\<open>run_pipe_done\<close>). Other loops are recursive
  functions with a measure: the read loop by the weight of the reader, the retry loop by the attempts left, the poller by the room in the channel, the multipart pipeline by a measure
  on its state that every move decreases, so that the length of every run is bounded (\<open>pipe_run_cost\<close>). \<open>int64\<close> wraps where a product or sum of
  configured values can (\<open>i64\<close>); other integers are unbounded. Times are nanoseconds; the server's clock and
  the application's are separate. The table of JobRepo keeps times and ids as they were sent; what a \<open>TIMESTAMPTZ\<close> and
  a \<open>UUID\<close> column make of them is in Columns.

  \<^bold>\<open>Not modelled.\<close> Tracing spans and the texts of log lines, which nothing reads; the multipart parser (a request
  is the list of its parts and reading errors); timeouts and transport settings of the HTTP clients and servers; the pool
  of sniff buffers, whose bytes are copied before it is given back. Parameters: the S3 service, the processor's transport, SHA-256, uuids, non-ASCII
  case folding, formatting and parsing of times in JSON, the pattern chi reports for a route, goose and the network. The
  metric, log and tracing libraries are represented by their documented contracts. In the worker, ticks
  come at arbitrary times; cancellation of a running call is one of the errors it can return.
\<close>

section \<open>Configuration and store: the reported upload memory\<close>

lemma loaded_valid: "Load uni host env = Inr cfg \<Longrightarrow> valid_config cfg"
  by (auto simp: Load_def Let_def Validate_valid [symmetric] split: option.splits)

text \<open>
  C27. The memory the service reports at startup is a bound. With a configuration that \<open>Load\<close> returned, however many
  requests arrive and however they, the waits for a slot and the goroutines of their uploads interleave,
  at most as many uploads as there are slots hold one, and the part buffers all of them hold, at the size of a
  part, take at most \<open>PeakUploadBytes\<close> (as long as that product fits 64 bits, so that what is reported is the
  product). The in-flight gauge counts the uploads between their two updates of it, and the rejected
  counter those that were shed.
\<close>
theorem upload_memory_is_reported:
  assumes "Load uni host env = Inr cfg"
    and "S3PartSize cfg * (1 + 2 * S3PartConcurrency cfg) * MaxConcurrentUploads cfg < 2 ^ 63"
    and "uploads_reachable api cfg u"
  shows "int (sum_list (map phase_buffers (phases u))) * S3PartSize cfg \<le> PeakUploadBytes cfg \<and>
    sum_list (map holds_slot (phases u)) = slots_used u \<and> slots_used u \<le> newHandlerSlots cfg \<and>
    counted UploadsInFlight [] (up_samples u) = sum_list (map in_gauge (phases u)) \<and>
    counted UploadsRejected [] (up_samples u) = sum_list (map was_shed (phases u))"
proof -
  have v: "1 \<le> S3PartConcurrency cfg" "1 \<le> S3PartSize cfg" "1 \<le> MaxConcurrentUploads cfg"
    using loaded_valid [OF assms(1)] by (auto simp: valid_config_def)
  have ok: "uploads_ok cfg u" by (rule uploads_reachable_ok [OF assms(3) v(1)])
  have "int (sum_list (map phase_buffers (phases u))) * S3PartSize cfg
      \<le> int (newHandlerSlots cfg) * (1 + 2 * S3PartConcurrency cfg) * S3PartSize cfg"
    using uploads_buffers [OF ok v(1)] v(2) by (intro mult_right_mono) auto
  also have "\<dots> = PeakUploadBytes cfg"
    using peak_upload_bytes_exact [OF v(2,1,3) assms(2)] v(3) by (simp add: newHandlerSlots_def ac_simps)
  finally show ?thesis using ok by (simp add: uploads_ok_def)
qed

theorem upload_memory_is_reported_witness:
  "uploads_reachable (fake_api no_url) worker_cfg (two_requests Buffering Trying 1 [Inc UploadsInFlight []]) \<and>
   int (sum_list (map phase_buffers [Buffering :: fake_s3 phase, Trying])) * 8388608 \<le> 1207959552"
proof -
  have load: "Load id None (\<lambda>k. if k = ''DATABASE_URL'' then ''db'' else '''') = Inr worker_cfg"
    using worker_cfg_valid unfolding worker_cfg_def Load_def Let_def by (simp add: Validate_valid [symmetric])
  have f: "S3PartSize worker_cfg = 8388608" "S3PartConcurrency worker_cfg = 4" "MaxConcurrentUploads worker_cfg = 16"
    "PeakUploadBytes worker_cfg = 1207959552" by code_simp+
  let ?u = "two_requests Buffering Trying 1 [Inc UploadsInFlight []] :: fake_s3 uploads"
  have "0 < newHandlerSlots worker_cfg" by (simp add: newHandlerSlots_def f)
  from uploads_reachable_both(1) [OF two_requests_start request_step.enter [OF this]]
  have "uploads_reachable (fake_api no_url) worker_cfg (two_requests Granted Trying 1 [])" by simp
  from uploads_reachable_both(1) [OF this request_step.count] have "uploads_reachable (fake_api no_url) worker_cfg ?u" by simp
  with upload_memory_is_reported [OF load _ this] show ?thesis by (simp add: f two_requests_def)
qed

section \<open>From the request to the result\<close>

lemma row_of_map_state:
  assumes "distinct (map ID rs)" and "j \<in> set rs" and "P j" and "\<And>x. ID (f x) = ID x"
  shows "row_of (update_where P f rs) (ID j) = Some (f j)"
  by (subst row_of_update_where) (simp_all add: assms row_of_mem)

lemma completed_row:
  assumes "new_row j" and "exec (pool_claim cfg p j) = Inr out"
  shows "Status (attempted_row cfg exec p j) = StatusCompleted \<and> ResultSummary (attempted_row cfg exec p j) = Summary out \<and>
    Attempts (attempted_row cfg exec p j) = 1"
  using assms by (simp add: attempted_row_def settled_row_def complete_row_def pool_claim_def claim_row_def new_row_def)

lemma GetJob_row:
  assumes "faults p = []" and "uuid_ok i" and "pg_uuid i = Some i" and "i \<noteq> ''''" and "row_of (rows p) i = Some k"
  shows "GetJob (svc_ports fresh uuid_ok pg_uuid put del) i p =
    (\<lparr>R_status = 200, R_headers = [], R_body = JobBody (toJobResponse k)\<rparr>, p)"
  using idle_server [OF assms(1)] assms(2-)
  by (simp add: GetJob_def svc_ports_def Get_def read_row_def round_trip_Reply row_of_def)

text \<open>
  C1. What a client sends is what gets processed, and what the processor says is what the client reads.
  After \<open>CreateJob\<close> answered 202 for a new job, with a server that answers from then on, processing that fits the
  final context and an object store and processor that accept this job, as many ticks of a worker as there are due
  jobs make \<open>GetJob\<close> answer 200 with the job completed at its first attempt and the processor's summary;
  and the processor was given the job's id, the client's trimmed text and trace, and, for a file,
  the presigned URL of an object that holds exactly the bytes of the file part, with their number.
\<close>
theorem submitted_job_is_processed:
  assumes "object_store put del objs" and "plain_elem (Q_uuid q)" and "limits_ok cfg"
    and "\<forall>x \<in> set (parts_sent (Q_parts q)). body_ok x"
    and "CreateJob uni cfg (svc_ports fresh uuid_ok pg_uuid (put n) del) q p st = (resp, p', st')"
    and "is_new resp"
    and "uuid_ok (Q_uuid q)" and "pg_uuid (Q_uuid q) = Some (Q_uuid q)"
    and "faults p' = []" and "distinct (map ID (rows p'))" and "card (due_ids p') \<le> ticks"
    and "valid_config cfg" and "0 < RetryBackoffBase cfg" and "\<forall>j. took j < final_timeout"
    and "\<forall>k. presign k (S3PresignTTL cfg) = Inr (url k)"
    and "\<forall>inp. PI_JobID inp = Q_uuid q \<longrightarrow> (\<exists>out. proc inp = Inr out)"
  shows "\<exists>inp out body.
    GetJob (svc_ports fresh uuid_ok pg_uuid (put n) del) (Q_uuid q)
        ((work_round cfg (runJob cfg presign proc) took ^^ ticks) p') =
      (\<lparr>R_status = 200, R_headers = [], R_body = JobBody body\<rparr>,
       (work_round cfg (runJob cfg presign proc) took ^^ ticks) p') \<and>
    JR_ID body = Q_uuid q \<and> JR_Status body = ''completed'' \<and> JR_Attempts body = 1 \<and>
    proc inp = Inr out \<and> JR_ResultSummary body = Summary out \<and>
    PI_JobID inp = Q_uuid q \<and> PI_TraceContext inp = Q_trace q \<and>
    PI_Text inp = (if texts (Q_parts q) = [] then ''''
      else trim_space (body_bytes (PartBody (last (texts (Q_parts q)))))) \<and>
    (if files (Q_parts q) = [] then PI_DownloadURL inp = ''''
     else \<exists>f k. files (Q_parts q) = [f] \<and> PI_DownloadURL inp = url k \<and>
       objs st' k = Some (body_bytes (PartBody f)) \<and> PI_SizeBytes inp = int (length (body_bytes (PartBody f))))"
proof -
  obtain j d where j: "rows p' = rows p @ [j]" "d_job d = j" "ID j = Q_uuid q" "new_row j" "TraceContext j = Q_trace q"
    "Text j = (if texts (Q_parts q) = [] then '''' else trim_space (body_bytes (PartBody (last (texts (Q_parts q))))))"
    and fl: "if files (Q_parts q) = [] then ObjectKey j = '''' \<and> st' = st
      else \<exists>f. files (Q_parts q) = [f] \<and> holds_file cfg (objs st') d f"
    using object_store.CreateJob_accepted [OF assms(1,5,6,2-4)] by auto
  let ?run = "runJob cfg presign proc"
  let ?c = "pool_claim cfg p' j"
  let ?inp = "process_input ?c (if ObjectKey j = '''' then '''' else url (ObjectKey j))"
  have c: "ID ?c = ID j" "ObjectKey ?c = ObjectKey j" "Text ?c = Text j" "SizeBytes ?c = SizeBytes j"
    "TraceContext ?c = TraceContext j" by (simp_all add: pool_claim_def claim_row_def)
  have "PI_JobID ?inp = Q_uuid q" using c j(3) by (simp add: process_input_def)
  then obtain out where out: "proc ?inp = Inr out" using assms(16) by blast
  have run: "?run ?c = Inr out" using out assms(15) c by (auto simp: runJob_def)
  have settled: "(work_round cfg ?run took ^^ ticks) p' =
      p'\<lparr>rows := update_where (due (db_now p')) (attempted_row cfg ?run p') (rows p')\<rparr>"
    by (rule due_jobs_settled [OF assms(12,13,14,9,10,11)])
  let ?k = "attempted_row cfg ?run p' j"
  have "due (db_now p') j" using j(4) by (simp add: new_row_def due_def)
  then have row: "row_of (rows ((work_round cfg ?run took ^^ ticks) p')) (Q_uuid q) = Some ?k"
    unfolding settled using row_of_map_state [OF assms(10), of j] j(1,3) by simp
  have id: "Q_uuid q \<noteq> ''''" using assms(2) by (auto simp: plain_elem_def)
  have idle: "faults ((work_round cfg ?run took ^^ ticks) p') = []" unfolding settled using assms(9) by simp
  have get: "GetJob (svc_ports fresh uuid_ok pg_uuid (put n) del) (Q_uuid q) ((work_round cfg ?run took ^^ ticks) p') =
      (\<lparr>R_status = 200, R_headers = [], R_body = JobBody (toJobResponse ?k)\<rparr>, (work_round cfg ?run took ^^ ticks) p')"
    by (rule GetJob_row [OF idle _ _ id row]) (rule assms(7), rule assms(8))
  have body: "JR_ID (toJobResponse ?k) = Q_uuid q" "JR_Status (toJobResponse ?k) = ''completed''"
    "JR_Attempts (toJobResponse ?k) = 1" "JR_ResultSummary (toJobResponse ?k) = Summary out"
    using completed_row [where exec = ?run, OF j(4) run] j(3) by (simp_all add: toJobResponse_def)
  have inp: "PI_JobID ?inp = Q_uuid q" "PI_TraceContext ?inp = Q_trace q" "PI_Text ?inp = Text j"
    "PI_SizeBytes ?inp = SizeBytes j" "PI_DownloadURL ?inp = (if ObjectKey j = '''' then '''' else url (ObjectKey j))"
    using c j(3,5) by (simp_all add: process_input_def)
  have dl: "if files (Q_parts q) = [] then PI_DownloadURL ?inp = ''''
     else \<exists>f k. files (Q_parts q) = [f] \<and> PI_DownloadURL ?inp = url k \<and>
       objs st' k = Some (body_bytes (PartBody f)) \<and> PI_SizeBytes ?inp = int (length (body_bytes (PartBody f)))"
  proof (cases "files (Q_parts q) = []")
    case True
    with fl inp(5) show ?thesis by simp
  next
    case False
    with fl obtain f where f: "files (Q_parts q) = [f]" "holds_file cfg (objs st') d f" by auto
    then have "ObjectKey j \<noteq> ''''" using own_key_nonempty j(2) by (auto simp: holds_file_def)
    with f j(2) inp(4,5) show ?thesis by (auto simp: holds_file_def)
  qed
  show ?thesis using get body out inp(1-3) j(6) dl by (intro exI [of _ ?inp] exI [of _ out] exI [of _ "toJobResponse ?k"]) simp
qed

text \<open>
  The mock processor as the worker's processor, with a memory that has seen nothing: what
  \<open>internal/processor\<close> sends and reads back is the request and the response record.
\<close>

definition via_mock :: "ProcessInput \<Rightarrow> goerr + ProcessResult" where
  "via_mock inp =
     (case MockProcessor.process
         (\<lambda>_. Some \<lparr>PR_JobID = PI_JobID inp, PR_Text = PI_Text inp, PR_ContentType = PI_ContentType inp,
                    PR_SizeBytes = PI_SizeBytes inp, PR_DownloadURL = PI_DownloadURL inp\<rparr>)
         (\<lambda>_. GetResp 200 (nat (PI_SizeBytes inp)) None) 9 text_request new_server of
        (MockOk summary t, _) \<Rightarrow> Inr \<lparr>Summary = summary, ProcessedAt = t\<rparr>
      | _ \<Rightarrow> Inl (Opaque ''processor''))"

lemma via_mock_answers: "PI_JobID inp = ''u1'' \<Longrightarrow> \<exists>out. via_mock inp = Inr out"
  by (simp add: via_mock_def MockProcessor.process_def text_request_def cached_def new_server_def download_def
      parse_int_def Let_def)

lemma card_due_ids: "card (due_ids p) \<le> length (rows p)"
proof -
  have "due_ids p \<subseteq> ID ` set (rows p)" by (auto simp: due_ids_def)
  then have "card (due_ids p) \<le> card (ID ` set (rows p))" by (rule card_mono [rotated]) simp
  also have "\<dots> \<le> length (rows p)" by (metis card_image_le card_length finite_set order_trans)
  finally show ?thesis .
qed

theorem submitted_job_is_processed_witness:
  "\<exists>resp p' st' body p3.
     CreateJob id small_cfg (tiny_ports []) (sample_req [Part (png_part ''xyz'' None), Part (text_part ''hi'')])
       empty_pg newFakeS3 = (resp, p', st') \<and>
     GetJob (tiny_ports []) ''u1''
       ((work_round small_cfg (runJob small_cfg (\<lambda>k _. Inr (''http://s3/'' @ k)) via_mock) (\<lambda>_. 1000) ^^ 1) p')
     = (\<lparr>R_status = 200, R_headers = [], R_body = JobBody body\<rparr>, p3) \<and> JR_Status body = ''completed''"
proof -
  let ?q = "sample_req [Part (png_part ''xyz'' None), Part (text_part ''hi'')]"
  let ?r = "CreateJob id small_cfg (tiny_ports []) ?q empty_pg newFakeS3"
  obtain resp p' st' where c: "?r = (resp, p', st')" by (metis prod.exhaust)
  have "is_new (fst ?r)" "faults (fst (snd ?r)) = []" "map ID (rows (fst (snd ?r))) = [''u1'']" by code_simp+
  then have ev: "is_new resp" "faults p' = []" "map ID (rows p') = [''u1'']" by (simp_all add: c)
  have q: "Q_uuid ?q = ''u1''" "Q_parts ?q = [Part (png_part ''xyz'' None), Part (text_part ''hi'')]"
    by (simp_all add: sample_req_def)
  have pl: "plain_elem (Q_uuid ?q)" using plain_u1 q(1) by simp
  have b: "\<forall>x \<in> set (parts_sent (Q_parts ?q)). body_ok x" using sample_bodies q(2) by simp
  have "Validate small_cfg = None" by code_simp
  then have v: "valid_config small_cfg" by (simp add: Validate_valid)
  have base: "0 < RetryBackoffBase small_cfg" by code_simp
  have "length (rows p') = 1" using ev(3) by (metis length_map list.size(3,4) add_0 One_nat_def plus_1_eq_Suc)
  then have card: "card (due_ids p') \<le> 1" using card_due_ids [of p'] by simp
  have d: "distinct (map ID (rows p'))" using ev(3) by simp
  have took: "\<forall>j :: job. (\<lambda>_. 1000) j < final_timeout" by (simp add: final_timeout_def)
  have proc: "\<forall>inp. PI_JobID inp = Q_uuid ?q \<longrightarrow> (\<exists>out. via_mock inp = Inr out)"
    using via_mock_answers q(1) by simp
  have url: "\<forall>k. (\<lambda>k (_ :: duration). Inr (''http://s3/'' @ k) :: goerr + string) k (S3PresignTTL small_cfg) = Inr (''http://s3/'' @ k)"
    by simp
  from submitted_job_is_processed [OF tiny_object_store pl small_limits b c [unfolded tiny_ports_def] ev(1) _ _
      ev(2) d card v base took url proc]
  show ?thesis unfolding tiny_ports_def [symmetric] q(1) using c by auto
qed

end
